(* ===== verification/Podping_Prelude.thy ===== *)
theory Podping_Prelude
  imports Main "HOL-Library.Word" "HOL-Library.Char_ord" "HOL-Library.List_Lexorder"
    "HOL-Library.Multiset"
begin

text \<open>
  Shared vocabulary of the development: the machine integer types of the Rust code, panics and
  results as values, saturating arithmetic, association-list tables, and the two interface
  locales that several components implement (a codec with a round trip, a log with a cap).
\<close>

named_theorems rust_std \<open>equations of the modelled part of the Rust standard library\<close>
named_theorems db_ops \<open>definitions of the database operations\<close>
named_theorems inv_intros \<open>preservation of component invariants\<close>

type_synonym u8 = "8 word"
type_synonym u16 = "16 word"
type_synonym u32 = "32 word"
type_synonym u64 = "64 word"
type_synonym rstr = string

section \<open>Results and panics\<close>

text \<open>
  A Rust \<^verbatim>\<open>Result\<close> is a sum: \<open>Inl\<close> is \<^verbatim>\<open>Err\<close>, \<open>Inr\<close> is \<^verbatim>\<open>Ok\<close>. A computation that may
  panic (an \<^verbatim>\<open>unwrap\<close> of an error, a slice out of range) returns an \<open>outcome\<close>.
\<close>

datatype 'a outcome = Ret 'a | Panic

abbreviation Ok :: "'a \<Rightarrow> 'e + 'a" where
  "Ok \<equiv> Inr"

abbreviation Err :: "'e \<Rightarrow> 'e + 'a" where
  "Err \<equiv> Inl"

fun bind_outcome :: "'a outcome \<Rightarrow> ('a \<Rightarrow> 'b outcome) \<Rightarrow> 'b outcome" where
  "bind_outcome (Ret x) f = f x"
| "bind_outcome Panic f = Panic"

definition unwrap :: "'a option \<Rightarrow> 'a outcome" where
  "unwrap x = (case x of None \<Rightarrow> Panic | Some v \<Rightarrow> Ret v)"

fun mapM_outcome :: "('a \<Rightarrow> 'b outcome) \<Rightarrow> 'a list \<Rightarrow> 'b list outcome" where
  "mapM_outcome f [] = Ret []"
| "mapM_outcome f (x # xs) =
     bind_outcome (f x) (\<lambda>y. bind_outcome (mapM_outcome f xs) (\<lambda>ys. Ret (y # ys)))"

lemma unwrap_simps [simp]: "unwrap (Some v) = Ret v" "unwrap None = Panic"
  by (simp_all add: unwrap_def)

lemma bind_outcome_Ret_iff:
  "bind_outcome m f = Ret y \<longleftrightarrow> (\<exists>x. m = Ret x \<and> f x = Ret y)"
  by (cases m) auto

lemma bind_outcome_Panic_iff:
  "bind_outcome m f = Panic \<longleftrightarrow> m = Panic \<or> (\<exists>x. m = Ret x \<and> f x = Panic)"
  by (cases m) auto

lemma mapM_outcome_all_Ret:
  "(\<And>x. x \<in> set xs \<Longrightarrow> f x = Ret (g x)) \<Longrightarrow> mapM_outcome f xs = Ret (map g xs)"
  by (induction xs) auto

lemma mapM_outcome_Panic:
  "mapM_outcome f xs = Panic \<longleftrightarrow> (\<exists>x \<in> set xs. f x = Panic)"
proof (induction xs)
  case (Cons x xs)
  then show ?case
    by (cases "f x"; cases "mapM_outcome f xs") auto
qed simp

section \<open>Unsigned arithmetic\<close>

text \<open>\<^verbatim>\<open>u64::saturating_sub\<close>.\<close>

definition saturating_sub :: "'l::len word \<Rightarrow> 'l word \<Rightarrow> 'l word" where
  "saturating_sub a b = (if a < b then 0 else a - b)"

lemma unat_saturating_sub [rust_std]: "unat (saturating_sub a b) = unat a - unat b"
  by (auto simp: saturating_sub_def word_less_nat_alt unat_sub word_le_nat_alt not_less)

section \<open>Lists\<close>

lemma map_filter_update_same:
  "(\<And>x. P x \<Longrightarrow> k (f x) = k x) \<Longrightarrow> map k (map (\<lambda>x. if P x then f x else x) xs) = map k xs"
  by (induction xs) auto

lemma distinct_map_filtered [intro]: "distinct (map f xs) \<Longrightarrow> distinct (map f (filter P xs))"
  by (induction xs) auto

lemma find_Some_in: "find P xs = Some x \<Longrightarrow> x \<in> set xs \<and> P x"
  by (induction xs) (auto split: if_splits)

lemma find_key_unique:
  "distinct (map k xs) \<Longrightarrow> x \<in> set xs \<Longrightarrow> find (\<lambda>y. k y = k x) xs = Some x"
  by (induction xs) (auto simp: rev_image_eqI)

lemma find_None_iff_key: "find (\<lambda>y. k y = u) xs = None \<longleftrightarrow> u \<notin> k ` set xs"
  by (induction xs) auto

section \<open>Runs\<close>

text \<open>A task or a store over a sequence of turns.\<close>

primrec turns :: "('e \<Rightarrow> 's \<Rightarrow> 's) \<Rightarrow> 'e list \<Rightarrow> 's \<Rightarrow> 's" where
  "turns turn [] s = s"
| "turns turn (e # es) s = turns turn es (turn e s)"

section \<open>Interface: a codec\<close>

text \<open>
  An encoder and a decoder that share a wire format. The law is the round trip on valid values;
  clients get that the encoder loses nothing.
\<close>

locale codec =
  fixes enc :: "'a \<Rightarrow> 'b"
    and dec :: "'b \<Rightarrow> 'a option"
    and valid :: "'a \<Rightarrow> bool"
  assumes dec_enc: "valid x \<Longrightarrow> dec (enc x) = Some x"
begin

lemma enc_inj: "valid x \<Longrightarrow> valid y \<Longrightarrow> enc x = enc y \<Longrightarrow> x = y"
  by (metis dec_enc option.inject)

lemma enc_inj_on: "inj_on enc {x. valid x}"
  by (auto intro!: inj_onI dest: enc_inj)

end

section \<open>Interface: a log with a cap\<close>

text \<open>
  A sequence that grows at the back and drops its oldest entries above a cap. The law names what a
  push returns; clients get the bound, that the newest entry is present, and that a run of pushes
  keeps exactly the most recent entries.
\<close>

definition last_n :: "nat \<Rightarrow> 'a list \<Rightarrow> 'a list" where
  "last_n n xs = drop (length xs - n) xs"

lemma length_last_n [simp]: "length (last_n n xs) = min n (length xs)"
  by (simp add: last_n_def)

lemma last_n_short: "length xs \<le> n \<Longrightarrow> last_n n xs = xs"
  by (simp add: last_n_def)

lemma last_n_snoc: "last_n n (last_n n xs @ [x]) = last_n n (xs @ [x])"
proof (cases "length xs \<le> n")
  case True
  then show ?thesis by (simp add: last_n_def)
next
  case False
  then have "Suc (length xs) - n = Suc (length xs - n)" by simp
  with False show ?thesis by (simp add: last_n_def)
qed

lemma set_last_n: "set (last_n n xs) \<subseteq> set xs"
  by (simp add: last_n_def set_drop_subset)

lemma distinct_last_n: "distinct xs \<Longrightarrow> distinct (last_n n xs)"
  by (simp add: last_n_def)

locale capped_log =
  fixes push :: "'a list \<Rightarrow> 'a \<Rightarrow> 'a list"
    and cap :: nat
  assumes push_law: "length xs \<le> cap \<Longrightarrow> push xs x = last_n cap (xs @ [x])"
    and cap_pos: "0 < cap"
begin

lemma push_bound: "length xs \<le> cap \<Longrightarrow> length (push xs x) \<le> cap"
  by (simp add: push_law)

lemma push_keeps_newest: "length xs \<le> cap \<Longrightarrow> push xs x \<noteq> [] \<and> last (push xs x) = x"
  using cap_pos by (auto simp: push_law last_n_def)

lemma foldl_push: "length xs \<le> cap \<Longrightarrow> foldl push xs ys = last_n cap (xs @ ys)"
proof (induction ys arbitrary: xs rule: rev_induct)
  case Nil
  then show ?case by (simp add: last_n_short)
next
  case (snoc y ys)
  then have "foldl push xs ys = last_n cap (xs @ ys)" by simp
  then show ?case by (simp add: push_law last_n_snoc)
qed

end

end
