(* ===== verification/Rust_Strings.thy ===== *)
theory Rust_Strings
  imports Podping_Prelude
begin

text \<open>
  The part of \<^verbatim>\<open>str\<close> and \<^verbatim>\<open>String\<close> of the Rust standard library that the programs use. A Rust
  string is its UTF-8 encoding, so a value of type \<open>string\<close> here holds one \<open>char\<close> per byte and
  \<open>length\<close> is \<^verbatim>\<open>str::len\<close>. Slicing at a byte offset fails unless the offset is a character
  boundary; \<^verbatim>\<open>trim\<close> strips every character with the Unicode property White\_Space.
\<close>

section \<open>UTF-8\<close>

definition byte :: "char \<Rightarrow> nat" where
  "byte c = of_char c"

definition utf8_cont :: "char \<Rightarrow> bool" where
  "utf8_cont c \<longleftrightarrow> 128 \<le> byte c \<and> byte c < 192"

text \<open>The number of bytes of the character that starts with this byte.\<close>

definition utf8_width :: "char \<Rightarrow> nat" where
  "utf8_width c =
     (if byte c < 192 then 1 else if byte c < 224 then 2 else if byte c < 240 then 3 else 4)"

lemma utf8_width_pos [simp]: "0 < utf8_width c"
  by (simp add: utf8_width_def)

text \<open>The characters of a string, each as its bytes (\<^verbatim>\<open>str::chars\<close>).\<close>

function chars :: "string \<Rightarrow> string list" where
  "chars [] = []"
| "chars (c # cs) = take (utf8_width c) (c # cs) # chars (drop (utf8_width c) (c # cs))"
  by pat_completeness auto
termination
  by (relation "measure length") auto

lemma concat_chars [simp]: "concat (chars s) = s"
  by (induction s rule: chars.induct) (auto simp del: take_Cons drop_Cons)

definition is_char_boundary :: "string \<Rightarrow> nat \<Rightarrow> bool" where
  "is_char_boundary s i \<longleftrightarrow>
     i = 0 \<or> i = length s \<or> (i < length s \<and> \<not> utf8_cont (s ! i))"

text \<open>\<^verbatim>\<open>&s[..n]\<close>: a panic when the offset is out of range or inside a character.\<close>

definition slice_to :: "string \<Rightarrow> nat \<Rightarrow> string outcome" where
  "slice_to s n = (if n \<le> length s \<and> is_char_boundary s n then Ret (take n s) else Panic)"

definition ascii_str :: "string \<Rightarrow> bool" where
  "ascii_str s = list_all (\<lambda>c. byte c < 128) s"

lemma ascii_char_boundary: "ascii_str s \<Longrightarrow> i \<le> length s \<Longrightarrow> is_char_boundary s i"
  by (auto simp: ascii_str_def is_char_boundary_def utf8_cont_def list_all_length dest!: spec [of _ i])

lemma slice_to_ascii:
  "ascii_str s \<Longrightarrow> slice_to s n = (if n \<le> length s then Ret (take n s) else Panic)"
  by (simp add: slice_to_def ascii_char_boundary)

section \<open>ASCII case\<close>

definition to_ascii_lower :: "char \<Rightarrow> char" where
  "to_ascii_lower c = (if 65 \<le> byte c \<and> byte c \<le> 90 then char_of (byte c + 32) else c)"

text \<open>
  \<^verbatim>\<open>str::to_lowercase\<close> on the ASCII letters. No character outside ASCII has a lower case that
  starts with a letter of \<^verbatim>\<open>http\<close>, \<^verbatim>\<open>true\<close> or \<^verbatim>\<open>yes\<close>, so it does not matter to the uses, which
  compare with these words.
\<close>

definition to_lowercase :: "string \<Rightarrow> string" where
  "to_lowercase s = map to_ascii_lower s"

definition eq_ignore_ascii_case :: "string \<Rightarrow> string \<Rightarrow> bool" where
  "eq_ignore_ascii_case a b \<longleftrightarrow> map to_ascii_lower a = map to_ascii_lower b"

lemma eq_ignore_ascii_case_refl [simp]: "eq_ignore_ascii_case a a"
  by (simp add: eq_ignore_ascii_case_def)

section \<open>Searching\<close>

fun starts_with :: "string \<Rightarrow> string \<Rightarrow> bool" where
  "starts_with s [] = True"
| "starts_with [] (p # ps) = False"
| "starts_with (c # cs) (p # ps) = (c = p \<and> starts_with cs ps)"

lemma starts_with_iff: "starts_with s p \<longleftrightarrow> (\<exists>r. s = p @ r)"
  by (induction s p rule: starts_with.induct) auto

text \<open>\<^verbatim>\<open>str::find\<close>: the byte offset of the first occurrence.\<close>

fun find_sub :: "string \<Rightarrow> string \<Rightarrow> nat option" where
  "find_sub [] p = (if p = [] then Some 0 else None)"
| "find_sub (c # cs) p =
     (if starts_with (c # cs) p then Some 0 else map_option Suc (find_sub cs p))"

lemma find_sub_zero: "find_sub s p = Some 0 \<longleftrightarrow> starts_with s p"
  by (cases s; cases p) auto

section \<open>Whitespace\<close>

text \<open>The number of bytes of a White\_Space character at the front of a string, 0 for none.\<close>

definition ascii_ws :: "char \<Rightarrow> bool" where
  "ascii_ws c \<longleftrightarrow> byte c = 32 \<or> (9 \<le> byte c \<and> byte c \<le> 13)"

fun ws3 :: "nat \<Rightarrow> nat \<Rightarrow> nat \<Rightarrow> bool" where
  "ws3 a b c \<longleftrightarrow>
     (a = 225 \<and> b = 154 \<and> c = 128) \<or>
     (a = 226 \<and> b = 128 \<and> (128 \<le> c \<and> c \<le> 138 \<or> c = 168 \<or> c = 169 \<or> c = 175)) \<or>
     (a = 226 \<and> b = 129 \<and> c = 159) \<or> (a = 227 \<and> b = 128 \<and> c = 128)"

definition ws2 :: "nat \<Rightarrow> nat \<Rightarrow> bool" where
  "ws2 a b \<longleftrightarrow> a = 194 \<and> (b = 133 \<or> b = 160)"

fun ws_lead :: "string \<Rightarrow> nat" where
  "ws_lead [] = 0"
| "ws_lead [a] = (if ascii_ws a then 1 else 0)"
| "ws_lead [a, b] = (if ascii_ws a then 1 else if ws2 (byte a) (byte b) then 2 else 0)"
| "ws_lead (a # b # c # cs) =
     (if ascii_ws a then 1 else if ws2 (byte a) (byte b) then 2
      else if ws3 (byte a) (byte b) (byte c) then 3 else 0)"

text \<open>The same at the back, on the reversed string.\<close>

fun ws_trail :: "string \<Rightarrow> nat" where
  "ws_trail [] = 0"
| "ws_trail [a] = (if ascii_ws a then 1 else 0)"
| "ws_trail [a, b] = (if ascii_ws a then 1 else if ws2 (byte b) (byte a) then 2 else 0)"
| "ws_trail (a # b # c # cs) =
     (if ascii_ws a then 1 else if ws2 (byte b) (byte a) then 2
      else if ws3 (byte c) (byte b) (byte a) then 3 else 0)"

lemma ws_lead_Nil: "0 < ws_lead s \<Longrightarrow> s \<noteq> []"
  by auto

lemma ws_trail_Nil: "0 < ws_trail s \<Longrightarrow> s \<noteq> []"
  by auto

function strip_front :: "(string \<Rightarrow> nat) \<Rightarrow> string \<Rightarrow> string" where
  "strip_front w s = (if s \<noteq> [] \<and> 0 < w s then strip_front w (drop (w s) s) else s)"
  by pat_completeness auto
termination
  by (relation "measure (\<lambda>(w, s). length s)") auto

declare strip_front.simps [simp del]

lemma strip_front_suffix: "\<exists>p. s = p @ strip_front w s"
proof (induction w s rule: strip_front.induct)
  case (1 w s)
  show ?case
  proof (cases "s \<noteq> [] \<and> 0 < w s")
    case True
    with 1 obtain p where "drop (w s) s = p @ strip_front w (drop (w s) s)" by blast
    then have "s = (take (w s) s @ p) @ strip_front w (drop (w s) s)"
      by (metis append.assoc append_take_drop_id)
    moreover from True have "strip_front w s = strip_front w (drop (w s) s)"
      by (simp add: strip_front.simps [of w s])
    ultimately show ?thesis by metis
  next
    case False
    then show ?thesis by (subst strip_front.simps) auto
  qed
qed

lemma strip_front_done: "strip_front w s = [] \<or> w (strip_front w s) = 0"
proof (induction w s rule: strip_front.induct)
  case (1 w s)
  show ?case
  proof (cases "s \<noteq> [] \<and> 0 < w s")
    case True
    then have "strip_front w s = strip_front w (drop (w s) s)"
      by (simp add: strip_front.simps [of w s])
    with 1 True show ?thesis by simp
  next
    case False
    then show ?thesis by (auto simp: strip_front.simps [of w s])
  qed
qed

lemma strip_front_fixed: "w s = 0 \<Longrightarrow> strip_front w s = s"
  by (subst strip_front.simps) simp

definition trim_end :: "string \<Rightarrow> string" where
  "trim_end s = rev (strip_front ws_trail (rev s))"

definition trim :: "string \<Rightarrow> string" where
  "trim s = trim_end (strip_front ws_lead s)"

lemma trim_fixed: "ws_lead s = 0 \<Longrightarrow> ws_trail (rev s) = 0 \<Longrightarrow> trim s = s"
  by (simp add: trim_def trim_end_def strip_front_fixed)

section \<open>Lines and splitting\<close>

text \<open>\<^verbatim>\<open>str::split\<close> on a one-byte separator.\<close>

fun split_on :: "char \<Rightarrow> string \<Rightarrow> string list" where
  "split_on d [] = [[]]"
| "split_on d (c # cs) =
     (if c = d then [] # split_on d cs
      else (case split_on d cs of [] \<Rightarrow> [[c]] | w # ws \<Rightarrow> (c # w) # ws))"

lemma split_on_not_Nil [simp]: "split_on d s \<noteq> []"
  by (induction s) (auto split: list.splits)

lemma split_on_no_sep: "d \<notin> set s \<Longrightarrow> split_on d s = [s]"
  by (induction s) auto

lemma split_on_append: "d \<notin> set s \<Longrightarrow> split_on d (s @ d # t) = s # split_on d t"
  by (induction s) auto

text \<open>
  \<^verbatim>\<open>str::lines\<close>: the pieces ended by a line feed, each without a carriage return before it, and
  the rest after the last line feed when it is not empty.
\<close>

definition strip_cr :: "string \<Rightarrow> string" where
  "strip_cr l = (if l \<noteq> [] \<and> last l = CHR 0x0D then butlast l else l)"

definition lines :: "string \<Rightarrow> string list" where
  "lines s = (let ps = split_on (CHR 0x0A) s
              in map strip_cr (butlast ps) @ (if last ps = [] then [] else [last ps]))"

text \<open>What a loop of \<^verbatim>\<open>writeln!\<close> leaves in a file, read back with \<^verbatim>\<open>lines\<close>.\<close>

definition writelns :: "string list \<Rightarrow> string" where
  "writelns ls = concat (map (\<lambda>l. l @ [CHR 0x0A]) ls)"

definition line_ok :: "string \<Rightarrow> bool" where
  "line_ok l \<longleftrightarrow> CHR 0x0A \<notin> set l \<and> strip_cr l = l"

lemma split_on_writelns:
  "(\<And>l. l \<in> set ls \<Longrightarrow> CHR 0x0A \<notin> set l) \<Longrightarrow> split_on (CHR 0x0A) (writelns ls) = ls @ [[]]"
proof (induction ls)
  case (Cons l ls)
  then have "split_on (CHR 0x0A) (l @ CHR 0x0A # writelns ls) = l # (ls @ [[]])"
    by (simp add: split_on_append)
  then show ?case by (simp add: writelns_def)
qed (simp add: writelns_def)

lemma lines_writelns: "list_all line_ok ls \<Longrightarrow> lines (writelns ls) = ls"
  by (auto simp: lines_def split_on_writelns line_ok_def list_all_iff map_idI)

section \<open>Parsing unsigned integers\<close>

text \<open>
  \<^verbatim>\<open>str::parse::<u64>\<close>: an optional plus sign, then one or more decimal digits, in range.
\<close>

definition is_digit :: "char \<Rightarrow> bool" where
  "is_digit c \<longleftrightarrow> 48 \<le> byte c \<and> byte c \<le> 57"

definition digits_val :: "string \<Rightarrow> nat" where
  "digits_val s = foldl (\<lambda>n c. 10 * n + (byte c - 48)) 0 s"

definition parse_u64 :: "string \<Rightarrow> nat option" where
  "parse_u64 s =
     (let d = (case s of c # cs \<Rightarrow> if c = CHR ''+'' then cs else s | [] \<Rightarrow> [])
      in if d \<noteq> [] \<and> list_all is_digit d \<and> digits_val d < 2 ^ 64 then Some (digits_val d) else None)"

text \<open>\<^verbatim>\<open>Display\<close> of an unsigned integer.\<close>

function dec :: "nat \<Rightarrow> string" where
  "dec n = (if n < 10 then [char_of (48 + n)] else dec (n div 10) @ [char_of (48 + n mod 10)])"
  by pat_completeness auto
termination
  by (relation "measure id") auto

declare dec.simps [simp del]

lemma byte_digit: "d < 10 \<Longrightarrow> byte (char_of (48 + d)) = 48 + d"
  by (simp add: byte_def of_char_of)

lemma dec_digits: "list_all is_digit (dec n)"
proof (induction n rule: dec.induct)
  case (1 n)
  then show ?case
    by (cases "n < 10") (simp_all add: dec.simps [of n] is_digit_def byte_digit)
qed

lemma digits_val_snoc: "digits_val (s @ [c]) = 10 * digits_val s + (byte c - 48)"
  by (simp add: digits_val_def)

lemma digits_val_dec: "digits_val (dec n) = n"
proof (induction n rule: dec.induct)
  case (1 n)
  show ?case
  proof (cases "n < 10")
    case True
    then have "dec n = [] @ [char_of (48 + n)]" by (simp add: dec.simps [of n])
    then show ?thesis using True by (simp only: digits_val_snoc) (simp add: byte_digit digits_val_def)
  next
    case False
    then have "dec n = dec (n div 10) @ [char_of (48 + n mod 10)]" by (simp add: dec.simps [of n])
    then show ?thesis using 1 False by (simp add: digits_val_snoc byte_digit)
  qed
qed

lemma dec_nonempty [simp]: "dec n \<noteq> []"
  by (simp add: dec.simps [of n])

lemma digit_not_plus: "list_all is_digit s \<Longrightarrow> s \<noteq> CHR ''+'' # cs"
  by (auto simp: is_digit_def byte_def)

lemma parse_u64_dec: "n < 2 ^ 64 \<Longrightarrow> parse_u64 (dec n) = Some n"
proof -
  assume n: "n < 2 ^ 64"
  have "(case dec n of [] \<Rightarrow> [] | c # cs \<Rightarrow> if c = CHR ''+'' then cs else dec n) = dec n"
    using digit_not_plus [OF dec_digits [of n]] by (auto split: list.split)
  then show ?thesis using n dec_digits [of n] by (simp add: parse_u64_def digits_val_dec Let_def)
qed

section \<open>UTF-8 validation\<close>

text \<open>\<^verbatim>\<open>str::from_utf8\<close> succeeds: no overlong form, no surrogate, nothing above U+10FFFF.\<close>

definition utf8_second :: "nat \<Rightarrow> nat \<Rightarrow> bool" where
  "utf8_second x y \<longleftrightarrow>
     (if x = 224 then 160 \<le> y \<and> y < 192 else if x = 237 then 128 \<le> y \<and> y < 160
      else if x = 240 then 144 \<le> y \<and> y < 192 else if x = 244 then 128 \<le> y \<and> y < 144
      else 128 \<le> y \<and> y < 192)"

function utf8_valid :: "string \<Rightarrow> bool" where
  "utf8_valid [] = True"
| "utf8_valid (a # s) =
     (let x = byte a; n = utf8_width a - 1
      in if x < 128 then utf8_valid s
         else if x < 194 \<or> 244 < x then False
         else n \<le> length s \<and> utf8_second x (byte (s ! 0)) \<and> list_all utf8_cont (take n s)
              \<and> utf8_valid (drop n s))"
  by pat_completeness auto
termination
  by (relation "measure length") auto

end
