(* ===== verification/Dbif.thy ===== *)
theory Dbif
  imports Rust_Strings
begin

text \<open>
  The database layer of the front-end (\<^verbatim>\<open>podping/dbif/src/lib.rs\<close>): the \<^verbatim>\<open>publishers\<close> table of
  \<^verbatim>\<open>auth.db\<close> and the \<^verbatim>\<open>queue\<close> table of \<^verbatim>\<open>queue.db\<close>, every SQL statement of the file as a function on
  tables, and the operations that run them. A table is the list of its rows in rowid order: an
  insert takes the next rowid and so appends, an update keeps the place of the row. Opening a file,
  preparing or executing a statement and stepping through rows can fail for reasons outside the
  program; each operation takes an environment that says whether they do and what
  \<^verbatim>\<open>STRFTIME('%s')\<close> returns.
\<close>

section \<open>Data\<close>

datatype reason = Update | Live | LiveEnd

datatype medium =
    Podcast | PodcastL | Music | MusicL | Video | VideoL | Film | FilmL | Audiobook | AudiobookL
  | Newsletter | NewsletterL | Blog | BlogL | Publisher | PublisherL | Course | CourseL

text \<open>The \<^verbatim>\<open>strum\<close> derives: \<^verbatim>\<open>Display\<close> prints the variant, \<^verbatim>\<open>EnumString\<close> ignores ASCII case.\<close>

fun reason_to_string :: "reason \<Rightarrow> string" where
  "reason_to_string Update = ''Update''"
| "reason_to_string Live = ''Live''"
| "reason_to_string LiveEnd = ''LiveEnd''"

fun medium_to_string :: "medium \<Rightarrow> string" where
  "medium_to_string Podcast = ''Podcast''"
| "medium_to_string PodcastL = ''PodcastL''"
| "medium_to_string Music = ''Music''"
| "medium_to_string MusicL = ''MusicL''"
| "medium_to_string Video = ''Video''"
| "medium_to_string VideoL = ''VideoL''"
| "medium_to_string Film = ''Film''"
| "medium_to_string FilmL = ''FilmL''"
| "medium_to_string Audiobook = ''Audiobook''"
| "medium_to_string AudiobookL = ''AudiobookL''"
| "medium_to_string Newsletter = ''Newsletter''"
| "medium_to_string NewsletterL = ''NewsletterL''"
| "medium_to_string Blog = ''Blog''"
| "medium_to_string BlogL = ''BlogL''"
| "medium_to_string Publisher = ''Publisher''"
| "medium_to_string PublisherL = ''PublisherL''"
| "medium_to_string Course = ''Course''"
| "medium_to_string CourseL = ''CourseL''"

definition all_reasons :: "reason list" where
  "all_reasons = [Update, Live, LiveEnd]"

definition all_media :: "medium list" where
  "all_media = [Podcast, PodcastL, Music, MusicL, Video, VideoL, Film, FilmL, Audiobook, AudiobookL,
     Newsletter, NewsletterL, Blog, BlogL, Publisher, PublisherL, Course, CourseL]"

definition reason_from_str :: "string \<Rightarrow> reason option" where
  "reason_from_str s = find (\<lambda>r. eq_ignore_ascii_case s (reason_to_string r)) all_reasons"

definition medium_from_str :: "string \<Rightarrow> medium option" where
  "medium_from_str s = find (\<lambda>m. eq_ignore_ascii_case s (medium_to_string m)) all_media"

record ping =
  ping_url :: string
  ping_time :: u64
  ping_reason :: reason
  ping_medium :: medium

text \<open>A row of \<^verbatim>\<open>queue\<close> and a row of \<^verbatim>\<open>publishers\<close> (a text column may hold NULL).\<close>

record qrow =
  q_url :: string
  q_createdon :: int
  q_reason :: string
  q_medium :: string
  q_inflight :: int

record pub_row =
  pub_name :: "string option"
  pub_authval :: "string option"

type_synonym queue = "qrow list"

text \<open>The two database files; \<open>None\<close> while the table has not been created.\<close>

record dbs =
  publishers_tbl :: "pub_row list option"
  queue_tbl :: "queue option"

text \<open>What the environment decides for one connection.\<close>

record db_env =
  can_open :: bool
  stmt_ok :: bool
  step_ok :: bool
  db_now :: int

datatype db_error = HydraError string | SqlError

definition PING_BATCH_SIZE :: nat where
  "PING_BATCH_SIZE = 1000"

definition SQLITE_FILE_AUTH :: string where
  "SQLITE_FILE_AUTH = ''/data/auth.db''"

definition SQLITE_FILE_QUEUE :: string where
  "SQLITE_FILE_QUEUE = ''/data/queue.db''"

section \<open>Statements\<close>

text \<open>A \<^verbatim>\<open>u64\<close> parameter binds only when it fits a signed 64-bit column.\<close>

definition u64_to_sql :: "u64 \<Rightarrow> int option" where
  "u64_to_sql t = (if uint t < 2 ^ 63 then Some (uint t) else None)"

definition u64_from_sql :: "int \<Rightarrow> u64 outcome" where
  "u64_from_sql i = (if 0 \<le> i then Ret (word_of_int i) else Panic)"

text \<open>\<^verbatim>\<open>INSERT INTO queue\<close>: \<open>None\<close> when the primary key is taken or a parameter does not bind.\<close>

definition sql_insert_ping :: "ping \<Rightarrow> queue \<Rightarrow> queue option" where
  "sql_insert_ping p q =
     (case u64_to_sql (ping_time p) of
        None \<Rightarrow> None
      | Some t \<Rightarrow>
          if ping_url p \<in> q_url ` set q then None
          else Some (q @ [\<lparr>q_url = ping_url p, q_createdon = t,
                 q_reason = reason_to_string (ping_reason p),
                 q_medium = medium_to_string (ping_medium p), q_inflight = 0\<rparr>]))"

definition sql_update_ping :: "ping \<Rightarrow> queue \<Rightarrow> queue option" where
  "sql_update_ping p q =
     (case u64_to_sql (ping_time p) of
        None \<Rightarrow> None
      | Some t \<Rightarrow>
          Some (map (\<lambda>r. if q_url r = ping_url p
                         then r\<lparr>q_inflight := 0, q_createdon := t,
                                q_reason := reason_to_string (ping_reason p),
                                q_medium := medium_to_string (ping_medium p)\<rparr>
                         else r) q))"

definition sql_set_inflight :: "string \<Rightarrow> queue \<Rightarrow> queue option" where
  "sql_set_inflight u q = Some (map (\<lambda>r. if q_url r = u then r\<lparr>q_inflight := 1\<rparr> else r) q)"

text \<open>
  \<^verbatim>\<open>UPDATE ... WHERE inflight = 1 AND createdon < now - 180 LIMIT 25\<close>. With no \<^verbatim>\<open>ORDER BY\<close> the
  engine chooses which rows fall under the limit: \<open>chosen\<close> is that choice, by url.
\<close>

definition reset_eligible :: "int \<Rightarrow> qrow \<Rightarrow> bool" where
  "reset_eligible now r \<longleftrightarrow> q_inflight r = 1 \<and> q_createdon r < now - 180"

definition limit_choice :: "int \<Rightarrow> queue \<Rightarrow> string set \<Rightarrow> bool" where
  "limit_choice now q chosen \<longleftrightarrow>
     (let el = {u. \<exists>r \<in> set q. reset_eligible now r \<and> q_url r = u}
      in chosen \<subseteq> el \<and> card chosen = min 25 (card el))"

definition sql_reset_inflight :: "int \<Rightarrow> string set \<Rightarrow> queue \<Rightarrow> queue option" where
  "sql_reset_inflight now chosen q =
     Some (map (\<lambda>r. if reset_eligible now r \<and> q_url r \<in> chosen
                    then r\<lparr>q_inflight := 0, q_createdon := now\<rparr> else r) q)"

definition sql_delete_ping :: "string \<Rightarrow> queue \<Rightarrow> queue option" where
  "sql_delete_ping u q = Some (filter (\<lambda>r. q_url r \<noteq> u) q)"

text \<open>\<^verbatim>\<open>SELECT ... ORDER BY reason ASC, rowid ASC LIMIT 1000\<close>.\<close>

definition sql_select_pings :: "bool \<Rightarrow> int \<Rightarrow> queue \<Rightarrow> qrow list" where
  "sql_select_pings with_in_flight now q =
     take PING_BATCH_SIZE (sort_key q_reason
       (filter (\<lambda>r. (if with_in_flight then q_inflight r \<ge> 0 else q_inflight r = 0)
                    \<and> q_createdon r < now - 15) q))"

text \<open>
  \<^verbatim>\<open>text LIKE pattern\<close>: a percent sign matches any run of characters, an underscore one
  character, anything else itself up to ASCII case.
\<close>

definition utf8_rest :: "string \<Rightarrow> string" where
  "utf8_rest s = drop (utf8_width (hd s)) s"

function sql_like :: "string \<Rightarrow> string \<Rightarrow> bool" where
  "sql_like [] ts = (ts = [])"
| "sql_like (p # ps) ts =
     (if p = CHR ''%'' then sql_like ps ts \<or> (if ts = [] then False else sql_like (p # ps) (utf8_rest ts))
      else if ts = [] then False
      else if p = CHR ''_'' then sql_like ps (utf8_rest ts)
      else to_ascii_lower p = to_ascii_lower (hd ts) \<and> sql_like ps (tl ts))"
  by pat_completeness auto
termination
  by (relation "measure (\<lambda>(ps, ts). length ps + length ts)") (auto simp: utf8_rest_def)

declare sql_like.simps(2) [simp del]

definition authval_matches :: "string \<Rightarrow> pub_row \<Rightarrow> bool" where
  "authval_matches pat r = (case pub_authval r of None \<Rightarrow> False | Some a \<Rightarrow> sql_like pat a)"

section \<open>Operations\<close>

definition connect_to_database :: "db_env \<Rightarrow> string \<Rightarrow> db_error + unit" where
  "connect_to_database e filepath =
     (if can_open e then Ok ()
      else Err (HydraError (''Could not open a database file at: ['' @ filepath @ ''].'')))"

text \<open>One \<^verbatim>\<open>execute\<close> on the queue: the new state and whether the statement succeeded.\<close>

definition execute_queue :: "db_env \<Rightarrow> (queue \<Rightarrow> queue option) \<Rightarrow> dbs \<Rightarrow> dbs \<times> bool" where
  "execute_queue e stmt d =
     (case queue_tbl d of
        None \<Rightarrow> (d, False)
      | Some q \<Rightarrow>
          if \<not> stmt_ok e then (d, False)
          else (case stmt q of None \<Rightarrow> (d, False) | Some q' \<Rightarrow> (d\<lparr>queue_tbl := Some q'\<rparr>, True)))"

definition create_databases :: "db_env \<Rightarrow> db_env \<Rightarrow> dbs \<Rightarrow> dbs \<times> (db_error + bool)" where
  "create_databases ea eq d =
     (case connect_to_database ea SQLITE_FILE_AUTH of
        Inl err \<Rightarrow> (d, Err err)
      | Inr _ \<Rightarrow>
          if \<not> stmt_ok ea
          then (d, Err (HydraError (''Failed to create database publishers table: ['' @ SQLITE_FILE_AUTH @ ''].'')))
          else
            let d1 = (case publishers_tbl d of None \<Rightarrow> d\<lparr>publishers_tbl := Some []\<rparr> | Some _ \<Rightarrow> d)
            in (case connect_to_database eq SQLITE_FILE_QUEUE of
                  Inl err \<Rightarrow> (d1, Err err)
                | Inr _ \<Rightarrow>
                    if \<not> stmt_ok eq
                    then (d1, Err (HydraError (''Failed to create database queue table: ['' @ SQLITE_FILE_QUEUE @ ''].'')))
                    else (case queue_tbl d1 of
                            None \<Rightarrow> (d1\<lparr>queue_tbl := Some []\<rparr>, Ok True)
                          | Some _ \<Rightarrow> (d1, Ok True))))"

text \<open>A row without a name fails the conversion to \<^verbatim>\<open>String\<close>, and the \<^verbatim>\<open>unwrap\<close> panics.\<close>

definition get_publishers :: "db_env \<Rightarrow> dbs \<Rightarrow> (db_error + string list) outcome" where
  "get_publishers e d =
     (case connect_to_database e SQLITE_FILE_AUTH of
        Inl err \<Rightarrow> Ret (Err err)
      | Inr _ \<Rightarrow>
          (case publishers_tbl d of
             None \<Rightarrow> Ret (Err SqlError)
           | Some rows \<Rightarrow>
               if \<not> stmt_ok e then Ret (Err SqlError)
               else if \<not> step_ok e then Panic
               else bind_outcome (mapM_outcome (\<lambda>r. unwrap (pub_name r)) rows) (\<lambda>ns. Ret (Ok ns))))"

definition ping_of_row :: "qrow \<Rightarrow> ping outcome" where
  "ping_of_row r =
     bind_outcome (u64_from_sql (q_createdon r)) (\<lambda>t.
     bind_outcome (unwrap (reason_from_str (q_reason r))) (\<lambda>rs.
     bind_outcome (unwrap (medium_from_str (q_medium r))) (\<lambda>m.
     Ret \<lparr>ping_url = q_url r, ping_time = t, ping_reason = rs, ping_medium = m\<rparr>)))"

definition get_pings_from_queue :: "db_env \<Rightarrow> bool \<Rightarrow> dbs \<Rightarrow> (db_error + ping list) outcome" where
  "get_pings_from_queue e with_in_flight d =
     (case connect_to_database e SQLITE_FILE_QUEUE of
        Inl err \<Rightarrow> Ret (Err err)
      | Inr _ \<Rightarrow>
          (case queue_tbl d of
             None \<Rightarrow> Ret (Err SqlError)
           | Some q \<Rightarrow>
               if \<not> stmt_ok e then Ret (Err SqlError)
               else if \<not> step_ok e then Panic
               else bind_outcome (mapM_outcome ping_of_row (sql_select_pings with_in_flight (db_now e) q))
                      (\<lambda>ps. Ret (Ok ps))))"

definition update_ping_in_queue :: "db_env \<Rightarrow> ping \<Rightarrow> dbs \<Rightarrow> dbs \<times> (db_error + bool)" where
  "update_ping_in_queue e p d =
     (case connect_to_database e SQLITE_FILE_QUEUE of
        Inl err \<Rightarrow> (d, Err err)
      | Inr _ \<Rightarrow>
          (case execute_queue e (sql_update_ping p) d of
             (d', True) \<Rightarrow> (d', Ok True)
           | (d', False) \<Rightarrow> (d', Err (HydraError ''Updating ping with new info failed''))))"

text \<open>
  Any failure of the insert is taken for a duplicate: a live ping then overwrites the row, on a
  second connection (environment \<open>e2\<close>), and an update ping reports the duplicate.
\<close>

definition add_ping_to_queue :: "db_env \<Rightarrow> db_env \<Rightarrow> ping \<Rightarrow> dbs \<Rightarrow> dbs \<times> (db_error + bool)" where
  "add_ping_to_queue e e2 p d =
     (case connect_to_database e SQLITE_FILE_QUEUE of
        Inl err \<Rightarrow> (d, Err err)
      | Inr _ \<Rightarrow>
          (case execute_queue e (sql_insert_ping p) d of
             (d', True) \<Rightarrow> (d', Ok True)
           | (d', False) \<Rightarrow>
               (case ping_reason p of
                  Live \<Rightarrow> update_ping_in_queue e2 p d'
                | LiveEnd \<Rightarrow> update_ping_in_queue e2 p d'
                | Update \<Rightarrow> (d', Err (HydraError (''URL already in queue: ['' @ ping_url p @ ''].''))))))"

definition set_ping_as_inflight :: "db_env \<Rightarrow> ping \<Rightarrow> dbs \<Rightarrow> dbs \<times> (db_error + bool)" where
  "set_ping_as_inflight e p d =
     (case connect_to_database e SQLITE_FILE_QUEUE of
        Inl err \<Rightarrow> (d, Err err)
      | Inr _ \<Rightarrow>
          (case execute_queue e (sql_set_inflight (ping_url p)) d of
             (d', True) \<Rightarrow> (d', Ok True)
           | (d', False) \<Rightarrow> (d', Err (HydraError ''Marking ping as inflight failed''))))"

definition reset_pings_in_flight :: "db_env \<Rightarrow> string set \<Rightarrow> dbs \<Rightarrow> dbs \<times> (db_error + bool)" where
  "reset_pings_in_flight e chosen d =
     (case connect_to_database e SQLITE_FILE_QUEUE of
        Inl err \<Rightarrow> (d, Err err)
      | Inr _ \<Rightarrow>
          (case execute_queue e (sql_reset_inflight (db_now e) chosen) d of
             (d', True) \<Rightarrow> (d', Ok True)
           | (d', False) \<Rightarrow> (d', Err (HydraError ''Filed to reset old, inflight pings''))))"

definition delete_ping_from_queue :: "db_env \<Rightarrow> string \<Rightarrow> dbs \<Rightarrow> dbs \<times> (db_error + bool)" where
  "delete_ping_from_queue e u d =
     (case connect_to_database e SQLITE_FILE_QUEUE of
        Inl err \<Rightarrow> (d, Err err)
      | Inr _ \<Rightarrow>
          (case execute_queue e (sql_delete_ping u) d of
             (d', True) \<Rightarrow> (d', Ok True)
           | (d', False) \<Rightarrow> (d', Err SqlError)))"

text \<open>The first row of the scan that matches the pattern (\<^verbatim>\<open>LIMIT 1\<close>); its name is only logged.\<close>

definition lookup_auth :: "db_env \<Rightarrow> string \<Rightarrow> string \<Rightarrow> dbs \<Rightarrow> (db_error + string) outcome" where
  "lookup_auth e pat missing d =
     (case publishers_tbl d of
        None \<Rightarrow> Ret (Err SqlError)
      | Some rows \<Rightarrow>
          if \<not> stmt_ok e then Ret (Err SqlError)
          else if \<not> step_ok e then Panic
          else (case find (authval_matches pat) rows of
                  None \<Rightarrow> Ret (Err (HydraError missing))
                | Some r \<Rightarrow> bind_outcome (unwrap (pub_name r)) (\<lambda>n. Ret (Ok n))))"

definition check_auth :: "db_env \<Rightarrow> string \<Rightarrow> dbs \<Rightarrow> (db_error + string) outcome" where
  "check_auth e authstring d =
     (case connect_to_database e SQLITE_FILE_AUTH of
        Inl err \<Rightarrow> Ret (Err err)
      | Inr _ \<Rightarrow>
          lookup_auth e authstring (''No publisher match found for: ['' @ authstring @ ''].'') d)"

definition check_auth_hybrid :: "db_env \<Rightarrow> string \<Rightarrow> dbs \<Rightarrow> (db_error + string) outcome" where
  "check_auth_hybrid e authstring d =
     (case connect_to_database e SQLITE_FILE_AUTH of
        Inl err \<Rightarrow> Ret (Err err)
      | Inr _ \<Rightarrow>
          bind_outcome (slice_to authstring 22) (\<lambda>parm.
            lookup_auth e (parm @ ''%'')
              (''No hybrid publisher match found for: ['' @ parm @ ''].'') d))"

lemmas [db_ops] = connect_to_database_def execute_queue_def update_ping_in_queue_def
  add_ping_to_queue_def set_ping_as_inflight_def reset_pings_in_flight_def
  delete_ping_from_queue_def sql_insert_ping_def sql_update_ping_def sql_set_inflight_def
  sql_reset_inflight_def sql_delete_ping_def

section \<open>Enumerations\<close>

lemma set_all_reasons: "set all_reasons = UNIV"
  by (auto simp: all_reasons_def) (metis reason.exhaust)

lemma set_all_media: "set all_media = UNIV"
  by (auto simp: all_media_def) (metis medium.exhaust)

lemma find_eq_ignore_case:
  assumes "distinct (map (\<lambda>y. map to_ascii_lower (f y)) ys)" and "x \<in> set ys"
  shows "find (\<lambda>y. eq_ignore_ascii_case (f x) (f y)) ys = Some x"
  using find_key_unique [OF assms] by (simp add: eq_ignore_ascii_case_def eq_commute)

lemma reason_from_to_string [simp]: "reason_from_str (reason_to_string r) = Some r"
  unfolding reason_from_str_def
  by (rule find_eq_ignore_case)
    (simp_all add: set_all_reasons, simp add: all_reasons_def to_ascii_lower_def byte_def)

lemma medium_from_to_string [simp]: "medium_from_str (medium_to_string m) = Some m"
  unfolding medium_from_str_def
  by (rule find_eq_ignore_case)
    (simp_all add: set_all_media, simp add: all_media_def to_ascii_lower_def byte_def)

section \<open>Well-formed queues\<close>

definition row_wf :: "qrow \<Rightarrow> bool" where
  "row_wf r \<longleftrightarrow> q_reason r \<in> reason_to_string ` set all_reasons
     \<and> q_medium r \<in> medium_to_string ` set all_media
     \<and> 0 \<le> q_createdon r \<and> q_createdon r < 2 ^ 63 \<and> q_inflight r \<in> {0, 1}"

definition queue_wf :: "queue \<Rightarrow> bool" where
  "queue_wf q \<longleftrightarrow> distinct (map q_url q) \<and> (\<forall>r \<in> set q. row_wf r)"

definition dbs_wf :: "dbs \<Rightarrow> bool" where
  "dbs_wf d = (case queue_tbl d of None \<Rightarrow> True | Some q \<Rightarrow> queue_wf q)"

definition env_wf :: "db_env \<Rightarrow> bool" where
  "env_wf e \<longleftrightarrow> 0 \<le> db_now e \<and> db_now e < 2 ^ 63"

lemma u64_to_sql_SomeD: "u64_to_sql t = Some i \<Longrightarrow> 0 \<le> i \<and> i < 2 ^ 63"
  by (auto simp: u64_to_sql_def split: if_splits)

lemma sql_insert_ping_wf [inv_intros]:
  "sql_insert_ping p q = Some q' \<Longrightarrow> queue_wf q \<Longrightarrow> queue_wf q'"
  by (auto simp: sql_insert_ping_def queue_wf_def row_wf_def set_all_reasons set_all_media
      dest!: u64_to_sql_SomeD split: option.splits if_splits)

lemma queue_wf_map:
  assumes "queue_wf q" and "\<And>r. r \<in> set q \<Longrightarrow> q_url (f r) = q_url r"
    and "\<And>r. r \<in> set q \<Longrightarrow> row_wf r \<Longrightarrow> row_wf (f r)"
  shows "queue_wf (map f q)"
proof -
  have "map q_url (map f q) = map q_url q" using assms(2) by simp
  then have "distinct (map q_url (map f q))" using assms(1) by (simp only: queue_wf_def)
  with assms show ?thesis by (auto simp: queue_wf_def)
qed

lemma sql_update_ping_wf [inv_intros]:
  "sql_update_ping p q = Some q' \<Longrightarrow> queue_wf q \<Longrightarrow> queue_wf q'"
  by (auto simp: sql_update_ping_def row_wf_def set_all_reasons set_all_media
      dest!: u64_to_sql_SomeD intro!: queue_wf_map split: option.splits if_splits)

lemma sql_set_inflight_wf [inv_intros]:
  "sql_set_inflight u q = Some q' \<Longrightarrow> queue_wf q \<Longrightarrow> queue_wf q'"
  by (auto simp: sql_set_inflight_def row_wf_def intro!: queue_wf_map)

lemma sql_reset_inflight_wf [inv_intros]:
  "sql_reset_inflight now c q = Some q' \<Longrightarrow> 0 \<le> now \<Longrightarrow> now < 2 ^ 63 \<Longrightarrow> queue_wf q \<Longrightarrow> queue_wf q'"
  by (auto simp: sql_reset_inflight_def row_wf_def intro!: queue_wf_map)

lemma sql_delete_ping_wf [inv_intros]:
  "sql_delete_ping u q = Some q' \<Longrightarrow> queue_wf q \<Longrightarrow> queue_wf q'"
  by (auto simp: sql_delete_ping_def queue_wf_def)

lemma execute_queue_wf:
  "dbs_wf d \<Longrightarrow> (\<And>q q'. stmt q = Some q' \<Longrightarrow> queue_wf q \<Longrightarrow> queue_wf q') \<Longrightarrow>
   dbs_wf (fst (execute_queue e stmt d))"
  by (auto simp: execute_queue_def dbs_wf_def split: option.splits)

lemma fst_update_ping_in_queue:
  "fst (update_ping_in_queue e p d) =
     (if can_open e then fst (execute_queue e (sql_update_ping p) d) else d)"
  by (auto simp: update_ping_in_queue_def connect_to_database_def split: prod.splits bool.splits)

lemma fst_set_ping_as_inflight:
  "fst (set_ping_as_inflight e p d) =
     (if can_open e then fst (execute_queue e (sql_set_inflight (ping_url p)) d) else d)"
  by (auto simp: set_ping_as_inflight_def connect_to_database_def split: prod.splits bool.splits)

lemma fst_reset_pings_in_flight:
  "fst (reset_pings_in_flight e c d) =
     (if can_open e then fst (execute_queue e (sql_reset_inflight (db_now e) c) d) else d)"
  by (auto simp: reset_pings_in_flight_def connect_to_database_def split: prod.splits bool.splits)

lemma fst_delete_ping_from_queue:
  "fst (delete_ping_from_queue e u d) =
     (if can_open e then fst (execute_queue e (sql_delete_ping u) d) else d)"
  by (auto simp: delete_ping_from_queue_def connect_to_database_def split: prod.splits bool.splits)

lemma execute_queue_failed: "\<not> snd (execute_queue e stmt d) \<Longrightarrow> fst (execute_queue e stmt d) = d"
  by (auto simp: execute_queue_def split: option.splits if_splits)

lemma fst_add_ping_to_queue:
  "fst (add_ping_to_queue e e2 p d) =
     (if \<not> can_open e then d
      else if snd (execute_queue e (sql_insert_ping p) d)
      then fst (execute_queue e (sql_insert_ping p) d)
      else if ping_reason p = Update then d else fst (update_ping_in_queue e2 p d))"
  using execute_queue_failed [of e "sql_insert_ping p" d]
  by (auto simp: add_ping_to_queue_def connect_to_database_def
      split: prod.splits bool.splits reason.splits)

lemmas op_states = fst_update_ping_in_queue fst_set_ping_as_inflight fst_reset_pings_in_flight
  fst_delete_ping_from_queue fst_add_ping_to_queue

lemma ops_dbs_wf [inv_intros]:
  assumes "dbs_wf d"
  shows update_ping_dbs_wf: "dbs_wf (fst (update_ping_in_queue e p d))"
    and set_inflight_dbs_wf: "dbs_wf (fst (set_ping_as_inflight e p d))"
    and delete_ping_dbs_wf: "dbs_wf (fst (delete_ping_from_queue e u d))"
    and add_ping_dbs_wf: "dbs_wf (fst (add_ping_to_queue e e2 p d))"
  using assms by (auto simp: op_states intro!: execute_queue_wf intro: inv_intros)

lemma reset_dbs_wf [inv_intros]:
  "dbs_wf d \<Longrightarrow> env_wf e \<Longrightarrow> dbs_wf (fst (reset_pings_in_flight e c d))"
  by (auto simp: op_states env_wf_def intro!: execute_queue_wf intro: sql_reset_inflight_wf)

section \<open>Fetching the next batch\<close>

definition row_ping :: "qrow \<Rightarrow> ping" where
  "row_ping r = \<lparr>ping_url = q_url r, ping_time = word_of_int (q_createdon r),
     ping_reason = the (reason_from_str (q_reason r)), ping_medium = the (medium_from_str (q_medium r))\<rparr>"

lemma ping_of_row_wf: "row_wf r \<Longrightarrow> ping_of_row r = Ret (row_ping r)"
  by (auto simp: row_wf_def ping_of_row_def u64_from_sql_def row_ping_def)

lemma ping_url_row_ping [simp]: "ping_url (row_ping r) = q_url r"
  by (simp add: row_ping_def)

lemma set_sql_select_pings: "set (sql_select_pings w now q) \<subseteq> set q"
  by (auto simp: sql_select_pings_def dest: in_set_takeD)

lemma get_pings_wf:
  assumes "queue_wf q" and "queue_tbl d = Some q" and "can_open e" "stmt_ok e" "step_ok e"
  shows "get_pings_from_queue e w d = Ret (Ok (map row_ping (sql_select_pings w (db_now e) q)))"
proof -
  have "mapM_outcome ping_of_row (sql_select_pings w (db_now e) q)
      = Ret (map row_ping (sql_select_pings w (db_now e) q))"
    using assms(1) set_sql_select_pings [of w "db_now e" q]
    by (intro mapM_outcome_all_Ret ping_of_row_wf) (auto simp: queue_wf_def)
  with assms show ?thesis
    by (simp add: get_pings_from_queue_def connect_to_database_def)
qed

text \<open>
  The order of a batch, said without sorting: live pings, then ends of live streams, then updates,
  each group in the order of arrival.
\<close>

definition by_reason :: "reason \<Rightarrow> queue \<Rightarrow> queue" where
  "by_reason x q = filter (\<lambda>r. q_reason r = reason_to_string x) q"

lemma filter_by_reason:
  "filter (\<lambda>x. c = q_reason x) (by_reason y q) =
     (if c = reason_to_string y then filter (\<lambda>x. c = q_reason x) q else [])"
  by (auto simp: by_reason_def filter_empty_conv intro!: filter_cong)

lemma sorted_by_reason: "sorted (map q_reason (by_reason y q))"
  by (induction q) (auto simp: by_reason_def)

lemma by_reason_val: "r \<in> set (by_reason y q) \<Longrightarrow> q_reason r = reason_to_string y"
  by (simp add: by_reason_def)

lemma sort_key_reason:
  assumes "\<forall>r \<in> set q. row_wf r"
  shows "sort_key q_reason q = by_reason Live q @ by_reason LiveEnd q @ by_reason Update q"
    (is "_ = ?s")
proof (rule properties_for_sort_key)
  have one: "\<forall>r \<in> set q. q_reason r = ''Live'' \<or> q_reason r = ''LiveEnd'' \<or> q_reason r = ''Update''"
    using assms by (auto simp: row_wf_def all_reasons_def)
  then show "mset ?s = mset q"
    by (induction q) (auto simp: by_reason_def)
  show "filter (\<lambda>x. q_reason k = q_reason x) ?s = filter (\<lambda>x. q_reason k = q_reason x) q"
    if "k \<in> set ?s" for k
    using that by (auto simp: filter_by_reason) (auto simp: by_reason_def)
  show "sorted (map q_reason ?s)"
    by (auto simp: sorted_append sorted_by_reason dest!: by_reason_val)
qed

section \<open>Authorisation patterns\<close>

lemma sql_like_percent: "sql_like (CHR ''%'' # []) ts"
proof (induction "length ts" arbitrary: ts rule: less_induct)
  case less
  show ?case
  proof (cases "ts = []")
    case True
    then show ?thesis by (subst sql_like.simps) simp
  next
    case False
    then have "length (utf8_rest ts) < length ts" by (simp add: utf8_rest_def)
    then have "sql_like (CHR ''%'' # []) (utf8_rest ts)" by (rule less)
    with False show ?thesis by (subst sql_like.simps) simp
  qed
qed

lemma sql_like_char:
  "c \<noteq> CHR ''%'' \<Longrightarrow> c \<noteq> CHR ''_'' \<Longrightarrow> sql_like (c # cs) ts \<longleftrightarrow>
     (case ts of [] \<Rightarrow> False | t # ts' \<Rightarrow> to_ascii_lower c = to_ascii_lower t \<and> sql_like cs ts')"
  by (subst sql_like.simps) (simp split: list.split)

lemma sql_like_literal:
  "CHR ''%'' \<notin> set p \<Longrightarrow> CHR ''_'' \<notin> set p \<Longrightarrow> sql_like p ts \<longleftrightarrow> eq_ignore_ascii_case p ts"
proof (induction p arbitrary: ts)
  case Nil
  then show ?case by (auto simp: eq_ignore_ascii_case_def)
next
  case (Cons c cs)
  then have "c \<noteq> CHR ''%''" "c \<noteq> CHR ''_''" by auto
  with Cons show ?case
    by (cases ts) (simp_all add: sql_like_char eq_ignore_ascii_case_def)
qed

lemma find_Some_ex: "(\<exists>x \<in> set xs. P x) \<longleftrightarrow> (\<exists>x. find P xs = Some x)"
  by (induction xs) auto

lemma check_auth_found:
  assumes "publishers_tbl d = Some rows" and "can_open e" "stmt_ok e" "step_ok e"
    and "\<forall>r \<in> set rows. pub_name r \<noteq> None"
  shows "(\<exists>n. check_auth e a d = Ret (Ok n)) \<longleftrightarrow> (\<exists>r \<in> set rows. authval_matches a r)"
    and "check_auth e a d \<noteq> Panic"
proof -
  consider "find (authval_matches a) rows = None" |
    r where "find (authval_matches a) rows = Some r" "r \<in> set rows" "authval_matches a r"
    by (cases "find (authval_matches a) rows") (auto dest: find_Some_in)
  then have "((\<exists>n. check_auth e a d = Ret (Ok n)) \<longleftrightarrow> (\<exists>r \<in> set rows. authval_matches a r))
      \<and> check_auth e a d \<noteq> Panic"
  proof cases
    case 1
    then show ?thesis using assms find_Some_ex [of rows "authval_matches a"]
      by (simp add: check_auth_def connect_to_database_def lookup_auth_def)
  next
    case 2
    then obtain n where "pub_name r = Some n" using assms(5) by auto
    with 2 assms show ?thesis
      by (auto simp: check_auth_def connect_to_database_def lookup_auth_def)
  qed
  then show "(\<exists>n. check_auth e a d = Ret (Ok n)) \<longleftrightarrow> (\<exists>r \<in> set rows. authval_matches a r)"
    and "check_auth e a d \<noteq> Panic" by auto
qed

section \<open>Properties\<close>

text \<open>C18. A batch fetched from a well-formed queue holds the rows older than 15 seconds that are not
  in flight: all live pings first, then all ends of live streams, then all updates, each group in
  order of arrival, cut at 1000. No row makes the fetch panic.\<close>

theorem get_pings_priority_order:
  assumes "queue_wf q" and "queue_tbl d = Some q" and "can_open e" "stmt_ok e" "step_ok e"
  shows "\<exists>ps. get_pings_from_queue e False d = Ret (Ok ps) \<and>
     (let el = filter (\<lambda>r. q_inflight r = 0 \<and> q_createdon r < db_now e - 15) q
      in ps = map row_ping (take 1000 (by_reason Live el @ by_reason LiveEnd el @ by_reason Update el)))"
proof -
  let ?el = "filter (\<lambda>r. q_inflight r = 0 \<and> q_createdon r < db_now e - 15) q"
  have "\<forall>r \<in> set ?el. row_wf r" using assms(1) by (simp add: queue_wf_def)
  from sort_key_reason [OF this] get_pings_wf [OF assms, of False] show ?thesis
    by (simp add: sql_select_pings_def PING_BATCH_SIZE_def Let_def)
qed

text \<open>A concrete queue that several witnesses share.\<close>

definition demo_queue :: queue where
  "demo_queue = [
     \<lparr>q_url = ''http://a'', q_createdon = 100, q_reason = ''Update'', q_medium = ''Podcast'', q_inflight = 0\<rparr>,
     \<lparr>q_url = ''http://b'', q_createdon = 101, q_reason = ''Live'', q_medium = ''Music'', q_inflight = 0\<rparr>,
     \<lparr>q_url = ''http://c'', q_createdon = 102, q_reason = ''Update'', q_medium = ''Podcast'', q_inflight = 1\<rparr>]"

definition demo_env :: db_env where
  "demo_env = \<lparr>can_open = True, stmt_ok = True, step_ok = True, db_now = 1000\<rparr>"

definition demo_dbs :: dbs where
  "demo_dbs = \<lparr>publishers_tbl = Some [\<lparr>pub_name = Some ''acme'', pub_authval = Some ''Secret^^token12345678''\<rparr>],
     queue_tbl = Some demo_queue\<rparr>"

lemma demo_queue_wf: "queue_wf demo_queue"
  by (simp add: queue_wf_def row_wf_def demo_queue_def all_reasons_def all_media_def)

lemmas demo_sels = demo_dbs_def demo_env_def

theorem get_pings_priority_order_witness:
  "\<exists>ps. get_pings_from_queue demo_env False demo_dbs = Ret (Ok ps)
     \<and> map ping_url ps = [''http://b'', ''http://a'']"
  using get_pings_priority_order [OF demo_queue_wf, of demo_dbs demo_env]
  by (auto simp: demo_sels demo_queue_def by_reason_def)

text \<open>A token without the wildcards of \<^verbatim>\<open>LIKE\<close> is accepted exactly when some publisher's
  \<^verbatim>\<open>authval\<close> equals it up to ASCII case, and the check does not panic.\<close>

theorem check_auth_literal_token:
  assumes "publishers_tbl d = Some rows" and "can_open e" "stmt_ok e" "step_ok e"
    and "\<forall>r \<in> set rows. pub_name r \<noteq> None"
    and "CHR ''%'' \<notin> set a" "CHR ''_'' \<notin> set a"
  shows "check_auth e a d \<noteq> Panic \<and>
    ((\<exists>n. check_auth e a d = Ret (Ok n)) \<longleftrightarrow>
     (\<exists>r \<in> set rows. \<exists>v. pub_authval r = Some v \<and> eq_ignore_ascii_case a v))"
proof -
  have "authval_matches a r \<longleftrightarrow> (\<exists>v. pub_authval r = Some v \<and> eq_ignore_ascii_case a v)" for r
    using sql_like_literal [OF assms(6,7)] by (auto simp: authval_matches_def split: option.splits)
  with check_auth_found [OF assms(1-5), of a] show ?thesis by simp
qed

lemma demo_token_match: "eq_ignore_ascii_case ''sECRET^^token12345678'' ''Secret^^token12345678''"
  by code_simp

lemma demo_token_mismatch: "\<not> eq_ignore_ascii_case ''Secret^^token1234567'' ''Secret^^token12345678''"
  by (auto simp: eq_ignore_ascii_case_def dest!: map_eq_imp_length_eq)

theorem check_auth_literal_token_witness:
  "(\<exists>n. check_auth demo_env ''sECRET^^token12345678'' demo_dbs = Ret (Ok n))
   \<and> \<not> (\<exists>n. check_auth demo_env ''Secret^^token1234567'' demo_dbs = Ret (Ok n))"
proof
  let ?rows = "the (publishers_tbl demo_dbs)"
  show "\<exists>n. check_auth demo_env ''sECRET^^token12345678'' demo_dbs = Ret (Ok n)"
    using check_auth_literal_token [of demo_dbs ?rows demo_env "''sECRET^^token12345678''"]
      demo_token_match by (simp add: demo_sels)
  show "\<not> (\<exists>n. check_auth demo_env ''Secret^^token1234567'' demo_dbs = Ret (Ok n))"
    using check_auth_literal_token [of demo_dbs ?rows demo_env "''Secret^^token1234567''"]
      demo_token_mismatch by (simp add: demo_sels)
qed

text \<open>The token is the pattern of the \<^verbatim>\<open>LIKE\<close>, so a header that is one percent sign is accepted
  as soon as any publisher is registered, whatever the registered tokens are.\<close>

theorem check_auth_percent_bypass:
  assumes "publishers_tbl d = Some rows" and "can_open e" "stmt_ok e" "step_ok e"
    and "\<forall>r \<in> set rows. pub_name r \<noteq> None"
    and "\<exists>r \<in> set rows. pub_authval r \<noteq> None"
  shows "\<exists>n. check_auth e ''%'' d = Ret (Ok n)"
proof -
  have "\<exists>r \<in> set rows. authval_matches ''%'' r"
    using assms(6) by (force simp: authval_matches_def sql_like_percent)
  with check_auth_found(1) [OF assms(1-5)] show ?thesis by simp
qed

theorem check_auth_percent_bypass_witness: "\<exists>n. check_auth demo_env ''%'' demo_dbs = Ret (Ok n)"
  by (rule check_auth_percent_bypass [of demo_dbs "the (publishers_tbl demo_dbs)"])
    (simp_all add: demo_sels)

end
