(* ===== verification/Ping_Lifecycle.thy ===== *)
theory Ping_Lifecycle
  imports Dbif
begin

text \<open>
  The abstract contract of the queue. To the rest of the front-end a url is absent, queued or in
  flight; the life cycle says which operation may move it from one status to which other. The
  operations of \<^verbatim>\<open>dbif\<close> refine it: every operation on the tables, whatever the environment does,
  is a step of the life cycle for every url.
\<close>

section \<open>Abstract life cycle\<close>

datatype status = Absent | Queued string | InFlight string

datatype db_op =
    AddPing db_env db_env ping
  | MarkInflight db_env ping
  | ResetInflight db_env "string set"
  | DeletePing db_env string

inductive life :: "db_op \<Rightarrow> string \<Rightarrow> status \<Rightarrow> status \<Rightarrow> bool" where
  stutter: "life op u s s"
| accept: "ping_url p = u \<Longrightarrow>
     life (AddPing e e2 p) u Absent (Queued (reason_to_string (ping_reason p)))"
| supersede: "ping_url p = u \<Longrightarrow> ping_reason p \<noteq> Update \<Longrightarrow> s \<noteq> Absent \<Longrightarrow>
     life (AddPing e e2 p) u s (Queued (reason_to_string (ping_reason p)))"
| send: "ping_url p = u \<Longrightarrow> life (MarkInflight e p) u (Queued r) (InFlight r)"
| expire: "u \<in> chosen \<Longrightarrow> life (ResetInflight e chosen) u (InFlight r) (Queued r)"
| finish: "life (DeletePing e u) u s Absent"

inductive_cases life_AddPingE: "life (AddPing e e2 p) u s s'"
inductive_cases life_MarkInflightE: "life (MarkInflight e p) u s s'"
inductive_cases life_ResetInflightE: "life (ResetInflight e c) u s s'"
inductive_cases life_DeletePingE: "life (DeletePing e v) u s s'"

lemmas lifeE = life_AddPingE life_MarkInflightE life_ResetInflightE life_DeletePingE

section \<open>The tables as an implementation\<close>

definition row_of :: "queue \<Rightarrow> string \<Rightarrow> qrow option" where
  "row_of q u = find (\<lambda>r. q_url r = u) q"

definition row_status :: "qrow option \<Rightarrow> status" where
  "row_status x = (case x of None \<Rightarrow> Absent
     | Some r \<Rightarrow> if q_inflight r = 0 then Queued (q_reason r) else InFlight (q_reason r))"

definition status :: "dbs \<Rightarrow> string \<Rightarrow> status" where
  "status d u = (case queue_tbl d of None \<Rightarrow> Absent | Some q \<Rightarrow> row_status (row_of q u))"

fun apply_op :: "db_op \<Rightarrow> dbs \<Rightarrow> dbs" where
  "apply_op (AddPing e e2 p) d = fst (add_ping_to_queue e e2 p d)"
| "apply_op (MarkInflight e p) d = fst (set_ping_as_inflight e p d)"
| "apply_op (ResetInflight e chosen) d = fst (reset_pings_in_flight e chosen d)"
| "apply_op (DeletePing e u) d = fst (delete_ping_from_queue e u d)"

fun op_env_wf :: "db_op \<Rightarrow> bool" where
  "op_env_wf (ResetInflight e chosen) = env_wf e"
| "op_env_wf _ = True"

lemma row_of_map:
  "(\<And>r. q_url (f r) = q_url r) \<Longrightarrow> row_of (map f q) u = map_option f (row_of q u)"
  by (induction q) (auto simp: row_of_def)

lemma row_of_snoc: "row_of (q @ [r]) u = (case row_of q u of None \<Rightarrow> if q_url r = u then Some r else None | Some x \<Rightarrow> Some x)"
  by (induction q) (auto simp: row_of_def)

lemma row_of_delete: "row_of (filter (\<lambda>r. q_url r \<noteq> v) q) u = (if u = v then None else row_of q u)"
  by (induction q) (auto simp: row_of_def)

lemma row_of_None: "row_of q u = None \<longleftrightarrow> u \<notin> q_url ` set q"
  by (simp add: row_of_def find_None_iff_key)

lemma row_of_Some: "row_of q u = Some r \<Longrightarrow> q_url r = u \<and> r \<in> set q"
  by (auto simp: row_of_def dest: find_Some_in)

lemma status_execute:
  assumes "\<And>q q'. queue_tbl d = Some q \<Longrightarrow> stmt q = Some q' \<Longrightarrow>
      P (row_status (row_of q u)) (row_status (row_of q' u))"
    and "\<And>s. P s s"
  shows "P (status d u) (status (fst (execute_queue e stmt d)) u)"
  using assms by (auto simp: execute_queue_def status_def split: option.splits)

lemma apply_op_wf [inv_intros]: "op_env_wf op \<Longrightarrow> dbs_wf d \<Longrightarrow> dbs_wf (apply_op op d)"
  by (cases op) (auto intro: inv_intros)

lemma row_status_Absent [simp]: "row_status x = Absent \<longleftrightarrow> x = None"
  by (simp add: row_status_def split: option.splits)

lemma insert_life:
  assumes "sql_insert_ping p q = Some q'"
  shows "life (AddPing e e2 p) u (row_status (row_of q u)) (row_status (row_of q' u))"
proof (cases "row_of q u = None \<and> u = ping_url p")
  case True
  then show ?thesis
    using assms life.accept [of p u e e2]
    by (auto simp: sql_insert_ping_def row_of_snoc row_status_def split: option.splits if_splits)
next
  case False
  then have "row_of q' u = row_of q u"
    using assms by (auto simp: sql_insert_ping_def row_of_snoc split: option.splits if_splits)
  then show ?thesis by (simp add: life.stutter)
qed

lemma update_life:
  assumes "sql_update_ping p q = Some q'" and "ping_reason p \<noteq> Update"
  shows "life (AddPing e e2 p) u (row_status (row_of q u)) (row_status (row_of q' u))"
proof (cases "row_of q u")
  case None
  then show ?thesis using assms by (auto simp: sql_update_ping_def row_of_map intro: life.stutter split: option.splits)
next
  case (Some r)
  with row_of_Some have "q_url r = u" by auto
  have super: "u = ping_url p \<Longrightarrow>
      life (AddPing e e2 p) u (row_status (Some r)) (Queued (reason_to_string (ping_reason p)))"
    using life.supersede [of p u "row_status (Some r)" e e2] assms(2) by simp
  obtain t where "u64_to_sql (ping_time p) = Some t"
    using assms(1) by (auto simp: sql_update_ping_def split: option.splits)
  with assms(1) Some \<open>q_url r = u\<close> have "row_status (row_of q' u) =
      (if u = ping_url p then Queued (reason_to_string (ping_reason p)) else row_status (Some r))"
    by (auto simp: sql_update_ping_def row_of_map row_status_def)
  with super Some show ?thesis by (simp add: life.stutter)
qed

lemma set_inflight_life:
  assumes "sql_set_inflight (ping_url p) q = Some q'"
  shows "life (MarkInflight e p) u (row_status (row_of q u)) (row_status (row_of q' u))"
proof (cases "row_of q u")
  case None
  then show ?thesis using assms by (auto simp: sql_set_inflight_def row_of_map intro: life.stutter)
next
  case (Some r)
  with row_of_Some have "q_url r = u" by auto
  then show ?thesis
    using assms Some life.send [of p u e "q_reason r"]
    by (auto simp: sql_set_inflight_def row_of_map row_status_def intro: life.stutter)
qed

lemma reset_life:
  assumes "sql_reset_inflight now c q = Some q'"
  shows "life (ResetInflight e c) u (row_status (row_of q u)) (row_status (row_of q' u))"
proof (cases "row_of q u")
  case None
  then show ?thesis using assms by (auto simp: sql_reset_inflight_def row_of_map intro: life.stutter)
next
  case (Some r)
  with row_of_Some have "q_url r = u" by auto
  then show ?thesis
    using assms Some life.expire [of u c e "q_reason r"]
    by (auto simp: sql_reset_inflight_def row_of_map row_status_def intro: life.stutter)
qed

lemma delete_life:
  "sql_delete_ping v q = Some q' \<Longrightarrow>
   life (DeletePing e v) u (row_status (row_of q u)) (row_status (row_of q' u))"
  by (auto simp: sql_delete_ping_def row_of_delete row_status_def intro: life.intros)

section \<open>Runs\<close>

fun run_ops :: "db_op list \<Rightarrow> dbs \<Rightarrow> dbs" where
  "run_ops [] d = d"
| "run_ops (op # ops) d = run_ops ops (apply_op op d)"

lemma run_ops_wf: "dbs_wf d \<Longrightarrow> list_all op_env_wf ops \<Longrightarrow> dbs_wf (run_ops ops d)"
  by (induction ops arbitrary: d) (auto intro: inv_intros)

text \<open>The simulation, for one operation.\<close>

lemma apply_op_life:
  assumes "dbs_wf d"
  shows "life op u (status d u) (status (apply_op op d) u)"
proof -
  have wf: "queue_wf q" if "queue_tbl d = Some q" for q
    using assms that by (simp add: dbs_wf_def)
  show ?thesis
  proof (cases op)
    case (AddPing e e2 p)
    have "life op u (status d u) (status (fst (execute_queue e (sql_insert_ping p) d)) u)"
      unfolding AddPing by (rule status_execute) (auto intro: insert_life life.stutter)
    moreover have "life op u (status d u) (status (fst (execute_queue e2 (sql_update_ping p) d)) u)"
      if "ping_reason p \<noteq> Update"
      unfolding AddPing by (rule status_execute) (use that in \<open>auto intro: update_life life.stutter\<close>)
    ultimately show ?thesis by (auto simp: AddPing op_states intro: life.stutter)
  next
    case (MarkInflight e p)
    have "life op u (status d u) (status (fst (execute_queue e (sql_set_inflight (ping_url p)) d)) u)"
      unfolding MarkInflight by (rule status_execute) (auto intro: set_inflight_life life.stutter)
    then show ?thesis by (auto simp: MarkInflight op_states intro: life.stutter)
  next
    case (ResetInflight e c)
    have "life op u (status d u) (status (fst (execute_queue e (sql_reset_inflight (db_now e) c) d)) u)"
      unfolding ResetInflight by (rule status_execute) (auto intro: reset_life life.stutter)
    then show ?thesis by (auto simp: ResetInflight op_states intro: life.stutter)
  next
    case (DeletePing e v)
    have "life op u (status d u) (status (fst (execute_queue e (sql_delete_ping v) d)) u)"
      unfolding DeletePing by (rule status_execute) (auto intro: delete_life life.stutter)
    then show ?thesis by (auto simp: DeletePing op_states intro: life.stutter)
  qed
qed

lemma life_present: "life op u s s' \<Longrightarrow> s \<noteq> Absent \<Longrightarrow> \<nexists>e. op = DeletePing e u \<Longrightarrow> s' \<noteq> Absent"
  by (induction rule: life.induct) auto

lemma run_ops_present:
  "dbs_wf d \<Longrightarrow> list_all op_env_wf ops \<Longrightarrow> \<forall>e. DeletePing e u \<notin> set ops \<Longrightarrow>
   status d u \<noteq> Absent \<Longrightarrow> status (run_ops ops d) u \<noteq> Absent"
proof (induction ops arbitrary: d)
  case (Cons op ops)
  have "status (apply_op op d) u \<noteq> Absent"
    using life_present [OF apply_op_life [OF Cons.prems(1), of op u]] Cons.prems(3,4) by auto
  with Cons show ?case by (auto intro: apply_op_wf)
qed simp

text \<open>Fetching on a well-formed queue has one of two results: an error value or the batch.\<close>

lemma get_pings_wf_no_panic: "dbs_wf d \<Longrightarrow> step_ok e \<Longrightarrow> get_pings_from_queue e w d \<noteq> Panic"
proof -
  assume wf: "dbs_wf d" and s: "step_ok e"
  show ?thesis
  proof (cases "\<exists>q. queue_tbl d = Some q \<and> can_open e \<and> stmt_ok e")
    case True
    then obtain q where q: "queue_tbl d = Some q" "can_open e" "stmt_ok e" by blast
    then have "queue_wf q" using wf by (simp add: dbs_wf_def)
    from get_pings_wf [OF this q s, of w] show ?thesis by simp
  next
    case False
    then show ?thesis
      by (auto simp: get_pings_from_queue_def connect_to_database_def split: option.splits)
  qed
qed

section \<open>Properties\<close>

text \<open>C2. Refinement of the queue contract: every operation of \<^verbatim>\<open>dbif\<close> on a well-formed database
  moves the status of every url along the life cycle (absent to queued by an accepted ping, queued to in
  flight by a send, back by a timeout or a live ping that supersedes it, to absent by a delete only).\<close>

theorem dbif_refines_life_cycle:
  assumes "dbs_wf d"
  shows "life op u (status d u) (status (apply_op op d) u)"
  using assms by (rule apply_op_life)

lemma demo_dbs_wf: "dbs_wf demo_dbs"
  using demo_queue_wf by (simp add: dbs_wf_def demo_dbs_def)

lemma demo_op_status:
  "status demo_dbs ''http://c'' = InFlight ''Update''"
  "status (apply_op (DeletePing demo_env ''http://c'') demo_dbs) ''http://c'' = Absent"
  by (simp_all add: status_def row_of_def row_status_def demo_dbs_def demo_queue_def demo_env_def
      op_states execute_queue_def sql_delete_ping_def)

theorem dbif_refines_life_cycle_witness:
  "life (DeletePing demo_env ''http://c'') ''http://c'' (InFlight ''Update'') Absent"
  using dbif_refines_life_cycle [OF demo_dbs_wf, of "DeletePing demo_env ''http://c''" "''http://c''"]
  by (simp only: demo_op_status)

text \<open>No accepted ping is lost: along any sequence of operations, a url that is in the queue
  stays in it (queued or in flight) until an operation deletes that very url.\<close>

theorem queued_url_never_lost:
  assumes "dbs_wf d" and "list_all op_env_wf ops"
    and "status d u \<noteq> Absent" and "\<forall>e. DeletePing e u \<notin> set ops"
  shows "status (run_ops ops d) u \<noteq> Absent"
  using assms by (intro run_ops_present)

theorem queued_url_never_lost_witness:
  "status (run_ops [DeletePing demo_env ''http://a'', ResetInflight demo_env {''http://c''}] demo_dbs)
     ''http://c'' \<noteq> Absent"
  by (rule queued_url_never_lost [OF demo_dbs_wf])
    (simp_all add: demo_op_status demo_env_def env_wf_def)

text \<open>From a well-formed database no sequence of operations leads to a state in which fetching
  pings panics: the rows the program writes always parse back.\<close>

theorem fetch_never_panics:
  assumes "dbs_wf d" and "list_all op_env_wf ops" and "step_ok e"
  shows "get_pings_from_queue e w (run_ops ops d) \<noteq> Panic"
  using assms by (intro get_pings_wf_no_panic run_ops_wf)

theorem fetch_never_panics_witness:
  "get_pings_from_queue demo_env True (run_ops [ResetInflight demo_env {''http://c''}] demo_dbs) \<noteq> Panic"
  by (rule fetch_never_panics [OF demo_dbs_wf]) (simp_all add: demo_env_def env_wf_def)

end
