(* ===== verification/Handler.thy ===== *)
theory Handler
  imports Ping_Lifecycle
begin

text \<open>
  The HTTP side of the front-end: the two handlers of \<^verbatim>\<open>podping/src/handler.rs\<close>, the router of
  \<^verbatim>\<open>podping/src/router.rs\<close> and the routes \<^verbatim>\<open>main\<close> registers. A handler returns the new database state
  and a response, or panics; the panic hook of \<^verbatim>\<open>main\<close> ends the process then. Decoding a header
  value, parsing a query string, rendering the landing page and recognising a path are done by
  crates outside the repository and are parameters (record \<open>http_lib\<close>, argument \<open>recognize\<close>).
\<close>

section \<open>Data\<close>

record app_state =
  state_thing :: string
  remote_ip :: string
  version :: string

record http_req =
  req_method :: string
  req_path :: string
  req_query :: "string option"
  req_headers :: "(string \<times> string) list"

record http_context =
  ctx_state :: app_state
  ctx_req :: http_req
  ctx_params :: "(string \<times> string) list"

record response =
  status_code :: nat
  resp_body :: string

record http_lib =
  header_to_str :: "string \<Rightarrow> string option"
  form_parse :: "string \<Rightarrow> (string \<times> string) list"
  render_template :: "string \<Rightarrow> string \<Rightarrow> string option"

text \<open>What the environment decides for one request: the clock (\<open>None\<close> before the epoch), the
  landing page file, and one connection environment per call of the database layer.\<close>

record req_env =
  clock_secs :: "u64 option"
  home_html :: "string option"
  auth_env :: db_env
  hybrid_env :: db_env
  insert_env :: db_env
  update_env :: db_env

definition header :: "http_req \<Rightarrow> string \<Rightarrow> string option" where
  "header r name = map_of (req_headers r) name"

definition respond :: "nat \<Rightarrow> string \<Rightarrow> response" where
  "respond c b = \<lparr>status_code = c, resp_body = b\<rparr>"

section \<open>The ping handler\<close>

text \<open>Query parameters collected into a map: the last value of a name wins.\<close>

definition query_params :: "http_lib \<Rightarrow> http_req \<Rightarrow> (string \<times> string) list" where
  "query_params L r = (case req_query r of None \<Rightarrow> [] | Some v \<Rightarrow> rev (form_parse L v))"

text \<open>\<^verbatim>\<open>remote_ip.to_str().unwrap()\<close> and \<^verbatim>\<open>ua_string.to_str().unwrap()\<close>, for the log only.\<close>

definition log_header :: "http_lib \<Rightarrow> string option \<Rightarrow> unit outcome" where
  "log_header L h = (case h of None \<Rightarrow> Ret ()
     | Some v \<Rightarrow> bind_outcome (unwrap (header_to_str L v)) (\<lambda>_. Ret ()))"

definition landing_page :: "http_lib \<Rightarrow> req_env \<Rightarrow> http_context \<Rightarrow> response outcome" where
  "landing_page L E ctx =
     bind_outcome (unwrap (home_html E)) (\<lambda>doc.
     bind_outcome (unwrap (render_template L doc (version (ctx_state ctx)))) (\<lambda>page.
     Ret (respond 200 page)))"

text \<open>The authorization check: \<open>Inl\<close> is the early return with a 401.\<close>

definition authorize :: "http_lib \<Rightarrow> req_env \<Rightarrow> http_req \<Rightarrow> dbs \<Rightarrow> (response + unit) outcome" where
  "authorize L E r d =
     (case header r ''authorization'' of
        None \<Rightarrow> Ret (Err (respond 401 ''Invalid Authorization header''))
      | Some h \<Rightarrow>
          bind_outcome (unwrap (header_to_str L h)) (\<lambda>tok.
          bind_outcome (check_auth (auth_env E) tok d) (\<lambda>res.
            case res of
              Inr _ \<Rightarrow> Ret (Ok ())
            | Inl _ \<Rightarrow>
                bind_outcome (check_auth_hybrid (hybrid_env E) tok d) (\<lambda>res2.
                  case res2 of
                    Inr _ \<Rightarrow> Ret (Ok ())
                  | Inl _ \<Rightarrow> Ret (Err (respond 401 ''Bad Authorization header check''))))))"

definition check_user_agent :: "http_lib \<Rightarrow> http_req \<Rightarrow> (response + unit) outcome" where
  "check_user_agent L r =
     (case header r ''user-agent'' of
        None \<Rightarrow> Ret (Err (respond 401 ''User-Agent header is required''))
      | Some h \<Rightarrow> bind_outcome (unwrap (header_to_str L h)) (\<lambda>_. Ret (Ok ())))"

definition URL_MISSING :: string where
  "URL_MISSING = ''Url parameter is missing.  Call as /?url=<podcast_url>''"

definition URL_SCHEME :: string where
  "URL_SCHEME =
     ''Urls must contain a valid protocol schema prefix, like http:// or https://''"

definition check_url :: "(string \<times> string) list \<Rightarrow> response + string" where
  "check_url params =
     (case map_of params ''url'' of
        None \<Rightarrow> Err (respond 400 URL_MISSING)
      | Some u \<Rightarrow>
          if length u = 0 then Err (respond 400 URL_MISSING)
          else (case find_sub (to_lowercase u) ''http'' of
                  None \<Rightarrow> Err (respond 400 URL_SCHEME)
                | Some pos \<Rightarrow> if pos \<noteq> 0 then Err (respond 400 URL_SCHEME) else Ok u))"

definition set_reason :: "(string \<times> string) list \<Rightarrow> ping \<Rightarrow> ping outcome" where
  "set_reason params p =
     (case map_of params ''reason'' of
        None \<Rightarrow> Ret p
      | Some s \<Rightarrow> bind_outcome (unwrap (reason_from_str s)) (\<lambda>r. Ret (p\<lparr>ping_reason := r\<rparr>)))"

definition set_medium :: "(string \<times> string) list \<Rightarrow> ping \<Rightarrow> ping outcome" where
  "set_medium params p =
     (case map_of params ''medium'' of
        None \<Rightarrow> Ret p
      | Some s \<Rightarrow> bind_outcome (unwrap (medium_from_str s)) (\<lambda>m. Ret (p\<lparr>ping_medium := m\<rparr>)))"

text \<open>The insert and the response that hides its result.\<close>

definition store_ping :: "req_env \<Rightarrow> ping \<Rightarrow> dbs \<Rightarrow> dbs \<times> response" where
  "store_ping E p d =
     (case add_ping_to_queue (insert_env E) (update_env E) p d of
        (d', Inr _) \<Rightarrow> (d', respond 200 ''Success!'')
      | (d', Inl _) \<Rightarrow> (d', respond 200 ''Success!''))"

text \<open>An early return (\<open>Inl\<close>) leaves the database as it is.\<close>

definition or_return :: "dbs \<Rightarrow> (response + 'a) outcome \<Rightarrow> ('a \<Rightarrow> (dbs \<times> response) outcome)
    \<Rightarrow> (dbs \<times> response) outcome" where
  "or_return d m f = bind_outcome m (\<lambda>x. case x of Inl resp \<Rightarrow> Ret (d, resp) | Inr v \<Rightarrow> f v)"

definition ping_handler :: "http_lib \<Rightarrow> req_env \<Rightarrow> http_context \<Rightarrow> dbs \<Rightarrow> (dbs \<times> response) outcome" where
  "ping_handler L E ctx d =
     bind_outcome (unwrap (clock_secs E)) (\<lambda>now.
     let r = ctx_req ctx; params = query_params L r;
         ping_in = \<lparr>ping_url = '''', ping_time = now, ping_reason = Update, ping_medium = Podcast\<rparr>
     in bind_outcome (log_header L (header r ''cf-connecting-ip'')) (\<lambda>_.
        if params = [] then bind_outcome (landing_page L E ctx) (\<lambda>resp. Ret (d, resp))
        else
          or_return d (authorize L E r d) (\<lambda>_.
          or_return d (check_user_agent L r) (\<lambda>_.
          or_return d (Ret (check_url params)) (\<lambda>u.
          bind_outcome (set_reason params (ping_in\<lparr>ping_url := u\<rparr>)) (\<lambda>p1.
          bind_outcome (set_medium params p1) (\<lambda>p2.
          Ret (store_ping E p2 d))))))))"

section \<open>The publishers handler\<close>

definition publishers_handler ::
    "http_lib \<Rightarrow> db_env \<Rightarrow> http_context \<Rightarrow> dbs \<Rightarrow> (dbs \<times> response) outcome" where
  "publishers_handler L e ctx d =
     bind_outcome (log_header L (header (ctx_req ctx) ''cf-connecting-ip'')) (\<lambda>_.
     or_return d (check_user_agent L (ctx_req ctx)) (\<lambda>_.
     bind_outcome (get_publishers e d) (\<lambda>publist.
       case publist of
         Inr ns \<Rightarrow> Ret (d, respond 200 (writelns ns))
       | Inl _ \<Rightarrow> Ret (d, respond 204 ''Error getting publishers list.''))))"

section \<open>Routing\<close>

datatype handler = PingH | PublishersH | NotFoundH

text \<open>The router: per method, the paths added so far with their handlers.\<close>

type_synonym router = "(string \<times> (string \<times> handler) list) list"
type_synonym recognizer = "(string \<times> handler) list \<Rightarrow> string \<Rightarrow> (handler \<times> (string \<times> string) list) option"

definition router_new :: router where
  "router_new = []"

definition router_get :: "string \<Rightarrow> handler \<Rightarrow> router \<Rightarrow> router" where
  "router_get path h R =
     (case map_of R ''GET'' of
        None \<Rightarrow> (''GET'', [(path, h)]) # R
      | Some rs \<Rightarrow> map (\<lambda>(m, x). if m = ''GET'' then (m, x @ [(path, h)]) else (m, x)) R)"

definition router_route :: "recognizer \<Rightarrow> router \<Rightarrow> string \<Rightarrow> string \<Rightarrow> handler \<times> (string \<times> string) list" where
  "router_route recognize R path meth =
     (case map_of R meth of
        None \<Rightarrow> (NotFoundH, [])
      | Some rs \<Rightarrow> (case recognize rs path of None \<Rightarrow> (NotFoundH, []) | Some m \<Rightarrow> m))"

definition not_found_handler :: response where
  "not_found_handler = respond 404 ''NOT FOUND''"

text \<open>The routes of \<^verbatim>\<open>main\<close>.\<close>

definition app_router :: router where
  "app_router = router_get ''/publishers'' PublishersH (router_get ''/'' PingH router_new)"

definition route :: "recognizer \<Rightarrow> http_lib \<Rightarrow> req_env \<Rightarrow> app_state \<Rightarrow> http_req \<Rightarrow> dbs
    \<Rightarrow> (dbs \<times> response) outcome" where
  "route recognize L E st r d =
     (case router_route recognize app_router (req_path r) (req_method r) of
        (h, ps) \<Rightarrow>
          let ctx = \<lparr>ctx_state = st, ctx_req = r, ctx_params = ps\<rparr>
          in (case h of
                PingH \<Rightarrow> ping_handler L E ctx d
              | PublishersH \<Rightarrow> publishers_handler L (auth_env E) ctx d
              | NotFoundH \<Rightarrow> Ret (d, not_found_handler)))"

section \<open>Lemmas\<close>

lemma or_return_Ret_iff:
  "or_return d m f = Ret y \<longleftrightarrow>
     (\<exists>resp. m = Ret (Inl resp) \<and> y = (d, resp)) \<or> (\<exists>v. m = Ret (Inr v) \<and> f v = Ret y)"
  by (cases m) (auto simp: or_return_def split: sum.splits)

lemma authorize_ok:
  "authorize L E r d = Ret (Ok ()) \<longleftrightarrow>
     (\<exists>h tok. header r ''authorization'' = Some h \<and> header_to_str L h = Some tok \<and>
        ((\<exists>n. check_auth (auth_env E) tok d = Ret (Ok n)) \<or>
         (\<exists>e n. check_auth (auth_env E) tok d = Ret (Err e) \<and> check_auth_hybrid (hybrid_env E) tok d = Ret (Ok n))))"
proof -
  have "(bind_outcome c (\<lambda>res. case res of Inr _ \<Rightarrow> Ret (Ok ()) | Inl _ \<Rightarrow>
           bind_outcome c2 (\<lambda>res2. case res2 of Inr _ \<Rightarrow> Ret (Ok ()) | Inl _ \<Rightarrow> Ret (Err bad)))
         = Ret (Ok ())) \<longleftrightarrow>
        (\<exists>n. c = Ret (Ok n)) \<or> (\<exists>e n. c = Ret (Err e) \<and> c2 = Ret (Ok n))"
    for c c2 :: "(db_error + string) outcome" and bad :: response
    by (cases c; cases c2) (auto split: sum.splits)
  then show ?thesis
    by (simp add: authorize_def unwrap_def split: option.splits)
qed

lemma check_url_ok:
  "check_url params = Ok u \<longleftrightarrow>
     map_of params ''url'' = Some u \<and> starts_with (to_lowercase u) ''http''"
proof (cases "map_of params ''url''")
  case (Some v)
  show ?thesis
  proof (cases "v = []")
    case True
    with Some show ?thesis by (simp add: check_url_def to_lowercase_def)
  next
    case False
    with Some show ?thesis
      using find_sub_zero [of "to_lowercase v" "''http''"]
      by (cases "find_sub (to_lowercase v) ''http''") (auto simp: check_url_def)
  qed
qed (simp add: check_url_def)

lemma set_reason_url: "set_reason params p = Ret p' \<Longrightarrow> ping_url p' = ping_url p \<and> ping_time p' = ping_time p"
  by (auto simp: set_reason_def unwrap_def split: option.splits)

lemma set_medium_url: "set_medium params p = Ret p' \<Longrightarrow> ping_url p' = ping_url p \<and> ping_time p' = ping_time p"
  by (auto simp: set_medium_def unwrap_def split: option.splits)

lemma store_ping_eq:
  "store_ping E p d = (fst (add_ping_to_queue (insert_env E) (update_env E) p d), respond 200 ''Success!'')"
  by (simp add: store_ping_def split: prod.splits sum.splits)

text \<open>Every run of the handler that returns either leaves the database alone or stores one ping.\<close>

lemma ping_handler_cases:
  assumes "ping_handler L E ctx d = Ret (d', resp)"
  obtains (unchanged) "d' = d"
  | (stored) p where "authorize L E (ctx_req ctx) d = Ret (Ok ())"
      "check_user_agent L (ctx_req ctx) = Ret (Ok ())"
      "check_url (query_params L (ctx_req ctx)) = Ok (ping_url p)"
      "(d', resp) = store_ping E p d"
proof -
  let ?r = "ctx_req ctx" and ?ps = "query_params L (ctx_req ctx)"
  from assms consider "d' = d"
    | u p1 p2 p0 where "authorize L E ?r d = Ret (Ok ())" "check_user_agent L ?r = Ret (Ok ())"
        "check_url ?ps = Ok u" "set_reason ?ps p0 = Ret p1" "ping_url p0 = u"
        "set_medium ?ps p1 = Ret p2" "(d', resp) = store_ping E p2 d"
    by (auto simp: ping_handler_def Let_def bind_outcome_Ret_iff or_return_Ret_iff split: if_splits)
  then show thesis
    by cases (use unchanged stored set_reason_url set_medium_url in metis)+
qed


lemma publishers_handler_same_dbs: "publishers_handler L e ctx d = Ret (d', resp) \<Longrightarrow> d' = d"
  by (cases "get_publishers e d")
    (auto simp: publishers_handler_def bind_outcome_Ret_iff or_return_Ret_iff split: sum.splits)

text \<open>The state after an accepted ping, when the statements succeed.\<close>

lemma add_ping_status:
  assumes "queue_tbl d = Some q" and "can_open e" "stmt_ok e" "can_open e2" "stmt_ok e2"
    and "uint (ping_time p) < 2 ^ 63"
  shows "status (fst (add_ping_to_queue e e2 p d)) (ping_url p) =
    (if status d (ping_url p) = Absent \<or> ping_reason p \<noteq> Update
     then Queued (reason_to_string (ping_reason p)) else status d (ping_url p))"
proof (cases "row_of q (ping_url p)")
  case None
  then have "ping_url p \<notin> q_url ` set q" by (simp add: row_of_None)
  with None show ?thesis
    using assms by (simp add: add_ping_to_queue_def connect_to_database_def execute_queue_def
      sql_insert_ping_def u64_to_sql_def status_def row_status_def row_of_snoc)
next
  case (Some r)
  then have "ping_url p \<in> q_url ` set q" and "q_url r = ping_url p"
    using row_of_Some [OF Some] by (force, simp)
  then show ?thesis
    using assms Some
    by (cases "ping_reason p") (simp_all add: add_ping_to_queue_def update_ping_in_queue_def
      connect_to_database_def execute_queue_def sql_insert_ping_def sql_update_ping_def
      u64_to_sql_def status_def row_status_def row_of_map)
qed

text \<open>The table after an accepted ping, when the statements succeed.\<close>

lemma add_ping_row:
  assumes "queue_tbl d = Some q" and "can_open e" "stmt_ok e" "can_open e2" "stmt_ok e2"
    and "uint (ping_time p) < 2 ^ 63"
  shows "\<exists>q'. fst (add_ping_to_queue e e2 p d) = d\<lparr>queue_tbl := Some q'\<rparr>
    \<and> (if row_of q (ping_url p) = None \<or> ping_reason p \<noteq> Update
       then row_of q' (ping_url p) = Some \<lparr>q_url = ping_url p, q_createdon = uint (ping_time p),
              q_reason = reason_to_string (ping_reason p), q_medium = medium_to_string (ping_medium p), q_inflight = 0\<rparr>
       else q' = q)
    \<and> (\<forall>v. v \<noteq> ping_url p \<longrightarrow> row_of q' v = row_of q v)"
proof (cases "row_of q (ping_url p)")
  case None
  then have "ping_url p \<notin> q_url ` set q" by (simp add: row_of_None)
  with None show ?thesis
    using assms by (auto simp: add_ping_to_queue_def connect_to_database_def execute_queue_def
      sql_insert_ping_def u64_to_sql_def row_of_snoc split: option.split intro!: exI)
next
  case (Some r)
  then have "ping_url p \<in> q_url ` set q" and "q_url r = ping_url p"
    using row_of_Some [OF Some] by (force, simp)
  note taken = this
  have same: "d = d\<lparr>queue_tbl := Some q\<rparr>" using assms(1) by (cases d) simp
  have others: "map_option f (row_of q v) = row_of q v" if "\<And>s. q_url s = v \<Longrightarrow> f s = s" for f v
    using that row_of_Some [of q v] by (cases "row_of q v") auto
  show ?thesis
  proof (cases "ping_reason p = Update")
    case True
    then show ?thesis using assms taken Some same
      by (intro exI [of _ q]) (simp add: add_ping_to_queue_def connect_to_database_def execute_queue_def
        sql_insert_ping_def u64_to_sql_def)
  next
    case False
    then have "ping_reason p = Live \<or> ping_reason p = LiveEnd" by (cases "ping_reason p") simp_all
    then have "fst (add_ping_to_queue e e2 p d) = d\<lparr>queue_tbl := sql_update_ping p q\<rparr>"
      using assms taken by (auto simp: add_ping_to_queue_def update_ping_in_queue_def
        connect_to_database_def execute_queue_def sql_insert_ping_def sql_update_ping_def u64_to_sql_def)
    then show ?thesis using False assms(6) taken Some
      by (auto simp: sql_update_ping_def u64_to_sql_def row_of_map others intro!: exI)
  qed
qed

section \<open>Properties\<close>

text \<open>
  What the route recogniser documents of routes without parameters and wildcards: a path is recognised
  only as a route that was added, equal to it up to one leading slash.
\<close>

definition strip_slash :: "string \<Rightarrow> string" where
  "strip_slash p = (case p of [] \<Rightarrow> [] | c # cs \<Rightarrow> if c = CHR ''/'' then cs else p)"

definition static_routes :: "recognizer \<Rightarrow> bool" where
  "static_routes recognize \<longleftrightarrow> (\<forall>rs path h ps. recognize rs path = Some (h, ps) \<longrightarrow>
     (\<forall>(rt, _) \<in> set rs. CHR '':'' \<notin> set rt \<and> CHR ''*'' \<notin> set rt) \<longrightarrow>
     (\<exists>rt. (rt, h) \<in> set rs \<and> strip_slash rt = strip_slash path))"

lemma ping_route:
  assumes "router_route recognize app_router path meth = (PingH, ps)"
  shows "meth = ''GET''" "recognize [(''/'', PingH), (''/publishers'', PublishersH)] path = Some (PingH, ps)"
    "static_routes recognize \<Longrightarrow> path = ''/'' \<or> path = ''''"
proof -
  show 1: "meth = ''GET''" "recognize [(''/'', PingH), (''/publishers'', PublishersH)] path = Some (PingH, ps)"
    using assms by (auto simp: router_route_def app_router_def router_get_def router_new_def split: option.splits if_splits)
  assume "static_routes recognize"
  with 1(2) have "strip_slash ''/'' = strip_slash path" unfolding static_routes_def by fastforce
  then show "path = ''/'' \<or> path = ''''" by (cases path) (auto simp: strip_slash_def split: if_splits)
qed

text \<open>C1. Guard of the queue: whatever request the router receives, the databases change only when it is
  a GET that was recognised as the ping route (with a recogniser that respects static routes, its
  path is \<^verbatim>\<open>/\<close> or empty), the Authorization header passed one of the two token checks, a
  User-Agent was sent and the url parameter starts with \<^verbatim>\<open>http\<close>; the response is then a 200.\<close>

theorem only_authorised_requests_change_the_queue:
  assumes "route recognize L E st r d = Ret (d', resp)" and "d' \<noteq> d"
  shows "status_code resp = 200
    \<and> req_method r = ''GET''
    \<and> (\<exists>ps. recognize [(''/'', PingH), (''/publishers'', PublishersH)] (req_path r) = Some (PingH, ps))
    \<and> (static_routes recognize \<longrightarrow> req_path r = ''/'' \<or> req_path r = '''')
    \<and> (\<exists>h tok. header r ''authorization'' = Some h \<and> header_to_str L h = Some tok \<and>
         ((\<exists>n. check_auth (auth_env E) tok d = Ret (Ok n)) \<or>
          (\<exists>n. check_auth_hybrid (hybrid_env E) tok d = Ret (Ok n))))
    \<and> header r ''user-agent'' \<noteq> None
    \<and> (\<exists>u. map_of (query_params L r) ''url'' = Some u \<and> starts_with (to_lowercase u) ''http'')"
proof -
  obtain h ps where hp: "router_route recognize app_router (req_path r) (req_method r) = (h, ps)"
    by force
  let ?ctx = "\<lparr>ctx_state = st, ctx_req = r, ctx_params = ps\<rparr>"
  from assms hp have ping: "h = PingH" "ping_handler L E ?ctx d = Ret (d', resp)"
    by (auto simp: route_def Let_def dest: publishers_handler_same_dbs split: handler.splits)
  note at = ping_route [OF hp [unfolded ping(1)]]
  from ping(2) show ?thesis
  proof (cases rule: ping_handler_cases)
    case unchanged
    with assms(2) show ?thesis by simp
  next
    case (stored p)
    moreover from stored(2) have "header r ''user-agent'' \<noteq> None"
      by (auto simp: check_user_agent_def split: option.splits)
    ultimately show ?thesis using at
      by (simp add: authorize_ok check_url_ok store_ping_eq respond_def) blast
  qed
qed

definition demo_lib :: http_lib where
  "demo_lib = \<lparr>header_to_str = Some,
     form_parse = (\<lambda>s. if s = ''u'' then [(''url'', ''http://new''), (''reason'', ''live'')] else []),
     render_template = (\<lambda>doc v. Some doc)\<rparr>"

definition demo_recognize :: recognizer where
  "demo_recognize rs path = map_option (\<lambda>h. (h, [])) (map_of rs path)"

definition demo_req :: "string \<Rightarrow> http_req" where
  "demo_req tok = \<lparr>req_method = ''GET'', req_path = ''/'', req_query = Some ''u'',
     req_headers = [(''authorization'', tok), (''user-agent'', ''curl'')]\<rparr>"

definition demo_req_env :: req_env where
  "demo_req_env = \<lparr>clock_secs = Some 990, home_html = None, auth_env = demo_env,
     hybrid_env = demo_env, insert_env = demo_env, update_env = demo_env\<rparr>"

definition demo_app :: app_state where
  "demo_app = \<lparr>state_thing = ''state'', remote_ip = ''127.0.0.1'', version = ''2''\<rparr>"

lemma demo_http_reason: "reason_from_str ''live'' = Some Live"
  by code_simp

lemma demo_http_url: "starts_with (to_lowercase ''http://new'') ''http''"
  by code_simp

lemma demo_http_check_url:
  "check_url [(''reason'', ''live''), (''url'', ''http://new'')] = Ok ''http://new''"
  by (simp add: check_url_ok demo_http_url)


lemma demo_http_auth: "check_auth demo_env ''Secret^^token12345678'' demo_dbs = Ret (Ok ''acme'')"
  by code_simp

lemma demo_http_route:
  "router_route demo_recognize app_router ''/'' ''GET'' = (PingH, [])"
  by (simp add: router_route_def app_router_def router_get_def router_new_def demo_recognize_def)

lemma demo_http_stored:
  "route demo_recognize demo_lib demo_req_env demo_app (demo_req ''Secret^^token12345678'') demo_dbs =
     Ret (store_ping demo_req_env
       \<lparr>ping_url = ''http://new'', ping_time = 990, ping_reason = Live, ping_medium = Podcast\<rparr> demo_dbs)"
  by (simp add: route_def demo_req_def demo_http_route ping_handler_def demo_req_env_def log_header_def
      header_def query_params_def demo_lib_def or_return_def authorize_def demo_http_auth
      check_user_agent_def demo_http_check_url set_reason_def demo_http_reason
      set_medium_def)

lemma demo_http_changed:
  "fst (store_ping demo_req_env
     \<lparr>ping_url = ''http://new'', ping_time = 990, ping_reason = Live, ping_medium = Podcast\<rparr> demo_dbs) \<noteq> demo_dbs"
  by (simp add: store_ping_eq demo_req_env_def demo_sels demo_queue_def add_ping_to_queue_def
      connect_to_database_def execute_queue_def sql_insert_ping_def u64_to_sql_def)

lemma demo_recognize_static: "static_routes demo_recognize"
proof -
  have "\<exists>rt. (rt, h) \<in> set rs \<and> strip_slash rt = strip_slash path" if "demo_recognize rs path = Some (h, ps)" for rs path h ps
    using that map_of_SomeD [of rs path h] by (auto simp: demo_recognize_def)
  then show ?thesis unfolding static_routes_def by blast
qed

theorem only_authorised_requests_change_the_queue_witness:
  "(\<exists>n. check_auth demo_env ''Secret^^token12345678'' demo_dbs = Ret (Ok n)
     \<or> check_auth_hybrid demo_env ''Secret^^token12345678'' demo_dbs = Ret (Ok n))
   \<and> (req_path (demo_req ''Secret^^token12345678'') = ''/'' \<or> req_path (demo_req ''Secret^^token12345678'') = '''')"
  using only_authorised_requests_change_the_queue [OF demo_http_stored [unfolded store_ping_eq]]
    demo_http_changed demo_recognize_static
  by (auto simp: store_ping_eq demo_req_def header_def demo_lib_def demo_req_env_def)

text \<open>A parameter that may be left out: its default, or what its spelling stands for.\<close>

definition requested :: "(string \<Rightarrow> 'a option) \<Rightarrow> 'a \<Rightarrow> string option \<Rightarrow> 'a option" where
  "requested parse dflt x = (case x of None \<Rightarrow> Some dflt | Some s \<Rightarrow> parse s)"

lemma set_requested:
  "requested reason_from_str (ping_reason p) (map_of params ''reason'') = Some rv \<Longrightarrow> set_reason params p = Ret (p\<lparr>ping_reason := rv\<rparr>)"
  "requested medium_from_str (ping_medium p) (map_of params ''medium'') = Some mv \<Longrightarrow> set_medium params p = Ret (p\<lparr>ping_medium := mv\<rparr>)"
  by (auto simp: requested_def set_reason_def set_medium_def split: option.splits)

text \<open>C19. The whole path of an accepted ping: a request that is recognised as the ping route, with a
  token that either check accepts, a User-Agent and an \<^verbatim>\<open>http\<close> url, whose headers decode and whose
  reason and medium are well spelt or left out (then update and podcast), is answered 200. If the
  database works, the url's row afterwards holds the requested reason and medium and the time of the
  request, and waits to be sent, if it was not in the queue or the reason is live or live end; an
  update for a url that is already there changes nothing; the rows of the other urls are as before.\<close>

theorem valid_request_is_queued:
  assumes "router_route recognize app_router (req_path r) (req_method r) = (PingH, ps)"
    and "clock_secs E = Some now" "uint now < 2 ^ 63"
    and "\<And>ip. header r ''cf-connecting-ip'' = Some ip \<Longrightarrow> header_to_str L ip \<noteq> None"
    and "header r ''authorization'' = Some h" "header_to_str L h = Some tok"
    and "(\<exists>n. check_auth (auth_env E) tok d = Ret (Ok n))
      \<or> (\<exists>e n. check_auth (auth_env E) tok d = Ret (Err e) \<and> check_auth_hybrid (hybrid_env E) tok d = Ret (Ok n))"
    and "header r ''user-agent'' = Some ua" "header_to_str L ua = Some ua'"
    and "map_of (query_params L r) ''url'' = Some u" "starts_with (to_lowercase u) ''http''"
    and "requested reason_from_str Update (map_of (query_params L r) ''reason'') = Some rv"
    and "requested medium_from_str Podcast (map_of (query_params L r) ''medium'') = Some mv"
    and "queue_tbl d = Some q" "can_open (insert_env E)" "stmt_ok (insert_env E)"
      "can_open (update_env E)" "stmt_ok (update_env E)"
  shows "\<exists>q' b. route recognize L E st r d = Ret (d\<lparr>queue_tbl := Some q'\<rparr>, \<lparr>status_code = 200, resp_body = b\<rparr>)
    \<and> (if row_of q u = None \<or> rv \<noteq> Update
       then row_of q' u = Some \<lparr>q_url = u, q_createdon = uint now, q_reason = reason_to_string rv,
              q_medium = medium_to_string mv, q_inflight = 0\<rparr>
       else q' = q)
    \<and> (\<forall>v. v \<noteq> u \<longrightarrow> row_of q' v = row_of q v)"
proof -
  let ?p = "\<lparr>ping_url = u, ping_time = now, ping_reason = rv, ping_medium = mv\<rparr>"
  have ne: "query_params L r \<noteq> []" using assms(10) by auto
  have auth: "authorize L E r d = Ret (Ok ())"
    using assms(5-7) by (auto simp: authorize_ok)
  have url: "check_url (query_params L r) = Ok u"
    using assms(10,11) by (simp add: check_url_ok)
  have log: "log_header L (header r ''cf-connecting-ip'') = Ret ()"
    using assms(4) by (auto simp: log_header_def unwrap_def split: option.split)
  have "route recognize L E st r d = Ret (store_ping E ?p d)"
    using assms(1,2,8,9,12,13) ne auth url log
    by (simp add: route_def ping_handler_def or_return_def check_user_agent_def set_requested)
  moreover have "uint (ping_time ?p) < 2 ^ 63" using assms(3) by simp
  from add_ping_row [OF assms(14-18) this] obtain q' where "fst (add_ping_to_queue (insert_env E) (update_env E) ?p d) = d\<lparr>queue_tbl := Some q'\<rparr>"
    "if row_of q u = None \<or> rv \<noteq> Update then row_of q' u = Some \<lparr>q_url = u, q_createdon = uint now,
        q_reason = reason_to_string rv, q_medium = medium_to_string mv, q_inflight = 0\<rparr> else q' = q"
    "\<forall>v. v \<noteq> u \<longrightarrow> row_of q' v = row_of q v"
    unfolding ping.simps by blast
  ultimately show ?thesis
    by (intro exI [of _ q'] exI [of _ "''Success!''"] conjI) (simp add: store_ping_eq respond_def, assumption+)
qed

theorem valid_request_is_queued_witness:
  "\<exists>q' b. route demo_recognize demo_lib demo_req_env demo_app (demo_req ''Secret^^token12345678'') demo_dbs
      = Ret (demo_dbs\<lparr>queue_tbl := Some q'\<rparr>, \<lparr>status_code = 200, resp_body = b\<rparr>)
    \<and> map_option q_reason (row_of q' ''http://new'') = Some ''Live'' \<and> map_option q_medium (row_of q' ''http://new'') = Some ''Podcast''"
proof -
  have new: "row_of demo_queue ''http://new'' = None" by (simp add: row_of_def demo_queue_def)
  show ?thesis
    using valid_request_is_queued [of demo_recognize "demo_req ''Secret^^token12345678''" "[]" demo_req_env 990
        demo_lib "''Secret^^token12345678''" "''Secret^^token12345678''" demo_dbs "''curl''" "''curl''"
        "''http://new''" Live Podcast demo_queue demo_app] demo_http_auth demo_http_url demo_http_reason new
    by (auto simp: demo_req_def demo_http_route demo_req_env_def header_def query_params_def demo_lib_def
        demo_sels requested_def)
qed

text \<open>A request whose Authorization header is plain ASCII, shorter than 22 bytes and no registered
  token makes the handler panic (the slice of the hybrid check), for any url and on any database
  without a matching publisher; with the panic hook of \<^verbatim>\<open>main\<close> the process exits.\<close>

theorem short_token_panics:
  assumes "router_route recognize app_router (req_path r) (req_method r) = (PingH, ps)"
    and "query_params L r \<noteq> []"
    and "header r ''authorization'' = Some h" "header_to_str L h = Some tok"
    and "ascii_str tok" "length tok < 22"
    and "check_auth (auth_env E) tok d = Ret (Err err)" "can_open (hybrid_env E)"
  shows "route recognize L E st r d = Panic"
proof -
  have "check_auth_hybrid (hybrid_env E) tok d = Panic"
    using assms(5,6,8) by (simp add: check_auth_hybrid_def connect_to_database_def slice_to_ascii)
  then have "authorize L E r d = Panic"
    using assms(3,4,7) by (simp add: authorize_def)
  then show ?thesis
    using assms(1,2)
    by (cases "clock_secs E"; cases "log_header L (header r ''cf-connecting-ip'')")
      (simp_all add: route_def ping_handler_def Let_def or_return_def)
qed

lemma demo_short_auth: "ascii_str ''nope'' \<and>
    check_auth demo_env ''nope'' demo_dbs = Ret (Err (HydraError ''No publisher match found for: [nope].''))"
  by code_simp

theorem short_token_panics_witness:
  "route demo_recognize demo_lib demo_req_env demo_app (demo_req ''nope'') demo_dbs = Panic"
  using short_token_panics [of demo_recognize "demo_req ''nope''" "[]" demo_lib "''nope''" "''nope''"
      demo_req_env demo_dbs "HydraError ''No publisher match found for: [nope].''" demo_app] demo_short_auth
  by (simp add: demo_req_def demo_http_route demo_req_env_def header_def query_params_def demo_lib_def
      demo_env_def)

end
