(* ===== verification/Frontend.thy ===== *)
theory Frontend
  imports Handler
begin

text \<open>
  The queue thread of the front-end (\<^verbatim>\<open>podping/src/main.rs\<close>): the loop that fetches pings, sends
  them to the hive-writer and the gossip-writer over ZMQ, marks or removes them, and handles the
  replies (\<^verbatim>\<open>receive_messages\<close>). The Cap'n Proto library is a parameter (record \<open>capnp_lib\<close>); a
  reader that fails to decode returns \<open>None\<close>, which the code unwraps. Sockets are the lists of
  messages waiting in them and sent through them. The environment of an iteration says which sends
  succeed, which messages arrive between two steps and which operations the HTTP handlers run on the
  database between two steps, so the interleaving of the two threads is explicit.
\<close>

section \<open>Messages\<close>

datatype podping_reason = PodpingUpdate | PodpingLive | PodpingLiveEnd

datatype podping_medium =
    PodpingPodcast | PodpingPodcastL | PodpingMusic | PodpingMusicL | PodpingVideo | PodpingVideoL
  | PodpingFilm | PodpingFilmL | PodpingAudiobook | PodpingAudiobookL | PodpingNewsletter
  | PodpingNewsletterL | PodpingBlog | PodpingBlogL | PodpingPublisher | PodpingPublisherL
  | PodpingCourse | PodpingCourseL

fun pp_reason :: "reason \<Rightarrow> podping_reason" where
  "pp_reason Live = PodpingLive"
| "pp_reason LiveEnd = PodpingLiveEnd"
| "pp_reason Update = PodpingUpdate"

fun pp_medium :: "medium \<Rightarrow> podping_medium" where
  "pp_medium Podcast = PodpingPodcast"
| "pp_medium PodcastL = PodpingPodcastL"
| "pp_medium Music = PodpingMusic"
| "pp_medium MusicL = PodpingMusicL"
| "pp_medium Video = PodpingVideo"
| "pp_medium VideoL = PodpingVideoL"
| "pp_medium Film = PodpingFilm"
| "pp_medium FilmL = PodpingFilmL"
| "pp_medium Audiobook = PodpingAudiobook"
| "pp_medium AudiobookL = PodpingAudiobookL"
| "pp_medium Newsletter = PodpingNewsletter"
| "pp_medium NewsletterL = PodpingNewsletterL"
| "pp_medium Blog = PodpingBlog"
| "pp_medium BlogL = PodpingBlogL"
| "pp_medium Publisher = PodpingPublisher"
| "pp_medium PublisherL = PodpingPublisherL"
| "pp_medium Course = PodpingCourse"
| "pp_medium CourseL = PodpingCourseL"

text \<open>
  A transaction reply: per podping its iris (\<open>None\<close> for a list or a text that cannot be read),
  whether the transaction id reads, and the block number.
\<close>

record hive_tx =
  tx_podpings :: "string option list option list option"
  tx_id_reads :: bool
  tx_block_num :: u64

text \<open>A write error reply: the podping attached to it, if any, and its iri, if any.\<close>

type_synonym write_error = "string option option option"

record capnp_lib =
  read_plexo :: "string \<Rightarrow> (string \<times> string option) option"
  read_write_error :: "string \<Rightarrow> write_error option"
  read_hive_tx :: "string \<Rightarrow> hive_tx option"
  write_podping :: "string \<Rightarrow> podping_reason \<Rightarrow> podping_medium \<Rightarrow> string"
  write_plexo :: "string \<Rightarrow> string \<Rightarrow> string"

definition WRITE_ERROR_TYPE :: string where
  "WRITE_ERROR_TYPE = ''org.podcastindex.podping.hivewriter.PodpingWriteError.capnp''"

definition WRITE_TYPE :: string where
  "WRITE_TYPE = ''org.podcastindex.podping.hivewriter.PodpingWrite.capnp''"

definition encode_ping :: "capnp_lib \<Rightarrow> ping \<Rightarrow> string" where
  "encode_ping C p = write_plexo C WRITE_TYPE
     (write_podping C (ping_url p) (pp_reason (ping_reason p)) (pp_medium (ping_medium p)))"

section \<open>Receiving replies\<close>

text \<open>Deletions one after another, each on its own connection, up to a text that cannot be read.\<close>

fun delete_iris :: "(nat \<Rightarrow> db_env) \<Rightarrow> nat \<Rightarrow> string option list \<Rightarrow> dbs \<Rightarrow> dbs \<times> nat \<times> bool" where
  "delete_iris E k [] d = (d, k, True)"
| "delete_iris E k (None # us) d = (d, k, False)"
| "delete_iris E k (Some u # us) d =
     delete_iris E (Suc k) us (fst (delete_ping_from_queue (E k) u d))"

definition tx_iris :: "string option list option list \<Rightarrow> string option list" where
  "tx_iris pps = concat (map (\<lambda>pp. case pp of None \<Rightarrow> [None] | Some us \<Rightarrow> us) pps)"

text \<open>
  \<^verbatim>\<open>receive_messages\<close>: the database after it, the number of the next connection, and the result
  (a panic or the flag that tells the caller to go on receiving).
\<close>

definition receive_messages :: "capnp_lib \<Rightarrow> (nat \<Rightarrow> db_env) \<Rightarrow> nat \<Rightarrow> string option \<Rightarrow> dbs
    \<Rightarrow> dbs \<times> nat \<times> bool outcome" where
  "receive_messages C E k msg d =
     (case msg of
        None \<Rightarrow> (d, k, Ret False)
      | Some m \<Rightarrow>
          (case read_plexo C m of
             None \<Rightarrow> (d, k, Panic)
           | Some (ty, None) \<Rightarrow> (d, k, Panic)
           | Some (ty, Some payload) \<Rightarrow>
               if ty = WRITE_ERROR_TYPE then
                 (case read_write_error C payload of
                    None \<Rightarrow> (d, k, Panic)
                  | Some None \<Rightarrow> (d, k, Ret False)
                  | Some (Some None) \<Rightarrow> (d, k, Ret False)
                  | Some (Some (Some iri)) \<Rightarrow>
                      (case delete_iris E k [iri] d of
                         (d', k', ok) \<Rightarrow> (d', k', if ok then Ret False else Panic)))
               else
                 (case read_hive_tx C payload of
                    None \<Rightarrow> (d, k, Panic)
                  | Some tx \<Rightarrow>
                      (case tx_podpings tx of
                         None \<Rightarrow> (d, k, Ret True)
                       | Some pps \<Rightarrow>
                           if \<not> tx_id_reads tx then (d, k, Panic)
                           else if tx_block_num tx = 0 then (d, k, Ret False)
                           else (case delete_iris E k (tx_iris pps) d of
                                   (d', k', ok) \<Rightarrow> (d', k', if ok then Ret True else Panic))))))"

text \<open>\<^verbatim>\<open>while receive_messages(gsock) {}\<close> on the messages that wait in the socket.\<close>

fun drain_messages :: "capnp_lib \<Rightarrow> (nat \<Rightarrow> db_env) \<Rightarrow> nat \<Rightarrow> string list \<Rightarrow> dbs
    \<Rightarrow> dbs \<times> nat \<times> string list \<times> bool" where
  "drain_messages C E k [] d = (d, k, [], True)"
| "drain_messages C E k (m # ms) d =
     (case receive_messages C E k (Some m) d of
        (d', k', Panic) \<Rightarrow> (d', k', ms, False)
      | (d', k', Ret True) \<Rightarrow> drain_messages C E k' ms d'
      | (d', k', Ret False) \<Rightarrow> (d', k', ms, True))"

section \<open>The queue loop\<close>

record fe_state =
  fe_dbs :: dbs
  fe_conn :: nat
  hive_inbox :: "string list"
  gossip_inbox :: "string list"
  hive_outbox :: "string list"
  gossip_outbox :: "string list"
  total_sent :: u64
  fe_running :: bool

record fe_config =
  ephemeral :: bool
  gossip_enabled :: bool

record fe_env =
  conn_env :: "nat \<Rightarrow> db_env"
  hive_send_ok :: "nat \<Rightarrow> bool"
  gossip_send_ok :: "nat \<Rightarrow> bool"
  hive_arrive :: "nat \<Rightarrow> string list"
  gossip_arrive :: "nat \<Rightarrow> string list"
  http_ops :: "nat \<Rightarrow> db_op list"
  reset_choice :: "string set"

text \<open>What happens outside the thread before its step \<open>k\<close>.\<close>

definition interleave :: "fe_env \<Rightarrow> nat \<Rightarrow> fe_state \<Rightarrow> fe_state" where
  "interleave X k s = s\<lparr>fe_dbs := run_ops (http_ops X k) (fe_dbs s),
     hive_inbox := hive_inbox s @ hive_arrive X k, gossip_inbox := gossip_inbox s @ gossip_arrive X k\<rparr>"

text \<open>One receive on the hive socket, then the gossip socket drained.\<close>

definition receive_both :: "capnp_lib \<Rightarrow> fe_config \<Rightarrow> fe_env \<Rightarrow> fe_state \<Rightarrow> fe_state" where
  "receive_both C cfg X s =
     (case receive_messages C (conn_env X) (fe_conn s)
             (case hive_inbox s of [] \<Rightarrow> None | m # _ \<Rightarrow> Some m) (fe_dbs s) of
        (d1, k1, Panic) \<Rightarrow> s\<lparr>fe_dbs := d1, fe_conn := k1, hive_inbox := tl (hive_inbox s), fe_running := False\<rparr>
      | (d1, k1, Ret _) \<Rightarrow>
          let s1 = s\<lparr>fe_dbs := d1, fe_conn := k1, hive_inbox := tl (hive_inbox s)\<rparr>
          in if gossip_enabled cfg then
               (case drain_messages C (conn_env X) k1 (gossip_inbox s) d1 of
                  (d2, k2, ms, ok) \<Rightarrow>
                    s1\<lparr>fe_dbs := d2, fe_conn := k2, gossip_inbox := ms, fe_running := ok\<rparr>)
             else s1)"

text \<open>After a successful send: in ephemeral mode the row is removed, else marked in flight.\<close>

definition mark_sent :: "fe_config \<Rightarrow> fe_env \<Rightarrow> ping \<Rightarrow> fe_state \<Rightarrow> fe_state" where
  "mark_sent cfg X p s =
     s\<lparr>fe_dbs := (if ephemeral cfg
                  then fst (delete_ping_from_queue (conn_env X (fe_conn s)) (ping_url p) (fe_dbs s))
                  else fst (set_ping_as_inflight (conn_env X (fe_conn s)) p (fe_dbs s))),
       fe_conn := Suc (fe_conn s)\<rparr>"

text \<open>The gossip send is fire and forget.\<close>

definition send_gossip :: "capnp_lib \<Rightarrow> fe_config \<Rightarrow> fe_env \<Rightarrow> nat \<Rightarrow> ping \<Rightarrow> fe_state \<Rightarrow> fe_state" where
  "send_gossip C cfg X k p s =
     (if gossip_enabled cfg \<and> gossip_send_ok X k
      then s\<lparr>gossip_outbox := gossip_outbox s @ [encode_ping C p]\<rparr> else s)"

text \<open>A successful send to the hive-writer and what follows it.\<close>

definition sent_hive :: "capnp_lib \<Rightarrow> fe_config \<Rightarrow> fe_env \<Rightarrow> ping \<Rightarrow> fe_state \<Rightarrow> fe_state" where
  "sent_hive C cfg X p s =
     receive_both C cfg X (mark_sent cfg X p (s\<lparr>hive_outbox := hive_outbox s @ [encode_ping C p]\<rparr>))"

text \<open>
  The sends of one iteration, \<open>k\<close> of them done. A failed send replaces the hive socket (what waited
  in the old one is gone) and leaves the loop.
\<close>

fun send_pings :: "capnp_lib \<Rightarrow> fe_config \<Rightarrow> fe_env \<Rightarrow> nat \<Rightarrow> ping list \<Rightarrow> fe_state \<Rightarrow> nat \<times> fe_state" where
  "send_pings C cfg X k [] s = (k, s)"
| "send_pings C cfg X k (p # ps) s =
     (let s1 = send_gossip C cfg X k p (interleave X (Suc k) s)
      in if hive_send_ok X k then
           let s2 = sent_hive C cfg X p s1
           in if fe_running s2
              then send_pings C cfg X (Suc k) ps (s2\<lparr>total_sent := total_sent s2 + 1\<rparr>)
              else (k, s2)
         else (k, s1\<lparr>hive_inbox := []\<rparr>))"

text \<open>Old in-flight rows are reset only after a slow iteration, and never in ephemeral mode.\<close>

definition reset_old :: "fe_config \<Rightarrow> fe_env \<Rightarrow> nat \<Rightarrow> fe_state \<Rightarrow> fe_state" where
  "reset_old cfg X sent s =
     (if \<not> ephemeral cfg \<and> sent < 25
      then s\<lparr>fe_dbs := fst (reset_pings_in_flight (conn_env X (fe_conn s)) (reset_choice X) (fe_dbs s)),
             fe_conn := Suc (fe_conn s)\<rparr>
      else s)"

definition queue_iteration :: "capnp_lib \<Rightarrow> fe_config \<Rightarrow> fe_env \<Rightarrow> fe_state \<Rightarrow> fe_state" where
  "queue_iteration C cfg X s =
     (let s1 = receive_both C cfg X (interleave X 0 s)
      in if \<not> fe_running s1 then s1
         else
           let e = conn_env X (fe_conn s1); s1' = s1\<lparr>fe_conn := Suc (fe_conn s1)\<rparr>
           in (case get_pings_from_queue e False (fe_dbs s1) of
                 Panic \<Rightarrow> s1'\<lparr>fe_running := False\<rparr>
               | Ret (Inl err) \<Rightarrow> reset_old cfg X 0 s1'
               | Ret (Inr pings) \<Rightarrow>
                   (case send_pings C cfg X 0 pings s1' of
                      (sent, s2) \<Rightarrow> if fe_running s2 then reset_old cfg X sent s2 else s2)))"

text \<open>The loop over a sequence of environments; a panic ends it (the hook exits the process).\<close>

fun queue_loop :: "capnp_lib \<Rightarrow> fe_config \<Rightarrow> fe_env list \<Rightarrow> fe_state \<Rightarrow> fe_state" where
  "queue_loop C cfg [] s = s"
| "queue_loop C cfg (X # Xs) s =
     (if fe_running s then queue_loop C cfg Xs (queue_iteration C cfg X s) else s)"

section \<open>Which replies remove a url\<close>

definition msg_iris :: "capnp_lib \<Rightarrow> string \<Rightarrow> string option list" where
  "msg_iris C m =
     (case read_plexo C m of
        Some (ty, Some payload) \<Rightarrow>
          if ty = WRITE_ERROR_TYPE
          then (case read_write_error C payload of Some (Some (Some iri)) \<Rightarrow> [iri] | _ \<Rightarrow> [])
          else (case read_hive_tx C payload of
                  Some tx \<Rightarrow> (case tx_podpings tx of Some pps \<Rightarrow> tx_iris pps | None \<Rightarrow> []) | None \<Rightarrow> [])
      | _ \<Rightarrow> [])"

definition acks :: "capnp_lib \<Rightarrow> string \<Rightarrow> string \<Rightarrow> bool" where
  "acks C u m \<longleftrightarrow> Some u \<in> set (msg_iris C m)"

definition no_ack :: "capnp_lib \<Rightarrow> string \<Rightarrow> string list \<Rightarrow> bool" where
  "no_ack C u ms \<longleftrightarrow> list_all (\<lambda>m. \<not> acks C u m) ms"

lemma no_ack_simps [simp]:
  "no_ack C u []" "no_ack C u (m # ms) \<longleftrightarrow> \<not> acks C u m \<and> no_ack C u ms"
  "no_ack C u (xs @ ys) \<longleftrightarrow> no_ack C u xs \<and> no_ack C u ys"
  by (auto simp: no_ack_def)

lemma no_ack_tl: "no_ack C u ms \<Longrightarrow> no_ack C u (tl ms)"
  by (cases ms) auto

text \<open>The url is in the queue and the queue is well formed.\<close>

definition safe :: "string \<Rightarrow> dbs \<Rightarrow> bool" where
  "safe u d \<longleftrightarrow> dbs_wf d \<and> status d u \<noteq> Absent"

lemma safe_apply_op:
  "safe u d \<Longrightarrow> op_env_wf op \<Longrightarrow> \<nexists>e. op = DeletePing e u \<Longrightarrow> safe u (apply_op op d)"
  using life_present [OF apply_op_life [of d op u]] by (auto simp: safe_def intro: apply_op_wf)

lemma safe_delete_other: "safe u d \<Longrightarrow> u \<noteq> v \<Longrightarrow> safe u (fst (delete_ping_from_queue e v d))"
  using safe_apply_op [of u d "DeletePing e v"] by simp

lemma safe_set_inflight: "safe u d \<Longrightarrow> safe u (fst (set_ping_as_inflight e p d))"
  using safe_apply_op [of u d "MarkInflight e p"] by simp

lemma safe_reset: "safe u d \<Longrightarrow> env_wf e \<Longrightarrow> safe u (fst (reset_pings_in_flight e c d))"
  using safe_apply_op [of u d "ResetInflight e c"] by simp

lemma safe_run_ops:
  "safe u d \<Longrightarrow> list_all op_env_wf ops \<Longrightarrow> \<forall>e. DeletePing e u \<notin> set ops \<Longrightarrow> safe u (run_ops ops d)"
  by (simp add: safe_def run_ops_present run_ops_wf)

lemma safe_delete_iris: "safe u d \<Longrightarrow> Some u \<notin> set us \<Longrightarrow> safe u (fst (delete_iris E k us d))"
  by (induction E k us d rule: delete_iris.induct) (auto intro: safe_delete_other)

lemma receive_messages_state:
  "fst (receive_messages C E k (Some m) d) = d
   \<or> fst (receive_messages C E k (Some m) d) = fst (delete_iris E k (msg_iris C m) d)"
  by (simp add: receive_messages_def msg_iris_def split: option.splits prod.splits)

lemma safe_receive:
  "safe u d \<Longrightarrow> case_option True (\<lambda>m. \<not> acks C u m) msg \<Longrightarrow> safe u (fst (receive_messages C E k msg d))"
proof (cases msg)
  case None
  then show "safe u d \<Longrightarrow> ?thesis" by (simp add: receive_messages_def)
next
  case (Some m)
  then show "safe u d \<Longrightarrow> case_option True (\<lambda>m. \<not> acks C u m) msg \<Longrightarrow> ?thesis"
    using receive_messages_state [of C E k m d] safe_delete_iris [of u d "msg_iris C m" E k]
    by (auto simp: acks_def)
qed

lemma safe_drain:
  "safe u d \<Longrightarrow> no_ack C u ms \<Longrightarrow>
   safe u (fst (drain_messages C E k ms d)) \<and> no_ack C u (fst (snd (snd (drain_messages C E k ms d))))"
proof (induction C E k ms d rule: drain_messages.induct)
  case (2 C E k m ms d)
  from safe_receive [of u d C "Some m" E k] 2(2,3) have
    "safe u (fst (receive_messages C E k (Some m) d))" by simp
  with 2 show ?case
    by (auto split: prod.splits outcome.splits bool.splits)
qed simp

definition fe_safe :: "capnp_lib \<Rightarrow> string \<Rightarrow> fe_state \<Rightarrow> bool" where
  "fe_safe C u s \<longleftrightarrow> safe u (fe_dbs s) \<and> no_ack C u (hive_inbox s) \<and> no_ack C u (gossip_inbox s)"

text \<open>The environment sends no reply for the url and no other thread deletes it.\<close>

definition env_no_ack :: "capnp_lib \<Rightarrow> string \<Rightarrow> fe_env \<Rightarrow> bool" where
  "env_no_ack C u X \<longleftrightarrow>
     (\<forall>k. env_wf (conn_env X k) \<and> no_ack C u (hive_arrive X k) \<and> no_ack C u (gossip_arrive X k)
        \<and> list_all op_env_wf (http_ops X k) \<and> (\<forall>e. DeletePing e u \<notin> set (http_ops X k)))"

lemma fe_safe_interleave: "fe_safe C u s \<Longrightarrow> env_no_ack C u X \<Longrightarrow> fe_safe C u (interleave X k s)"
  by (auto simp: fe_safe_def interleave_def env_no_ack_def intro: safe_run_ops)

lemma fe_safe_receive_both:
  assumes "fe_safe C u s"
  shows "fe_safe C u (receive_both C cfg X s)"
proof -
  let ?msg = "case hive_inbox s of [] \<Rightarrow> None | m # _ \<Rightarrow> Some m"
  obtain d1 k1 r where rm: "receive_messages C (conn_env X) (fe_conn s) ?msg (fe_dbs s) = (d1, k1, r)"
    using prod_cases3 by blast
  have d1: "safe u d1"
    using safe_receive [of u "fe_dbs s" C ?msg "conn_env X" "fe_conn s"] assms rm
    by (auto simp: fe_safe_def split: list.splits)
  obtain d2 k2 ms ok where dr: "drain_messages C (conn_env X) k1 (gossip_inbox s) d1 = (d2, k2, ms, ok)"
    using prod_cases4 by blast
  have "safe u d2 \<and> no_ack C u ms"
    using safe_drain [OF d1, of C "gossip_inbox s" "conn_env X" k1] assms dr by (simp add: fe_safe_def)
  with d1 assms rm dr show ?thesis
    by (cases r) (auto simp: receive_both_def fe_safe_def Let_def intro: no_ack_tl)
qed

lemma fe_safe_mark_sent: "fe_safe C u s \<Longrightarrow> \<not> ephemeral cfg \<Longrightarrow> fe_safe C u (mark_sent cfg X p s)"
  by (simp add: fe_safe_def mark_sent_def safe_set_inflight)

lemma fe_safe_frame:
  "fe_safe C u (s\<lparr>gossip_outbox := x\<rparr>) = fe_safe C u s" "fe_safe C u (s\<lparr>hive_outbox := x\<rparr>) = fe_safe C u s"
  "fe_safe C u (s\<lparr>total_sent := t\<rparr>) = fe_safe C u s" "fe_safe C u (s\<lparr>fe_running := b\<rparr>) = fe_safe C u s"
  "fe_safe C u (s\<lparr>fe_conn := k\<rparr>) = fe_safe C u s" "fe_safe C u s \<Longrightarrow> fe_safe C u (s\<lparr>hive_inbox := []\<rparr>)"
  by (simp_all add: fe_safe_def)

lemma fe_safe_send_steps:
  "fe_safe C u s \<Longrightarrow> fe_safe C u (send_gossip C cfg X k p s)"
  "fe_safe C u s \<Longrightarrow> \<not> ephemeral cfg \<Longrightarrow> fe_safe C u (sent_hive C cfg X p s)"
  by (simp_all add: send_gossip_def sent_hive_def fe_safe_frame fe_safe_receive_both fe_safe_mark_sent)

lemma fe_safe_send_pings:
  "fe_safe C u s \<Longrightarrow> env_no_ack C u X \<Longrightarrow> \<not> ephemeral cfg \<Longrightarrow>
   fe_safe C u (snd (send_pings C cfg X k ps s))"
  by (induction C cfg X k ps s rule: send_pings.induct)
    (auto simp: Let_def fe_safe_frame fe_safe_interleave fe_safe_send_steps)

lemma fe_safe_reset_old: "fe_safe C u s \<Longrightarrow> env_no_ack C u X \<Longrightarrow> fe_safe C u (reset_old cfg X n s)"
  by (simp add: fe_safe_def env_no_ack_def safe_reset reset_old_def)

lemma fe_safe_iteration:
  assumes "fe_safe C u s" and "env_no_ack C u X" and "\<not> ephemeral cfg"
  shows "fe_safe C u (queue_iteration C cfg X s)"
proof -
  let ?s1 = "receive_both C cfg X (interleave X 0 s)"
  have 1: "fe_safe C u ?s1"
    by (intro fe_safe_receive_both fe_safe_interleave assms)
  have 2: "fe_safe C u s2" if "send_pings C cfg X 0 ps (?s1\<lparr>fe_conn := m\<rparr>) = (n, s2)" for ps m n s2
    using fe_safe_send_pings [of C u "?s1\<lparr>fe_conn := m\<rparr>" X cfg 0 ps] 1 assms(2,3) that
    by (simp add: fe_safe_frame)
  note reset = fe_safe_reset_old [OF _ assms(2)]
  show ?thesis
  proof (cases "get_pings_from_queue (conn_env X (fe_conn ?s1)) False (fe_dbs ?s1)")
    case (Ret r)
    then show ?thesis
      using 1 by (cases r)
        (auto simp: queue_iteration_def Let_def fe_safe_frame intro!: reset dest: 2 split: prod.splits)
  qed (use 1 in \<open>simp add: queue_iteration_def Let_def fe_safe_frame\<close>)
qed

lemma fe_safe_loop:
  "fe_safe C u s \<Longrightarrow> list_all (env_no_ack C u) Xs \<Longrightarrow> \<not> ephemeral cfg \<Longrightarrow> fe_safe C u (queue_loop C cfg Xs s)"
  by (induction Xs arbitrary: s) (auto intro: fe_safe_iteration)

section \<open>Order of the sends\<close>

lemma receive_both_outbox [simp]: "hive_outbox (receive_both C cfg X s) = hive_outbox s"
  by (simp add: receive_both_def Let_def split: prod.splits outcome.splits)

lemma frame_outbox [simp]: "hive_outbox (interleave X k s) = hive_outbox s" "hive_outbox (mark_sent cfg X p s) = hive_outbox s"
  by (simp_all add: interleave_def mark_sent_def)

lemma send_frames [simp]:
  "hive_outbox (send_gossip C cfg X k p s) = hive_outbox s"
  "hive_outbox (sent_hive C cfg X p s) = hive_outbox s @ [encode_ping C p]"
  by (simp_all add: send_gossip_def sent_hive_def)

lemma send_pings_outbox:
  assumes "send_pings C cfg X k ps s = (n, s')"
  shows "\<exists>m \<le> length ps. hive_outbox s' = hive_outbox s @ map (encode_ping C) (take m ps) \<and>
     (fe_running s' \<longrightarrow> (\<forall>i. hive_send_ok X i) \<longrightarrow> m = length ps)"
  using assms
proof (induction ps arbitrary: k s)
  case (Cons p ps)
  let ?s1 = "send_gossip C cfg X k p (interleave X (Suc k) s)"
  let ?s2 = "sent_hive C cfg X p ?s1"
  consider "\<not> hive_send_ok X k" | "hive_send_ok X k" "\<not> fe_running ?s2" | "hive_send_ok X k" "fe_running ?s2"
    by blast
  then show ?case
  proof cases
    case 1
    with Cons.prems have "s' = ?s1\<lparr>hive_inbox := []\<rparr>" by (auto simp: Let_def)
    with 1 show ?thesis by (intro exI [of _ 0]) auto
  next
    case 2
    with Cons.prems have "s' = ?s2" by (auto simp: Let_def)
    with 2 show ?thesis by (intro exI [of _ 1]) auto
  next
    case 3
    with Cons.prems have "send_pings C cfg X (Suc k) ps (?s2\<lparr>total_sent := total_sent ?s2 + 1\<rparr>) = (n, s')"
      by (simp add: Let_def)
    from Cons.IH [OF this] obtain m where "m \<le> length ps"
      "hive_outbox s' = hive_outbox s @ encode_ping C p # map (encode_ping C) (take m ps)"
      "fe_running s' \<longrightarrow> (\<forall>i. hive_send_ok X i) \<longrightarrow> m = length ps" by auto
    then show ?thesis by (intro exI [of _ "Suc m"]) auto
  qed
qed simp

lemma reset_old_frame [simp]:
  "hive_outbox (reset_old cfg X n s) = hive_outbox s" "fe_running (reset_old cfg X n s) = fe_running s"
  by (simp_all add: reset_old_def)

section \<open>Properties\<close>

text \<open>C3. Durability of the queue under the sending thread: outside ephemeral mode, whatever sends
  fail, sockets are replaced, connections fail or replies are garbage, and however the HTTP handlers
  interleave, a url in the queue is still in it after any number of iterations if no writer reply
  names it.\<close>

theorem unacknowledged_ping_survives:
  assumes "dbs_wf (fe_dbs s)" and "status (fe_dbs s) u \<noteq> Absent"
    and "no_ack C u (hive_inbox s)" "no_ack C u (gossip_inbox s)"
    and "list_all (env_no_ack C u) Xs" and "\<not> ephemeral cfg"
  shows "status (fe_dbs (queue_loop C cfg Xs s)) u \<noteq> Absent"
  using fe_safe_loop [of C u s Xs cfg] assms by (simp add: fe_safe_def safe_def)

definition demo_capnp :: capnp_lib where
  "demo_capnp = \<lparr>read_plexo = (\<lambda>m. if m = ''ack'' then Some (''tx'', Some ''p'') else None),
     read_write_error = (\<lambda>_. None),
     read_hive_tx = (\<lambda>_. Some \<lparr>tx_podpings = Some [Some [Some ''http://c'']], tx_id_reads = True, tx_block_num = 7\<rparr>),
     write_podping = (\<lambda>u r m. u), write_plexo = (\<lambda>t p. p)\<rparr>"

definition demo_fe_env :: fe_env where
  "demo_fe_env = \<lparr>conn_env = (\<lambda>_. demo_env), hive_send_ok = (\<lambda>_. False), gossip_send_ok = (\<lambda>_. True),
     hive_arrive = (\<lambda>_. [''ack'']), gossip_arrive = (\<lambda>_. []), http_ops = (\<lambda>_. []), reset_choice = {}\<rparr>"

definition demo_fe_state :: fe_state where
  "demo_fe_state = \<lparr>fe_dbs = demo_dbs, fe_conn = 0, hive_inbox = [], gossip_inbox = [], hive_outbox = [],
     gossip_outbox = [], total_sent = 0, fe_running = True\<rparr>"

theorem unacknowledged_ping_survives_witness:
  "status (fe_dbs (queue_loop demo_capnp \<lparr>ephemeral = False, gossip_enabled = True\<rparr> [demo_fe_env, demo_fe_env]
     demo_fe_state)) ''http://b'' \<noteq> Absent"
  by (rule unacknowledged_ping_survives)
    (use demo_dbs_wf in \<open>simp_all add: demo_fe_state_def demo_fe_env_def env_no_ack_def env_wf_def demo_env_def
      acks_def msg_iris_def demo_capnp_def tx_iris_def WRITE_ERROR_TYPE_def status_def row_of_def row_status_def
      demo_dbs_def demo_queue_def\<close>)

text \<open>The writer receives the batch in the order of the fetch: after an iteration whose fetch
  returned \<open>pings\<close>, the hive socket has been given exactly a prefix of their encodings, each once and
  in order, and all of them when every send succeeded and nothing panicked.\<close>

theorem writer_receives_batch_in_order:
  assumes "fe_running (receive_both C cfg X (interleave X 0 s))"
    and "get_pings_from_queue (conn_env X (fe_conn (receive_both C cfg X (interleave X 0 s)))) False
          (fe_dbs (receive_both C cfg X (interleave X 0 s))) = Ret (Ok pings)"
  shows "\<exists>m \<le> length pings.
     hive_outbox (queue_iteration C cfg X s) = hive_outbox s @ map (encode_ping C) (take m pings) \<and>
     (fe_running (queue_iteration C cfg X s) \<longrightarrow> (\<forall>i. hive_send_ok X i) \<longrightarrow> m = length pings)"
proof -
  let ?s1 = "receive_both C cfg X (interleave X 0 s)"
  obtain n s2 where send: "send_pings C cfg X 0 pings (?s1\<lparr>fe_conn := Suc (fe_conn ?s1)\<rparr>) = (n, s2)"
    by force
  then have it: "queue_iteration C cfg X s = (if fe_running s2 then reset_old cfg X n s2 else s2)"
    using assms by (simp add: queue_iteration_def Let_def)
  from send_pings_outbox [OF send] show ?thesis by (cases "fe_running s2") (simp_all add: it)
qed

lemma demo_fe_start:
  "receive_both demo_capnp \<lparr>ephemeral = False, gossip_enabled = False\<rparr> demo_fe_env
     (interleave demo_fe_env 0 demo_fe_state) =
   demo_fe_state\<lparr>fe_dbs := demo_dbs\<lparr>queue_tbl := Some (take 2 demo_queue)\<rparr>, fe_conn := 1\<rparr>"
  by (simp add: receive_both_def interleave_def demo_fe_env_def demo_fe_state_def receive_messages_def
      demo_capnp_def WRITE_ERROR_TYPE_def tx_iris_def fst_delete_ping_from_queue demo_env_def
      execute_queue_def demo_dbs_def demo_queue_def sql_delete_ping_def)

lemma demo_fe_fetch:
  "\<exists>ps. get_pings_from_queue demo_env False (demo_dbs\<lparr>queue_tbl := Some (take 2 demo_queue)\<rparr>) = Ret (Ok ps)"
proof -
  have "queue_wf (take 2 demo_queue)"
    by (simp add: queue_wf_def row_wf_def demo_queue_def all_reasons_def all_media_def)
  from get_pings_wf [OF this, of "demo_dbs\<lparr>queue_tbl := Some (take 2 demo_queue)\<rparr>" demo_env False]
  show ?thesis by (auto simp: demo_env_def)
qed

theorem writer_receives_batch_in_order_witness:
  "\<exists>ps m. hive_outbox (queue_iteration demo_capnp \<lparr>ephemeral = False, gossip_enabled = False\<rparr> demo_fe_env demo_fe_state)
     = map (encode_ping demo_capnp) (take m ps)"
proof -
  from demo_fe_fetch obtain ps where
    ps: "get_pings_from_queue demo_env False (demo_dbs\<lparr>queue_tbl := Some (take 2 demo_queue)\<rparr>) = Ret (Ok ps)"
    by blast
  have env: "conn_env demo_fe_env k = demo_env" for k by (simp add: demo_fe_env_def)
  have out: "hive_outbox demo_fe_state = []" "fe_running demo_fe_state" by (simp_all add: demo_fe_state_def)
  from writer_receives_batch_in_order [of demo_capnp "\<lparr>ephemeral = False, gossip_enabled = False\<rparr>"
      demo_fe_env demo_fe_state ps] ps show ?thesis
    by (auto simp: demo_fe_start env out)
qed

text \<open>C37. A reply names a url, not a version of it: a transaction reply that lists a url removes its
  row whatever happened since the send. A live ping accepted for the url after its update was sent is
  removed by the reply to the update, without having been sent.\<close>

theorem late_reply_removes_newer_ping:
  assumes "status d u = InFlight r" and "ping_url p = u" and "ping_reason p = Live" "uint (ping_time p) < 2 ^ 63"
    and "queue_tbl d = Some q" "can_open e" "stmt_ok e" "can_open e2" "stmt_ok e2"
    and "read_plexo C m = Some (ty, Some payload)" "ty \<noteq> WRITE_ERROR_TYPE"
    and "read_hive_tx C payload = Some tx" "tx_podpings tx = Some [Some [Some u]]" "tx_id_reads tx" "tx_block_num tx \<noteq> 0"
    and "can_open (E k)" "stmt_ok (E k)"
  shows "let d1 = apply_op (AddPing e e2 p) d
    in status d1 u = Queued ''Live'' \<and> status (fst (receive_messages C E k (Some m) d1)) u = Absent"
proof -
  let ?d1 = "fst (add_ping_to_queue e e2 p d)"
  have 1: "status ?d1 u = Queued ''Live''"
    using add_ping_status [OF assms(5-9) assms(4)] assms(2,3) by simp
  have "fst (receive_messages C E k (Some m) ?d1) = fst (delete_ping_from_queue (E k) u ?d1)"
    using assms(10-15) by (simp add: receive_messages_def tx_iris_def)
  moreover have "status (fst (delete_ping_from_queue (E k) u ?d1)) u = Absent"
    using 1 assms(16,17)
    by (auto simp: fst_delete_ping_from_queue execute_queue_def sql_delete_ping_def status_def row_of_delete
        split: option.splits)
  ultimately show ?thesis using 1 by (simp add: Let_def)
qed

theorem late_reply_removes_newer_ping_witness:
  "let d1 = apply_op (AddPing demo_env demo_env
       \<lparr>ping_url = ''http://c'', ping_time = 999, ping_reason = Live, ping_medium = Podcast\<rparr>) demo_dbs
   in status d1 ''http://c'' = Queued ''Live''
      \<and> status (fst (receive_messages demo_capnp (\<lambda>_. demo_env) 0 (Some ''ack'') d1)) ''http://c'' = Absent"
proof -
  have "queue_tbl demo_dbs = Some demo_queue" "can_open demo_env" "stmt_ok demo_env"
    by (simp_all add: demo_sels)
  then show ?thesis
    using late_reply_removes_newer_ping [OF demo_op_status(1), of
        "\<lparr>ping_url = ''http://c'', ping_time = 999, ping_reason = Live, ping_medium = Podcast\<rparr>"
        demo_queue demo_env demo_env demo_capnp "''ack''" "''tx''" "''p''"
        "\<lparr>tx_podpings = Some [Some [Some ''http://c'']], tx_id_reads = True, tx_block_num = 7\<rparr>"
        "\<lambda>_. demo_env" 0]
    by (simp add: demo_capnp_def WRITE_ERROR_TYPE_def)
qed

end
