(* ===== verification/Peer_Files.thy ===== *)
theory Peer_Files
  imports Rust_Strings
begin

text \<open>
  The small text and key files the gossip programs keep: known peers (capped, oldest evicted), trusted
  publishers and monitors, and the node key. A file is its content, \<open>None\<close> when it cannot be read.
  Parsing and printing of an iroh \<^verbatim>\<open>EndpointId\<close> and parsing of a textual \<^verbatim>\<open>SecretKey\<close> are parameters. The
  writer, the listener and the monitor each have their own copy of these functions.
\<close>

section \<open>Reading and writing lines\<close>

definition nonempty_lines :: "string option \<Rightarrow> string list" where
  "nonempty_lines file =
     filter (\<lambda>l. l \<noteq> []) (map trim (lines (case file of None \<Rightarrow> [] | Some c \<Rightarrow> c)))"

text \<open>\<^verbatim>\<open>File::create\<close> and a loop of \<^verbatim>\<open>writeln!\<close>.\<close>

definition write_lines :: "bool \<Rightarrow> string list \<Rightarrow> string option \<Rightarrow> string option" where
  "write_lines ok ls file = (if ok then Some (writelns ls) else file)"

definition MAX_KNOWN_PEERS :: nat where
  "MAX_KNOWN_PEERS = 15"

text \<open>Push, then drain the front down to the cap.\<close>

definition push_peer :: "string list \<Rightarrow> string \<Rightarrow> string list" where
  "push_peer peers p =
     (let ps = peers @ [p]
      in if length ps > MAX_KNOWN_PEERS then drop (length ps - MAX_KNOWN_PEERS) ps else ps)"

interpretation known_peers: capped_log push_peer MAX_KNOWN_PEERS
  by unfold_locales (auto simp: push_peer_def MAX_KNOWN_PEERS_def last_n_def Let_def)

section \<open>The writer's functions\<close>

definition load_trusted_keys :: "string option \<Rightarrow> string set" where
  "load_trusted_keys file = set (filter (\<lambda>l. \<not> starts_with l ''#'') (nonempty_lines file))"

definition load_trusted_publishers :: "string option \<Rightarrow> string set" where
  "load_trusted_publishers file =
     (case file of None \<Rightarrow> {} | Some c \<Rightarrow> set (filter (\<lambda>l. l \<noteq> []) (map trim (lines c))))"

text \<open>A \<^verbatim>\<open>HashSet\<close> is written in its iteration order, the parameter \<open>order\<close>.\<close>

definition save_trusted_publishers :: "(string set \<Rightarrow> string list) \<Rightarrow> bool \<Rightarrow> string set \<Rightarrow> string option \<Rightarrow> string option" where
  "save_trusted_publishers order ok peers file = write_lines ok (order peers) file"

definition load_known_peers :: "(string \<Rightarrow> 'id option) \<Rightarrow> string option \<Rightarrow> 'id list" where
  "load_known_peers parse_id file =
     (case file of None \<Rightarrow> []
      | Some c \<Rightarrow> List.map_filter (\<lambda>l. parse_id (trim l)) (filter (\<lambda>l. trim l \<noteq> []) (lines c)))"

definition save_peer_if_new :: "('id \<Rightarrow> string) \<Rightarrow> bool \<Rightarrow> 'id \<Rightarrow> 'id \<Rightarrow> string option \<Rightarrow> string option" where
  "save_peer_if_new show_id ok node me file =
     (if node = me then file
      else
        let peers = nonempty_lines file
        in if show_id node \<in> set peers then file
           else write_lines ok (push_peer peers (show_id node)) file)"

text \<open>Bootstrap ids of the environment variable, then the ids of the file that are not among them.\<close>

definition parse_bootstrap :: "(string \<Rightarrow> 'id option) \<Rightarrow> string \<Rightarrow> 'id list" where
  "parse_bootstrap parse_id s =
     List.map_filter (\<lambda>l. parse_id (trim l)) (filter (\<lambda>l. trim l \<noteq> []) (split_on (CHR '','') s))"

fun add_missing :: "'id list \<Rightarrow> 'id list \<Rightarrow> 'id list" where
  "add_missing acc [] = acc"
| "add_missing acc (p # ps) = add_missing (if p \<in> set acc then acc else acc @ [p]) ps"

definition bootstrap_peers :: "(string \<Rightarrow> 'id option) \<Rightarrow> string \<Rightarrow> string option \<Rightarrow> 'id list" where
  "bootstrap_peers parse_id s file = add_missing (parse_bootstrap parse_id s) (load_known_peers parse_id file)"

text \<open>
  The node key: \<open>parse_key\<close> reads a key from text. The result is the file afterwards and the key or an
  error; \<open>fresh\<close> is what the generator returns.
\<close>

definition load_or_create_node_key :: "(string \<Rightarrow> string option) \<Rightarrow> bool \<Rightarrow> bool \<Rightarrow> string \<Rightarrow> string option
    \<Rightarrow> string option \<times> (string + string)" where
  "load_or_create_node_key parse_key mkdir_ok io_ok fresh file =
     (case file of
        Some raw \<Rightarrow>
          if \<not> io_ok then (file, Err ''io'')
          else (case (if utf8_valid raw then parse_key (trim raw) else None) of
                  Some k \<Rightarrow> (file, Ok k)
                | None \<Rightarrow> if length raw = 32 then (file, Ok raw) else (file, Err ''invalid length''))
      | None \<Rightarrow>
          if \<not> mkdir_ok \<or> \<not> io_ok then (file, Err ''io'')
          else (Some fresh, Ok fresh))"

section \<open>The listener's and the monitor's copies\<close>

definition l_load_trusted_keys :: "string option \<Rightarrow> string set" where
  "l_load_trusted_keys file =
     {l \<in> trim ` set (lines (case file of None \<Rightarrow> [] | Some c \<Rightarrow> c)). l \<noteq> [] \<and> \<not> starts_with l ''#''}"

definition l_load_trusted_publishers :: "string option \<Rightarrow> string set" where
  "l_load_trusted_publishers file = (case file of None \<Rightarrow> {} | Some c \<Rightarrow> trim ` set (lines c) - {[]})"

definition l_save_trusted_publishers :: "(string set \<Rightarrow> string list) \<Rightarrow> bool \<Rightarrow> string set \<Rightarrow> string option \<Rightarrow> string option" where
  "l_save_trusted_publishers order ok peers file = (if ok then Some (writelns (order peers)) else file)"

definition l_load_known_peers :: "(string \<Rightarrow> 'id option) \<Rightarrow> string option \<Rightarrow> 'id list" where
  "l_load_known_peers parse_id file =
     (case file of None \<Rightarrow> [] | Some c \<Rightarrow> List.map_filter parse_id (filter (\<lambda>l. l \<noteq> []) (map trim (lines c))))"

definition l_save_peer_if_new :: "('id \<Rightarrow> string) \<Rightarrow> bool \<Rightarrow> 'id \<Rightarrow> 'id \<Rightarrow> string option \<Rightarrow> string option" where
  "l_save_peer_if_new show_id ok node me file =
     (if node = me \<or> show_id node \<in> set (nonempty_lines file) then file
      else write_lines ok (push_peer (nonempty_lines file) (show_id node)) file)"

definition l_load_or_create_node_key :: "(string \<Rightarrow> string option) \<Rightarrow> bool \<Rightarrow> bool \<Rightarrow> string \<Rightarrow> string option
    \<Rightarrow> string option \<times> (string + string)" where
  "l_load_or_create_node_key parse_key mkdir_ok io_ok fresh file =
     (case file of
        None \<Rightarrow> if mkdir_ok \<and> io_ok then (Some fresh, Ok fresh) else (None, Err ''io'')
      | Some raw \<Rightarrow>
          (file,
           if \<not> io_ok then Err ''io''
           else if utf8_valid raw \<and> parse_key (trim raw) \<noteq> None then Ok (the (parse_key (trim raw)))
           else if length raw = 32 then Ok raw else Err ''invalid length''))"

text \<open>The monitor stores the text of an announced id as it came, without parsing it.\<close>

definition m_save_peer_if_new :: "bool \<Rightarrow> string \<Rightarrow> string \<Rightarrow> string option \<Rightarrow> string option" where
  "m_save_peer_if_new ok node me file =
     (if node = me then file
      else
        let peers = nonempty_lines file
        in if node \<in> set peers then file else write_lines ok (push_peer peers node) file)"

definition m_load_known_peers :: "(string \<Rightarrow> 'id option) \<Rightarrow> string option \<Rightarrow> 'id list" where
  "m_load_known_peers parse_id file =
     (case file of None \<Rightarrow> []
      | Some c \<Rightarrow> List.map_filter (\<lambda>l. parse_id (trim l)) (filter (\<lambda>l. trim l \<noteq> []) (lines c)))"

definition m_load_or_create_node_key :: "(string \<Rightarrow> string option) \<Rightarrow> bool \<Rightarrow> bool \<Rightarrow> string \<Rightarrow> string option
    \<Rightarrow> string option \<times> (string + string)" where
  "m_load_or_create_node_key parse_key mkdir_ok io_ok fresh file =
     (case file of
        Some raw \<Rightarrow>
          if \<not> io_ok then (file, Err ''io'')
          else (case (if utf8_valid raw then parse_key (trim raw) else None) of
                  Some k \<Rightarrow> (file, Ok k)
                | None \<Rightarrow> (file, if length raw = 32 then Ok raw else Err ''invalid length''))
      | None \<Rightarrow>
          if mkdir_ok \<and> io_ok then (Some fresh, Ok fresh) else (file, Err ''io''))"

section \<open>Lemmas\<close>

text \<open>A line that comes back from the file as it was written.\<close>

definition plain_line :: "string \<Rightarrow> bool" where
  "plain_line l \<longleftrightarrow> l \<noteq> [] \<and> line_ok l \<and> trim l = l"

lemma nonempty_lines_writelns:
  "list_all plain_line ls \<Longrightarrow> nonempty_lines (Some (writelns ls)) = ls"
proof -
  assume a: "list_all plain_line ls"
  then have "lines (writelns ls) = ls"
    by (intro lines_writelns) (auto simp: list_all_iff plain_line_def)
  moreover have "map trim ls = ls" using a by (intro map_idI) (auto simp: list_all_iff plain_line_def)
  moreover have "filter (\<lambda>l. l \<noteq> []) ls = ls" using a by (auto simp: list_all_iff plain_line_def)
  ultimately show ?thesis by (simp add: nonempty_lines_def)
qed

lemma set_push_peer: "set (push_peer ps p) \<subseteq> insert p (set ps)"
  by (auto simp: push_peer_def Let_def dest: in_set_dropD)

lemma copies_agree:
  "l_load_trusted_keys = load_trusted_keys" "l_load_trusted_publishers = load_trusted_publishers"
  "l_save_trusted_publishers = save_trusted_publishers" "l_save_peer_if_new = save_peer_if_new"
  "l_load_known_peers = load_known_peers" "m_load_known_peers = load_known_peers"
  "l_load_or_create_node_key = load_or_create_node_key" "m_load_or_create_node_key = load_or_create_node_key"
  "m_save_peer_if_new = save_peer_if_new (\<lambda>x. x)"
proof -
  show "l_load_trusted_keys = load_trusted_keys" "l_load_trusted_publishers = load_trusted_publishers"
    by (auto simp: fun_eq_iff l_load_trusted_keys_def load_trusted_keys_def nonempty_lines_def
        l_load_trusted_publishers_def load_trusted_publishers_def split: option.splits)
  show "l_save_trusted_publishers = save_trusted_publishers"
    by (simp add: fun_eq_iff l_save_trusted_publishers_def save_trusted_publishers_def write_lines_def)
  show "l_save_peer_if_new = save_peer_if_new" "m_save_peer_if_new = save_peer_if_new (\<lambda>x. x)"
    by (auto simp: fun_eq_iff l_save_peer_if_new_def save_peer_if_new_def m_save_peer_if_new_def Let_def)
  show "l_load_known_peers = load_known_peers" "m_load_known_peers = load_known_peers"
    by (auto simp: fun_eq_iff l_load_known_peers_def load_known_peers_def m_load_known_peers_def
        List.map_filter_def filter_map comp_def split: option.splits)
  show "l_load_or_create_node_key = load_or_create_node_key" "m_load_or_create_node_key = load_or_create_node_key"
    by (auto simp: fun_eq_iff l_load_or_create_node_key_def load_or_create_node_key_def
        m_load_or_create_node_key_def split: option.splits)
qed

lemma set_add_missing: "set (add_missing acc ps) = set acc \<union> set ps"
  by (induction acc ps rule: add_missing.induct) auto

lemma distinct_add_missing: "distinct acc \<Longrightarrow> distinct (add_missing acc ps)"
  by (induction acc ps rule: add_missing.induct) auto

text \<open>What the programs keep true of a known-peers file: plain lines, each once, within the cap.\<close>

definition peers_file_wf :: "string option \<Rightarrow> bool" where
  "peers_file_wf file \<longleftrightarrow>
     (let ls = nonempty_lines file
      in list_all plain_line ls \<and> distinct ls \<and> length ls \<le> MAX_KNOWN_PEERS)"

lemma push_peer_law: "length ls \<le> MAX_KNOWN_PEERS \<Longrightarrow> push_peer ls p = last_n MAX_KNOWN_PEERS (ls @ [p])"
  by (rule known_peers.push_law)

lemma save_peer_lines:
  assumes "peers_file_wf file" and "plain_line (show_id node)" and "node \<noteq> me"
    and "show_id node \<notin> set (nonempty_lines file)"
  shows "nonempty_lines (save_peer_if_new show_id True node me file) =
      last_n MAX_KNOWN_PEERS (nonempty_lines file @ [show_id node])"
proof -
  let ?ls = "nonempty_lines file"
  have len: "length ?ls \<le> MAX_KNOWN_PEERS" and pl: "list_all plain_line ?ls"
    using assms(1) by (simp_all add: peers_file_wf_def Let_def)
  have "list_all plain_line (push_peer ?ls (show_id node))"
    using pl assms(2) set_push_peer [of ?ls "show_id node"] by (auto simp: list_all_iff)
  then show ?thesis
    using assms(3,4) by (simp add: save_peer_if_new_def Let_def write_lines_def nonempty_lines_writelns
        push_peer_law [OF len])
qed

lemma save_peer_wf:
  assumes "peers_file_wf file" and "plain_line (show_id node)"
  shows "peers_file_wf (save_peer_if_new show_id ok node me file)"
proof (cases "ok \<and> node \<noteq> me \<and> show_id node \<notin> set (nonempty_lines file)")
  case True
  let ?new = "nonempty_lines file @ [show_id node]"
  have lines: "nonempty_lines (save_peer_if_new show_id ok node me file) = last_n MAX_KNOWN_PEERS ?new"
    using True save_peer_lines [of "file" show_id node me, OF assms] by simp
  have "distinct ?new" "list_all plain_line ?new"
    using assms True by (auto simp: peers_file_wf_def Let_def)
  then have "distinct (last_n MAX_KNOWN_PEERS ?new)" "list_all plain_line (last_n MAX_KNOWN_PEERS ?new)"
    using set_last_n [of MAX_KNOWN_PEERS ?new] by (auto simp: list_all_iff intro: distinct_last_n)
  then show ?thesis by (simp only: peers_file_wf_def lines Let_def length_last_n) simp
next
  case False
  then have "save_peer_if_new show_id ok node me file = file"
    by (auto simp: save_peer_if_new_def write_lines_def Let_def)
  with assms(1) show ?thesis by simp
qed

lemma load_known_peers_lines:
  "load_known_peers parse_id file = List.map_filter parse_id (nonempty_lines file)"
proof (cases "file")
  case None
  then show ?thesis by (simp add: load_known_peers_def nonempty_lines_def lines_def List.map_filter_simps)
next
  case (Some c)
  then show ?thesis
    by (simp add: load_known_peers_def nonempty_lines_def List.map_filter_def filter_map comp_def)
qed

lemma save_peers_run:
  assumes "peers_file_wf file" and "distinct js" and "list_all plain_line js" and "me \<notin> set js"
    and "set js \<inter> set (nonempty_lines file) = {}"
  shows "nonempty_lines (foldl (\<lambda>f j. save_peer_if_new (\<lambda>x. x) True j me f) file js) =
      last_n MAX_KNOWN_PEERS (nonempty_lines file @ js)"
  using assms
proof (induction js rule: rev_induct)
  case Nil
  then show ?case by (simp add: peers_file_wf_def Let_def last_n_short)
next
  case (snoc j js)
  let ?f = "foldl (\<lambda>f j. save_peer_if_new (\<lambda>x. x) True j me f) file js"
  have IH: "nonempty_lines ?f = last_n MAX_KNOWN_PEERS (nonempty_lines file @ js)"
    by (rule snoc.IH) (use snoc.prems in auto)
  have wf: "peers_file_wf ?f"
    using snoc.prems(1,3) by (induction js rule: rev_induct) (auto intro: save_peer_wf)
  have "j \<notin> set (nonempty_lines ?f)"
    using snoc.prems(2,5) set_last_n [of MAX_KNOWN_PEERS "nonempty_lines file @ js"] by (auto simp: IH)
  then have "nonempty_lines (save_peer_if_new (\<lambda>x. x) True j me ?f) = last_n MAX_KNOWN_PEERS (nonempty_lines ?f @ [j])"
    using save_peer_lines [OF wf, of "\<lambda>x. x" j me] snoc.prems(3,4) by auto
  then show ?case by (simp add: IH last_n_snoc)
qed

section \<open>Properties\<close>

text \<open>A peer saved is a peer remembered: on a well-formed file, saving a new id keeps the file well
  formed (plain lines, no duplicates, at most 15), and loading it back returns that id last.\<close>

theorem saved_peer_is_loaded:
  assumes "peers_file_wf file" and "plain_line (show_id node)" and "parse_id (show_id node) = Some node"
    and "node \<noteq> me" and "show_id node \<notin> set (nonempty_lines file)"
  shows "peers_file_wf (save_peer_if_new show_id True node me file)
    \<and> load_known_peers parse_id (save_peer_if_new show_id True node me file) \<noteq> []
    \<and> last (load_known_peers parse_id (save_peer_if_new show_id True node me file)) = node"
proof -
  let ?ls = "nonempty_lines file"
  have "last_n MAX_KNOWN_PEERS (?ls @ [show_id node]) = last_n (MAX_KNOWN_PEERS - 1) ?ls @ [show_id node]"
    by (simp add: last_n_def MAX_KNOWN_PEERS_def)
  then have "load_known_peers parse_id (save_peer_if_new show_id True node me file) =
      List.map_filter parse_id (last_n (MAX_KNOWN_PEERS - 1) ?ls) @ [node]"
    using assms(3) by (simp add: load_known_peers_lines save_peer_lines [of "file" show_id node me, OF assms(1,2,4,5)] List.map_filter_def)
  then show ?thesis using save_peer_wf [of "file" show_id node True me, OF assms(1,2)] by simp
qed

lemma demo_peer_lines:
  "plain_line ''aa''" "plain_line ''bb''" "lines ''bb\<newline>'' = [''bb'']" "trim ''bb'' = ''bb''"
  by code_simp+

lemma demo_peer_file: "nonempty_lines (Some ''bb\<newline>'') = [''bb'']"
  by (simp add: nonempty_lines_def demo_peer_lines)

theorem saved_peer_is_loaded_witness:
  "last (load_known_peers Some (save_peer_if_new id True ''aa'' ''me'' (Some ''bb\<newline>''))) = ''aa''"
  using saved_peer_is_loaded [of "Some ''bb\<newline>''" id "''aa''" Some "''me''"]
  by (simp add: peers_file_wf_def demo_peer_file demo_peer_lines MAX_KNOWN_PEERS_def)

text \<open>The monitor takes announced ids unchecked: any 15 or more distinct plain texts announced as node
  ids replace the whole known-peers file, whatever it held.\<close>

theorem announced_ids_evict_known_peers:
  assumes "peers_file_wf file" and "distinct js" and "list_all plain_line js" and "me \<notin> set js"
    and "set js \<inter> set (nonempty_lines file) = {}" and "MAX_KNOWN_PEERS \<le> length js"
  shows "nonempty_lines (foldl (\<lambda>f j. m_save_peer_if_new True j me f) file js) = last_n MAX_KNOWN_PEERS js"
  using save_peers_run [OF assms(1-5)] assms(6) by (simp add: copies_agree last_n_def)

definition demo_junk :: "string list" where
  "demo_junk = map (\<lambda>c. [c]) ''abcdefghijklmno''"

lemma demo_junk_ok: "distinct demo_junk" "list_all plain_line demo_junk"
  "''me'' \<notin> set demo_junk" "''bb'' \<notin> set demo_junk" "length demo_junk = 15"
  by code_simp+

theorem announced_ids_evict_known_peers_witness:
  "''bb'' \<notin> set (nonempty_lines (foldl (\<lambda>f j. m_save_peer_if_new True j ''me'' f) (Some ''bb\<newline>'') demo_junk))"
proof -
  have "nonempty_lines (foldl (\<lambda>f j. m_save_peer_if_new True j ''me'' f) (Some ''bb\<newline>'') demo_junk) = last_n MAX_KNOWN_PEERS demo_junk"
    by (rule announced_ids_evict_known_peers)
      (simp_all add: demo_junk_ok peers_file_wf_def demo_peer_file demo_peer_lines MAX_KNOWN_PEERS_def)
  then show ?thesis using set_last_n [of MAX_KNOWN_PEERS demo_junk] demo_junk_ok(4) by auto
qed

text \<open>The trust file round trip: what \<^verbatim>\<open>save_trusted_publishers\<close> writes, in whatever order, is read
  back as the same set by both loaders, if the keys are plain lines and none is a comment.\<close>

theorem trusted_publishers_round_trip:
  assumes "set (order S) = S" and "\<forall>k \<in> S. plain_line k \<and> \<not> starts_with k ''#''"
  shows "load_trusted_publishers (save_trusted_publishers order True S file) = S
    \<and> load_trusted_keys (save_trusted_publishers order True S file) = S"
proof -
  have "list_all plain_line (order S)" using assms by (auto simp: list_all_iff)
  then have "nonempty_lines (Some (writelns (order S))) = order S" by (rule nonempty_lines_writelns)
  then show ?thesis
    using assms by (auto simp: load_trusted_publishers_def load_trusted_keys_def save_trusted_publishers_def
        write_lines_def nonempty_lines_def)
qed

theorem trusted_publishers_round_trip_witness:
  "load_trusted_publishers (save_trusted_publishers (\<lambda>_. [''aa'', ''bb'']) True {''bb'', ''aa''} None) = {''aa'', ''bb''}"
  using trusted_publishers_round_trip [of "\<lambda>_. [''aa'', ''bb'']" "{''bb'', ''aa''}" None] demo_peer_lines(1,2)
  by (auto simp: insert_commute)

text \<open>Stable identity: after the node key was created, every later start returns the same key and
  leaves the file as it is, if the generator returns 32 bytes that do not happen to read as a
  textual key.\<close>

theorem node_key_is_stable:
  assumes "length fresh = 32" and "utf8_valid fresh \<longrightarrow> parse_key (trim fresh) = None"
    and "load_or_create_node_key parse_key True True fresh None = (file, r)"
  shows "r = Ok fresh \<and> load_or_create_node_key parse_key m True other file = (file, Ok fresh)"
  using assms by (auto simp: load_or_create_node_key_def)

theorem node_key_is_stable_witness:
  "load_or_create_node_key (\<lambda>_. None) False True ''other'' (Some (replicate 32 (CHR ''k''))) =
     (Some (replicate 32 (CHR ''k'')), Ok (replicate 32 (CHR ''k'')))"
  using node_key_is_stable [of "replicate 32 (CHR ''k'')" "\<lambda>_. None" "Some (replicate 32 (CHR ''k''))"
      "Ok (replicate 32 (CHR ''k''))" False "''other''"]
  by (simp add: load_or_create_node_key_def)

text \<open>Bootstrap candidates: the ids of the environment variable and of the file together, none
  missing, and none twice when the variable has none twice.\<close>

theorem bootstrap_peers_union:
  "set (bootstrap_peers parse_id s file) = set (parse_bootstrap parse_id s) \<union> set (load_known_peers parse_id file)
   \<and> (distinct (parse_bootstrap parse_id s) \<longrightarrow> distinct (bootstrap_peers parse_id s file))"
  by (simp add: bootstrap_peers_def set_add_missing distinct_add_missing)

theorem bootstrap_peers_union_witness: "distinct (bootstrap_peers Some ''bb'' (Some ''bb\<newline>''))"
proof -
  have "parse_bootstrap Some ''bb'' = [''bb'']" by code_simp
  then show ?thesis using bootstrap_peers_union [of Some "''bb''" "Some ''bb\<newline>''"] by simp
qed

end
