(* ===== verification/Gossip_Messages.thy ===== *)
theory Gossip_Messages
  imports Rust_Strings "HOL-Library.Countable"
begin

text \<open>
  The messages of the gossip topic as the three gossip programs declare them: the notification of
  \<^verbatim>\<open>gossip-writer/src/notification.rs\<close>, and the announce, endorse and suggest messages of
  \<^verbatim>\<open>gossip-writer/src/main.rs\<close>, with their canonical forms, signing and verification. What
  \<^verbatim>\<open>serde\<close>'s derive attributes of the source say (field order, names, skipped fields) is the map
  from a struct to a JSON tree; printing a tree, parsing bytes, hex and ed25519 are crates outside the
  repository and are the fields of the record \<open>gossip_lib\<close>.
\<close>

section \<open>Libraries\<close>

text \<open>A JSON tree. A float is carried as its bit pattern; no arithmetic on it is modelled.\<close>

datatype json = JNull | JBool bool | JInt int | JFloat u32 | JStr string | JArr "json list"
  | JObj "(string \<times> json) list"

record gossip_notification =
  n_version :: string
  n_sender :: string
  n_timestamp :: u64
  n_medium :: string
  n_reason :: string
  n_iris :: "string list"
  n_seq :: "u64 option"
  n_signature :: "string option"

record peer_announce =
  a_msg_type :: string
  a_node_id :: string
  a_version :: string
  a_timestamp :: u64
  a_sender :: "string option"
  a_node_list :: "string list option"
  a_signature :: "string option"
  a_friendly_name :: "string option"
  a_cpu_percent :: "u32 option"
  a_memory_mb :: "u64 option"
  a_thread_count :: "u32 option"
  a_neighbor_count :: "u32 option"
  a_uptime_secs :: "u64 option"
  a_msgs_received :: "u64 option"
  a_msgs_sent :: "u64 option"
  a_last_msg_age_secs :: "u64 option"
  a_reconnect_count :: "u64 option"
  a_os :: "string option"
  a_build_type :: "string option"
  a_neighbors :: "string list option"

record announce_metrics =
  m_neighbor_count :: "u32 option"
  m_neighbors :: "string list option"
  m_uptime_secs :: "u64 option"
  m_msgs_received :: "u64 option"
  m_msgs_sent :: "u64 option"
  m_last_msg_age_secs :: "u64 option"
  m_reconnect_count :: "u64 option"

record peer_suggest =
  s_msg_type :: string
  s_sender :: string
  s_target_node_id :: string
  s_suggested_peers :: "string list"
  s_reason :: string
  s_timestamp :: u64
  s_signature :: string

text \<open>
  The crates: \<^verbatim>\<open>serde_json\<close> (printing a tree; parsing a message of each kind), \<^verbatim>\<open>hex\<close> and
  \<^verbatim>\<open>ed25519_dalek\<close> (\<open>ed_key_ok\<close> is \<^verbatim>\<open>VerifyingKey::from_bytes\<close>).
\<close>

record gossip_lib =
  to_vec :: "json \<Rightarrow> string"
  parse_notification :: "string \<Rightarrow> gossip_notification option"
  parse_announce :: "string \<Rightarrow> peer_announce option"
  parse_suggest :: "string \<Rightarrow> peer_suggest option"
  hex_encode :: "string \<Rightarrow> string"
  hex_decode :: "string \<Rightarrow> string option"
  ed_pubkey :: "string \<Rightarrow> string"
  ed_key_ok :: "string \<Rightarrow> bool"
  ed_sign :: "string \<Rightarrow> string \<Rightarrow> string"
  ed_verify :: "string \<Rightarrow> string \<Rightarrow> string \<Rightarrow> bool"

text \<open>What their documentation promises for a signing key \<open>k\<close>.\<close>

definition crypto_ok :: "gossip_lib \<Rightarrow> string \<Rightarrow> bool" where
  "crypto_ok L k \<longleftrightarrow>
     length (ed_pubkey L k) = 32 \<and> ed_key_ok L (ed_pubkey L k)
     \<and> (\<forall>m. length (ed_sign L k m) = 64 \<and> ed_verify L (ed_pubkey L k) m (ed_sign L k m))
     \<and> (\<forall>b. hex_decode L (hex_encode L b) = Some b)"

section \<open>JSON fields\<close>

definition opt_field :: "string \<Rightarrow> ('a \<Rightarrow> json) \<Rightarrow> 'a option \<Rightarrow> (string \<times> json) list" where
  "opt_field key f x = (case x of None \<Rightarrow> [] | Some v \<Rightarrow> [(key, f v)])"

definition JU :: "'l::len word \<Rightarrow> json" where
  "JU w = JInt (uint w)"

definition JStrs :: "string list \<Rightarrow> json" where
  "JStrs xs = JArr (map JStr xs)"

lemma opt_field_simps [simp]: "opt_field key f None = []" "opt_field key f (Some v) = [(key, f v)]"
  by (simp_all add: opt_field_def)

lemma JU_inj [simp]: "JU a = JU b \<longleftrightarrow> a = b"
  by (simp add: JU_def word_uint_eq_iff)

lemma JStrs_inj [simp]: "JStrs a = JStrs b \<longleftrightarrow> a = b"
  by (auto simp: JStrs_def inj_map_eq_map inj_def)

section \<open>Notifications\<close>

definition notification_new :: "u64 \<Rightarrow> string \<Rightarrow> string \<Rightarrow> string \<Rightarrow> string list \<Rightarrow> u64 option \<Rightarrow> gossip_notification" where
  "notification_new now sender_pubkey_hex medium rsn iris seq =
     \<lparr>n_version = ''1.0'', n_sender = sender_pubkey_hex, n_timestamp = now, n_medium = medium,
      n_reason = rsn, n_iris = iris, n_seq = seq, n_signature = None\<rparr>"

text \<open>The derived \<^verbatim>\<open>Serialize\<close> of the struct, in declaration order.\<close>

definition notification_json :: "gossip_notification \<Rightarrow> json" where
  "notification_json n = JObj
     ([(''version'', JStr (n_version n)), (''sender'', JStr (n_sender n)),
       (''timestamp'', JU (n_timestamp n)), (''medium'', JStr (n_medium n)),
       (''reason'', JStr (n_reason n)), (''iris'', JStrs (n_iris n))]
      @ opt_field ''seq'' JU (n_seq n) @ opt_field ''signature'' JStr (n_signature n))"

definition canonical_notification :: "gossip_notification \<Rightarrow> json" where
  "canonical_notification n = JObj
     ([(''iris'', JStrs (n_iris n)), (''medium'', JStr (n_medium n)), (''reason'', JStr (n_reason n))]
      @ opt_field ''seq'' JU (n_seq n)
      @ [(''sender'', JStr (n_sender n)), (''timestamp'', JU (n_timestamp n)), (''version'', JStr (n_version n))])"

definition canonical_bytes :: "gossip_lib \<Rightarrow> gossip_notification \<Rightarrow> string" where
  "canonical_bytes L n = to_vec L (canonical_notification n)"

definition notification_sign :: "gossip_lib \<Rightarrow> string \<Rightarrow> gossip_notification \<Rightarrow> gossip_notification \<times> string" where
  "notification_sign L k n =
     (let n' = n\<lparr>n_signature := Some (hex_encode L (ed_sign L k (canonical_bytes L n)))\<rparr>
      in (n', to_vec L (notification_json n')))"

definition pubkey_hex :: "gossip_lib \<Rightarrow> string \<Rightarrow> string" where
  "pubkey_hex L k = hex_encode L (ed_pubkey L k)"

fun notif_reason_to_string :: "nat \<Rightarrow> string" where
  "notif_reason_to_string r =
     (if r = 0 then ''update'' else if r = 1 then ''live'' else if r = 2 then ''liveEnd'' else ''update'')"

definition medium_names :: "string list" where
  "medium_names = [''mixed'', ''podcast'', ''podcastL'', ''music'', ''musicL'', ''video'', ''videoL'',
     ''film'', ''filmL'', ''audiobook'', ''audiobookL'', ''newsletter'', ''newsletterL'', ''blog'',
     ''blogL'', ''publisher'', ''publisherL'', ''course'', ''courseL'']"

definition notif_medium_to_string :: "nat \<Rightarrow> string" where
  "notif_medium_to_string m = (if m < length medium_names then medium_names ! m else ''podcast'')"

text \<open>
  The signing key file: \<open>None\<close> while it does not exist. The key read or generated, and the file
  afterwards; an \<open>Inl\<close> is the error the program stops with.
\<close>

definition load_or_generate_key :: "bool \<Rightarrow> bool \<Rightarrow> string \<Rightarrow> string option \<Rightarrow> string option \<times> (string + string)" where
  "load_or_generate_key io_ok mkdir_ok fresh file =
     (case file of
        Some bytes \<Rightarrow>
          if \<not> io_ok then (file, Err ''io'')
          else if length bytes \<noteq> 32 then (file, Err ''Key file has wrong length'')
          else (file, Ok bytes)
      | None \<Rightarrow>
          if \<not> mkdir_ok then (file, Err ''io'')
          else if \<not> io_ok then (file, Err ''io'')
          else (Some fresh, Ok fresh))"

section \<open>Verifying a detached signature\<close>

text \<open>
  The chain of checks all the verification functions share: hex of the key, 32 bytes, hex of the
  signature, 64 bytes, a valid key, the signature itself. An error carries a short form of the text
  the code formats; callers only log it.
\<close>

definition check_sig :: "gossip_lib \<Rightarrow> string \<Rightarrow> string \<Rightarrow> string \<Rightarrow> string + bool" where
  "check_sig L sender_hex sig_hex msg =
     (case hex_decode L sender_hex of
        None \<Rightarrow> Err ''Bad sender hex''
      | Some pk \<Rightarrow>
          if length pk \<noteq> 32 then Err ''Sender is not 32 bytes''
          else (case hex_decode L sig_hex of
                  None \<Rightarrow> Err ''Bad signature hex''
                | Some sg \<Rightarrow>
                    if length sg \<noteq> 64 then Err ''Signature is not 64 bytes''
                    else if \<not> ed_key_ok L pk then Err ''Bad pubkey''
                    else if ed_verify L pk msg sg then Ok True
                    else Err ''Signature verification failed''))"

lemma check_sig_sound:
  "check_sig L s g m = Ok b \<Longrightarrow> b \<and>
     (\<exists>pk sg. hex_decode L s = Some pk \<and> length pk = 32 \<and> hex_decode L g = Some sg \<and> length sg = 64
        \<and> ed_verify L pk m sg)"
  by (auto simp: check_sig_def split: option.splits if_splits)

lemma check_sig_complete:
  "crypto_ok L k \<Longrightarrow> check_sig L (pubkey_hex L k) (hex_encode L (ed_sign L k m)) m = Ok True"
  by (simp add: check_sig_def crypto_ok_def pubkey_hex_def)

section \<open>Suggestions\<close>

definition canonical_suggest :: "peer_suggest \<Rightarrow> json" where
  "canonical_suggest s = JObj
     [(''reason'', JStr (s_reason s)), (''sender'', JStr (s_sender s)),
      (''suggested_peers'', JStrs (s_suggested_peers s)), (''target_node_id'', JStr (s_target_node_id s)),
      (''timestamp'', JU (s_timestamp s)), (''type'', JStr (s_msg_type s))]"

definition suggest_verify_signature :: "gossip_lib \<Rightarrow> peer_suggest \<Rightarrow> string + bool" where
  "suggest_verify_signature L s =
     check_sig L (s_sender s) (s_signature s) (to_vec L (canonical_suggest s))"

section \<open>Announcements and endorsements\<close>

definition announce_new :: "u64 \<Rightarrow> u32 option \<times> u64 option \<times> u32 option \<Rightarrow> string \<Rightarrow> string \<Rightarrow> string \<Rightarrow> string \<Rightarrow>
    string option \<Rightarrow> announce_metrics \<Rightarrow> peer_announce" where
  "announce_new now proc os_name build node vers fname m =
     (case proc of (cpu, mem, thr) \<Rightarrow>
       \<lparr>a_msg_type = ''peer_announce'', a_node_id = node, a_version = vers, a_timestamp = now,
        a_sender = None, a_node_list = None, a_signature = None, a_friendly_name = fname,
        a_cpu_percent = cpu, a_memory_mb = mem, a_thread_count = thr,
        a_neighbor_count = m_neighbor_count m, a_uptime_secs = m_uptime_secs m,
        a_msgs_received = m_msgs_received m, a_msgs_sent = m_msgs_sent m,
        a_last_msg_age_secs = m_last_msg_age_secs m, a_reconnect_count = m_reconnect_count m,
        a_os = Some os_name, a_build_type = Some build, a_neighbors = m_neighbors m\<rparr>)"

definition announce_new_endorse :: "u64 \<Rightarrow> string \<Rightarrow> string \<Rightarrow> string \<Rightarrow> string list \<Rightarrow> string option \<Rightarrow> peer_announce" where
  "announce_new_endorse now node vers snd_key endorsed fname =
     \<lparr>a_msg_type = ''peer_endorse'', a_node_id = node, a_version = vers, a_timestamp = now,
      a_sender = Some snd_key, a_node_list = Some endorsed, a_signature = None, a_friendly_name = fname,
      a_cpu_percent = None, a_memory_mb = None, a_thread_count = None, a_neighbor_count = None,
      a_uptime_secs = None, a_msgs_received = None, a_msgs_sent = None, a_last_msg_age_secs = None,
      a_reconnect_count = None, a_os = None, a_build_type = None, a_neighbors = None\<rparr>"

definition announce_json :: "peer_announce \<Rightarrow> json" where
  "announce_json a = JObj
     ([(''type'', JStr (a_msg_type a)), (''node_id'', JStr (a_node_id a)),
       (''version'', JStr (a_version a)), (''timestamp'', JU (a_timestamp a))]
      @ opt_field ''sender'' JStr (a_sender a) @ opt_field ''node_list'' JStrs (a_node_list a)
      @ opt_field ''signature'' JStr (a_signature a) @ opt_field ''friendly_name'' JStr (a_friendly_name a)
      @ opt_field ''cpu_percent'' JFloat (a_cpu_percent a) @ opt_field ''memory_mb'' JU (a_memory_mb a)
      @ opt_field ''thread_count'' JU (a_thread_count a) @ opt_field ''neighbor_count'' JU (a_neighbor_count a)
      @ opt_field ''uptime_secs'' JU (a_uptime_secs a) @ opt_field ''msgs_received'' JU (a_msgs_received a)
      @ opt_field ''msgs_sent'' JU (a_msgs_sent a) @ opt_field ''last_msg_age_secs'' JU (a_last_msg_age_secs a)
      @ opt_field ''reconnect_count'' JU (a_reconnect_count a) @ opt_field ''os'' JStr (a_os a)
      @ opt_field ''build_type'' JStr (a_build_type a) @ opt_field ''neighbors'' JStrs (a_neighbors a))"

text \<open>\<^verbatim>\<open>canonical_endorse_bytes\<close> expects a node list and a sender and panics without them.\<close>

definition canonical_endorse :: "peer_announce \<Rightarrow> json outcome" where
  "canonical_endorse a =
     bind_outcome (unwrap (a_node_list a)) (\<lambda>nl.
     bind_outcome (unwrap (a_sender a)) (\<lambda>sn.
     Ret (JObj (opt_field ''friendly_name'' JStr (a_friendly_name a)
       @ [(''node_id'', JStr (a_node_id a)), (''node_list'', JStrs nl), (''sender'', JStr sn),
          (''timestamp'', JU (a_timestamp a)), (''type'', JStr (a_msg_type a)), (''version'', JStr (a_version a))]))))"

definition sign_endorse :: "gossip_lib \<Rightarrow> string \<Rightarrow> peer_announce \<Rightarrow> peer_announce outcome" where
  "sign_endorse L k a =
     bind_outcome (canonical_endorse a) (\<lambda>j.
     Ret (a\<lparr>a_signature := Some (hex_encode L (ed_sign L k (to_vec L j)))\<rparr>))"

definition verify_endorse_signature :: "gossip_lib \<Rightarrow> peer_announce \<Rightarrow> (string + bool) outcome" where
  "verify_endorse_signature L a =
     (case a_signature a of
        None \<Rightarrow> Ret (Ok False)
      | Some sig_hex \<Rightarrow>
          (case a_sender a of
             None \<Rightarrow> Ret (Err ''No sender field'')
           | Some sender_hex \<Rightarrow>
               (case hex_decode L sender_hex of
                  None \<Rightarrow> Ret (Err ''Bad sender hex'')
                | Some pk \<Rightarrow>
                    if length pk \<noteq> 32 then Ret (Err ''Sender is not 32 bytes'')
                    else (case hex_decode L sig_hex of
                            None \<Rightarrow> Ret (Err ''Bad signature hex'')
                          | Some sg \<Rightarrow>
                              if length sg \<noteq> 64 then Ret (Err ''Signature is not 64 bytes'')
                              else if \<not> ed_key_ok L pk then Ret (Err ''Bad pubkey'')
                              else bind_outcome (canonical_endorse a) (\<lambda>j.
                                if ed_verify L pk (to_vec L j) sg then Ret (Ok True)
                                else Ret (Err ''Signature verification failed''))))))"

lemma verify_endorse_sound:
  "verify_endorse_signature L a = Ret (Ok True) \<Longrightarrow>
     \<exists>sn nl j. a_sender a = Some sn \<and> a_node_list a = Some nl \<and> canonical_endorse a = Ret j
       \<and> check_sig L sn (the (a_signature a)) (to_vec L j) = Ok True"
  by (auto simp: verify_endorse_signature_def canonical_endorse_def check_sig_def unwrap_def
      bind_outcome_Ret_iff split: option.splits if_splits)

lemma canonical_endorse_signature [simp]: "canonical_endorse (a\<lparr>a_signature := x\<rparr>) = canonical_endorse a"
  by (simp add: canonical_endorse_def)

section \<open>Lemmas on the canonical forms\<close>

lemma canonical_notification_signature [simp]:
  "canonical_notification (n\<lparr>n_signature := x\<rparr>) = canonical_notification n"
  by (simp add: canonical_notification_def)

lemma canonical_notification_inj:
  "canonical_notification n = canonical_notification n' \<longleftrightarrow> n\<lparr>n_signature := None\<rparr> = n'\<lparr>n_signature := None\<rparr>"
  by (cases n; cases n'; cases "n_seq n"; cases "n_seq n'") (auto simp: canonical_notification_def)

lemma canonical_suggest_inj:
  "canonical_suggest s = canonical_suggest s' \<longleftrightarrow> s\<lparr>s_signature := []\<rparr> = s'\<lparr>s_signature := []\<rparr>"
  by (cases s; cases s') (auto simp: canonical_suggest_def)

instance json :: countable
  by countable_datatype

end
