(* ===== verification/Reconnect.thy ===== *)
theory Reconnect
  imports Peer_Files Gossip_Messages
begin

text \<open>
  The resilience tasks that the gossip programs run beside the receive task: the reconnection
  monitor, the stall watchdog, isolation detection, the periodic re-join, the health report with its
  memory-bounded endpoint recycle, and the announcements. They share counters and flags (record
  \<open>ctl\<close>, the atomics of \<^verbatim>\<open>main\<close>). Each task is a function of one turn of its loop; time is in
  nanoseconds for \<^verbatim>\<open>Instant\<close> and in seconds for the wall clock. The current endpoint and the current
  subscription are numbered, a new number for a new object. Unsigned arithmetic is that of a release
  build, which wraps. The rate limit on reconnects is the locale \<open>cooled\<close>.
\<close>

section \<open>Interface: an action with a cooldown\<close>

definition COOLDOWN :: nat where
  "COOLDOWN = 30 * 10 ^ 9"

primrec calm :: "('e \<Rightarrow> 's \<Rightarrow> 's) \<Rightarrow> ('e \<Rightarrow> bool) \<Rightarrow> ('s \<Rightarrow> bool) \<Rightarrow> 'e list \<Rightarrow> 's \<Rightarrow> bool" where
  "calm turn env_ok forced [] s = True"
| "calm turn env_ok forced (e # es) s = (env_ok e \<and> \<not> forced s \<and> calm turn env_ok forced es (turn e s))"

text \<open>
  A turn of the task either leaves the count and the time of the last action alone or does the action
  once, and then it was forced or the cooldown had passed. Clients get the rate: in a run without
  forced actions, \<open>n\<close> actions take at least \<open>n\<close> cooldowns.
\<close>

locale cooled =
  fixes turn :: "'e \<Rightarrow> 's \<Rightarrow> 's"
    and count :: "'s \<Rightarrow> nat"
    and last_time :: "'s \<Rightarrow> nat"
    and done_time :: "'e \<Rightarrow> nat"
    and env_ok :: "'e \<Rightarrow> bool"
    and forced :: "'s \<Rightarrow> bool"
  assumes turn_cases: "env_ok e \<Longrightarrow>
      (count (turn e s) = count s \<and> last_time (turn e s) = last_time s) \<or>
      (count (turn e s) = Suc (count s) \<and> last_time (turn e s) = done_time e
        \<and> (forced s \<or> last_time s + COOLDOWN \<le> done_time e))"
begin

lemma rate: "calm turn env_ok forced es s \<Longrightarrow> count s \<le> count (turns turn es s)
    \<and> last_time s + COOLDOWN * (count (turns turn es s) - count s) \<le> last_time (turns turn es s)"
proof (induction es arbitrary: s)
  case (Cons e es)
  let ?n = "count (turns turn es (turn e s))"
  from Cons have IH: "count (turn e s) \<le> ?n"
    "last_time (turn e s) + COOLDOWN * (?n - count (turn e s)) \<le> last_time (turns turn es (turn e s))"
    and e: "env_ok e" "\<not> forced s" by simp_all
  from turn_cases [OF e(1), of s] show ?case
  proof
    assume "count (turn e s) = count s \<and> last_time (turn e s) = last_time s"
    with IH show ?thesis by simp
  next
    assume t: "count (turn e s) = Suc (count s) \<and> last_time (turn e s) = done_time e
        \<and> (forced s \<or> last_time s + COOLDOWN \<le> done_time e)"
    from t e(2) have "last_time s + COOLDOWN \<le> last_time (turn e s)" by simp
    moreover have "COOLDOWN * (?n - count s) = COOLDOWN + COOLDOWN * (?n - Suc (count s))"
      using IH(1) t by (metis Suc_diff_Suc Suc_le_lessD mult_Suc_right)
    ultimately show ?thesis using IH t by simp
  qed
qed simp

end

section \<open>Shared state\<close>

record ctl =
  c_shutdown :: bool
  c_failures :: u64
  c_requested :: bool
  c_force_reset :: bool
  c_notify :: bool
  c_last_notif :: u64
  c_notifs :: u64
  c_sent :: u64
  c_failed :: u64
  c_last_ok :: u64
  c_generation :: u64
  c_neighbor_count :: u32
  c_neighbor_ids :: "string set"
  c_sources :: "string set"
  c_reconnects :: u64
  c_last_reconnect :: nat
  c_consecutive :: u32
  c_endpoint :: nat
  c_sender :: nat
  c_up :: bool
  c_stall :: u64
  c_last_reset :: nat
  c_prev_a :: u64
  c_prev_b :: u64

definition RECONNECT_AFTER_FAILURES :: u64 where
  "RECONNECT_AFTER_FAILURES = 5"

definition ENDPOINT_RESET_AFTER_RECONNECTS :: u32 where
  "ENDPOINT_RESET_AFTER_RECONNECTS = 3"

definition REBOOTSTRAP_TIMEOUT :: u64 where
  "REBOOTSTRAP_TIMEOUT = 180"

definition ISOLATION_MIN_UNIQUE_PEERS :: nat where
  "ISOLATION_MIN_UNIQUE_PEERS = 3"

definition ISOLATION_CHECK_INTERVAL :: nat where
  "ISOLATION_CHECK_INTERVAL = 300 * 10 ^ 9"

definition PERIODIC_RESET_INTERVAL :: nat where
  "PERIODIC_RESET_INTERVAL = 12 * 3600 * 10 ^ 9"

definition RSS_CEILING_BYTES :: u64 where
  "RSS_CEILING_BYTES = 1024 * 1024 * 1024"

text \<open>
  The environment of one reconnect turn: the time of the check, the time when a new subscription is
  in place, whether a new endpoint binds and whether the new subscription succeeds.
\<close>

record rc_env =
  rc_now :: nat
  rc_done :: nat
  rc_bind_ok :: bool
  rc_subscribe_ok :: bool

definition rc_ok :: "rc_env \<Rightarrow> bool" where
  "rc_ok e \<longleftrightarrow> rc_now e \<le> rc_done e"

definition elapsed :: "rc_env \<Rightarrow> ctl \<Rightarrow> nat" where
  "elapsed e s = rc_now e - c_last_reconnect s"

text \<open>The flags that the other tasks raise.\<close>

definition raise_request :: "ctl \<Rightarrow> ctl" where
  "raise_request s = s\<lparr>c_failures := RECONNECT_AFTER_FAILURES, c_requested := True, c_notify := True\<rparr>"

section \<open>Listener and monitor: the reconnection monitor\<close>

definition l_reconnect_turn :: "rc_env \<Rightarrow> ctl \<Rightarrow> ctl" where
  "l_reconnect_turn e s =
     (if c_shutdown s then s
      else
        let failures = c_failures s; requested = c_requested s; forced = c_force_reset s;
            s1 = s\<lparr>c_notify := False, c_requested := False, c_force_reset := False\<rparr>
        in if \<not> (RECONNECT_AFTER_FAILURES \<le> failures \<or> requested \<or> forced) then
             (if 0 < c_consecutive s \<and> ISOLATION_CHECK_INTERVAL < elapsed e s
              then s1\<lparr>c_consecutive := 0\<rparr> else s1)
           else
             let s2 = s1\<lparr>c_failures := 0\<rparr>
             in if \<not> forced \<and> elapsed e s < COOLDOWN then s2
                else
                  let cr = (if forced then ENDPOINT_RESET_AFTER_RECONNECTS + 1 else c_consecutive s + 1);
                      s3 = s2\<lparr>c_consecutive := cr\<rparr>;
                      s4 = (if ENDPOINT_RESET_AFTER_RECONNECTS < cr \<and> rc_bind_ok e
                            then s3\<lparr>c_endpoint := Suc (c_endpoint s3)\<rparr> else s3);
                      s5 = s4\<lparr>c_up := False\<rparr>
                  in if rc_subscribe_ok e
                     then s5\<lparr>c_sender := Suc (c_sender s5), c_up := True, c_failures := 0,
                             c_generation := c_generation s5 + 1, c_neighbor_ids := {}, c_neighbor_count := 0,
                             c_last_reconnect := rc_done e, c_reconnects := c_reconnects s5 + 1\<rparr>
                     else s5\<lparr>c_failures := 0\<rparr>)"

definition m_reconnect_turn :: "rc_env \<Rightarrow> ctl \<Rightarrow> ctl" where
  "m_reconnect_turn e s =
     (if c_shutdown s then s
      else
        let wanted = (RECONNECT_AFTER_FAILURES \<le> c_failures s \<or> c_requested s \<or> c_force_reset s);
            forced = c_force_reset s;
            s1 = s\<lparr>c_notify := False, c_requested := False, c_force_reset := False\<rparr>
        in if \<not> wanted then
             (if 0 < c_consecutive s \<and> ISOLATION_CHECK_INTERVAL < elapsed e s
              then s1\<lparr>c_consecutive := 0\<rparr> else s1)
           else if \<not> forced \<and> elapsed e s < COOLDOWN then s1\<lparr>c_failures := 0\<rparr>
           else
             let cr = (if forced then ENDPOINT_RESET_AFTER_RECONNECTS + 1 else c_consecutive s + 1);
                 ep = (if ENDPOINT_RESET_AFTER_RECONNECTS < cr \<and> rc_bind_ok e then Suc (c_endpoint s) else c_endpoint s);
                 s2 = s1\<lparr>c_failures := 0, c_consecutive := cr, c_endpoint := ep\<rparr>
             in if rc_subscribe_ok e
                then s2\<lparr>c_sender := Suc (c_sender s2), c_up := True, c_generation := c_generation s2 + 1,
                        c_neighbor_ids := {}, c_neighbor_count := 0, c_last_reconnect := rc_done e,
                        c_reconnects := c_reconnects s2 + 1\<rparr>
                else s2\<lparr>c_up := False\<rparr>)"

section \<open>Watchdogs, re-join\<close>

text \<open>
  One turn after 180 s of sleep: the new state and the peers to join, if any. The writer's watchdog
  also raises the request flag; those of the listener and the monitor only set the failure count that
  their reconnection monitor polls.
\<close>

definition stall_step :: "bool \<Rightarrow> ctl \<Rightarrow> ctl" where
  "stall_step notify s =
     (let s1 = s\<lparr>c_stall := c_stall s + 1\<rparr>
      in if 2 \<le> c_stall s1
         then (if notify then (raise_request s1)\<lparr>c_stall := 0\<rparr>
               else s1\<lparr>c_failures := RECONNECT_AFTER_FAILURES, c_stall := 0\<rparr>)
         else s1)"

definition join_request :: "'id list \<Rightarrow> 'id list option" where
  "join_request peers = (if peers = [] then None else Some peers)"

definition w_watchdog_turn :: "(string \<Rightarrow> 'id option) \<Rightarrow> string \<Rightarrow> string option \<Rightarrow> u64 \<Rightarrow> ctl \<Rightarrow> ctl \<times> 'id list option" where
  "w_watchdog_turn parse_id bootstrap file now s =
     (if REBOOTSTRAP_TIMEOUT \<le> now - c_last_notif s
      then (stall_step True s, join_request (bootstrap_peers parse_id bootstrap file))
      else (s\<lparr>c_stall := 0\<rparr>, None))"

definition l_watchdog_turn :: "(string \<Rightarrow> 'id option) \<Rightarrow> string \<Rightarrow> string option \<Rightarrow> u64 \<Rightarrow> ctl \<Rightarrow> ctl \<times> 'id list option" where
  "l_watchdog_turn parse_id bootstrap file now s =
     (if REBOOTSTRAP_TIMEOUT \<le> now - c_last_notif s
      then (stall_step False s,
            join_request (add_missing (parse_bootstrap parse_id bootstrap) (l_load_known_peers parse_id file)))
      else (s\<lparr>c_stall := 0\<rparr>, None))"

definition m_watchdog_turn :: "(string \<Rightarrow> 'id option) \<Rightarrow> string \<Rightarrow> string option \<Rightarrow> u64 \<Rightarrow> ctl \<Rightarrow> ctl \<times> 'id list option" where
  "m_watchdog_turn parse_id bootstrap file now s =
     (if REBOOTSTRAP_TIMEOUT \<le> now - c_last_notif s
      then (stall_step False s,
            join_request (add_missing (parse_bootstrap parse_id bootstrap) (m_load_known_peers parse_id file)))
      else (s\<lparr>c_stall := 0\<rparr>, None))"

definition w_rejoin_turn :: "(string \<Rightarrow> 'id option) \<Rightarrow> string \<Rightarrow> string option \<Rightarrow> 'id list option" where
  "w_rejoin_turn parse_id bootstrap file =
     join_request (add_missing (parse_bootstrap parse_id bootstrap) (load_known_peers parse_id file))"

definition l_rejoin_turn :: "(string \<Rightarrow> 'id option) \<Rightarrow> string \<Rightarrow> string option \<Rightarrow> 'id list option" where
  "l_rejoin_turn parse_id bootstrap file =
     join_request (add_missing (parse_bootstrap parse_id bootstrap) (l_load_known_peers parse_id file))"

definition m_rejoin_turn :: "(string \<Rightarrow> 'id option) \<Rightarrow> string \<Rightarrow> string option \<Rightarrow> 'id list option" where
  "m_rejoin_turn parse_id bootstrap file =
     join_request (add_missing (parse_bootstrap parse_id bootstrap) (m_load_known_peers parse_id file))"

section \<open>Isolation detection\<close>

text \<open>The set of sources seen since the last turn is counted and cleared, always.\<close>

definition w_isolation_turn :: "ctl \<Rightarrow> ctl" where
  "w_isolation_turn s =
     (if c_shutdown s then s
      else
        let count = card (c_sources s); s1 = s\<lparr>c_sources := {}\<rparr>
        in if c_sent s = 0 then s1
           else if count < ISOLATION_MIN_UNIQUE_PEERS then raise_request s1 else s1)"

definition l_isolation_turn :: "ctl \<Rightarrow> ctl" where
  "l_isolation_turn s =
     (if c_shutdown s then s
      else
        let count = card (c_sources s); s1 = s\<lparr>c_sources := {}\<rparr>
        in if c_notifs s = 0 then s1
           else if count < ISOLATION_MIN_UNIQUE_PEERS then raise_request s1 else s1)"

definition m_isolation_turn :: "ctl \<Rightarrow> ctl" where
  "m_isolation_turn s =
     (if c_shutdown s then s
      else if c_notifs s \<noteq> 0 \<and> card (c_sources s) < ISOLATION_MIN_UNIQUE_PEERS
      then raise_request (s\<lparr>c_sources := {}\<rparr>) else s\<lparr>c_sources := {}\<rparr>)"

section \<open>Health report\<close>

datatype health = TaskDead | Stalled | Degraded | Healthy

text \<open>The endpoint recycle: every 12 hours, or when resident memory passes the ceiling.\<close>

definition recycle :: "nat \<Rightarrow> u64 \<Rightarrow> ctl \<Rightarrow> ctl" where
  "recycle t rss s =
     (if PERIODIC_RESET_INTERVAL \<le> t - c_last_reset s \<or> RSS_CEILING_BYTES < rss
      then s\<lparr>c_force_reset := True, c_requested := True, c_notify := True, c_last_reset := t\<rparr>
      else s)"

definition w_health_turn :: "nat \<Rightarrow> u64 \<Rightarrow> u64 \<Rightarrow> bool \<Rightarrow> ctl \<Rightarrow> ctl \<times> health" where
  "w_health_turn t now rss alive s =
     (let since_last = saturating_sub now (c_last_ok s); delta_failed = c_failed s - c_prev_b s;
          status = (if \<not> alive then TaskDead else if REBOOTSTRAP_TIMEOUT < since_last then Stalled
                    else if 0 < delta_failed then Degraded else Healthy)
      in ((recycle t rss s)\<lparr>c_prev_a := c_sent s, c_prev_b := c_failed s\<rparr>, status))"

definition l_health_turn :: "nat \<Rightarrow> u64 \<Rightarrow> u64 \<Rightarrow> ctl \<Rightarrow> ctl \<times> health" where
  "l_health_turn t now rss s =
     (let since_last = saturating_sub now (c_last_notif s);
          delta_failures = saturating_sub (c_failures s) (c_prev_b s);
          status = (if REBOOTSTRAP_TIMEOUT < since_last then Stalled
                    else if 0 < delta_failures then Degraded else Healthy)
      in ((recycle t rss s)\<lparr>c_prev_a := c_notifs s, c_prev_b := c_failures s\<rparr>, status))"

definition m_health_turn :: "nat \<Rightarrow> u64 \<Rightarrow> u64 \<Rightarrow> ctl \<Rightarrow> ctl \<times> health" where
  "m_health_turn t now rss s =
     ((recycle t rss s)\<lparr>c_prev_a := c_notifs s, c_prev_b := c_failures s\<rparr>,
      if REBOOTSTRAP_TIMEOUT < saturating_sub now (c_last_notif s) then Stalled
      else if 0 < saturating_sub (c_failures s) (c_prev_b s) then Degraded else Healthy)"

section \<open>Announcements\<close>

text \<open>A broadcast by a periodic task of the listener or the monitor: the failure count it leaves.\<close>

definition l_announce_result :: "bool \<Rightarrow> ctl \<Rightarrow> ctl" where
  "l_announce_result ok s = (if ok then s\<lparr>c_failures := 0\<rparr> else s\<lparr>c_failures := c_failures s + 1\<rparr>)"

definition l_endorse_result :: "bool \<Rightarrow> ctl \<Rightarrow> ctl" where
  "l_endorse_result ok s = s\<lparr>c_failures := (if ok then 0 else c_failures s + 1)\<rparr>"

text \<open>The metrics an announcement carries; \<open>ids\<close> is the neighbour set in its iteration order.\<close>

definition w_announce_metrics :: "u64 \<Rightarrow> u64 \<Rightarrow> string list \<Rightarrow> ctl \<Rightarrow> announce_metrics" where
  "w_announce_metrics now up ids s =
     \<lparr>m_neighbor_count = Some (c_neighbor_count s), m_neighbors = Some ids, m_uptime_secs = Some up,
      m_msgs_received = Some (c_notifs s), m_msgs_sent = Some (c_sent s),
      m_last_msg_age_secs = Some (saturating_sub now (c_last_notif s)), m_reconnect_count = Some (c_reconnects s)\<rparr>"

definition l_announce_metrics_of :: "u64 \<Rightarrow> u64 \<Rightarrow> string list \<Rightarrow> ctl \<Rightarrow> announce_metrics" where
  "l_announce_metrics_of now up ids s =
     \<lparr>m_neighbor_count = Some (c_neighbor_count s), m_neighbors = Some ids, m_uptime_secs = Some up,
      m_msgs_received = Some (c_notifs s), m_msgs_sent = None,
      m_last_msg_age_secs = Some (saturating_sub now (c_last_notif s)), m_reconnect_count = Some (c_reconnects s)\<rparr>"

text \<open>The endorsement a turn of the endorse task broadcasts, \<open>None\<close> when no publisher is trusted.\<close>

definition endorse_turn :: "gossip_lib \<Rightarrow> string \<Rightarrow> u64 \<Rightarrow> string \<Rightarrow> string \<Rightarrow> string option \<Rightarrow> string list \<Rightarrow> string option outcome" where
  "endorse_turn L k now node vers fname keys =
     (if keys = [] then Ret None
      else bind_outcome (sign_endorse L k (announce_new_endorse now node vers (pubkey_hex L k) keys fname)) (\<lambda>a.
        Ret (Some (to_vec L (announce_json a)))))"

section \<open>Lemmas\<close>

lemma m_reconnect_eq: "m_reconnect_turn = l_reconnect_turn"
  by (intro ext) (simp add: m_reconnect_turn_def l_reconnect_turn_def Let_def elapsed_def)

lemma watchdogs_eq: "m_watchdog_turn = l_watchdog_turn"
  by (intro ext) (simp add: m_watchdog_turn_def l_watchdog_turn_def copies_agree)

text \<open>The outcome of a turn, in one equation per case.\<close>

lemma l_reconnect_idle:
  "\<not> (RECONNECT_AFTER_FAILURES \<le> c_failures s \<or> c_requested s \<or> c_force_reset s) \<Longrightarrow>
   c_sender (l_reconnect_turn e s) = c_sender s \<and> c_last_reconnect (l_reconnect_turn e s) = c_last_reconnect s"
  by (simp add: l_reconnect_turn_def Let_def)

lemma l_reconnect_cooling:
  "\<not> c_force_reset s \<Longrightarrow> elapsed e s < COOLDOWN \<Longrightarrow>
   c_sender (l_reconnect_turn e s) = c_sender s \<and> c_last_reconnect (l_reconnect_turn e s) = c_last_reconnect s"
  by (simp add: l_reconnect_turn_def Let_def)

lemma l_reconnect_acts:
  assumes "\<not> c_shutdown s" and "RECONNECT_AFTER_FAILURES \<le> c_failures s \<or> c_requested s \<or> c_force_reset s"
    and "c_force_reset s \<or> COOLDOWN \<le> elapsed e s" and "rc_subscribe_ok e"
  shows "c_sender (l_reconnect_turn e s) = Suc (c_sender s)" "c_last_reconnect (l_reconnect_turn e s) = rc_done e"
    "c_up (l_reconnect_turn e s)" "c_generation (l_reconnect_turn e s) = c_generation s + 1"
    "c_failures (l_reconnect_turn e s) = 0" "c_neighbor_count (l_reconnect_turn e s) = 0"
  using assms by (auto simp: l_reconnect_turn_def Let_def)

lemma l_reconnect_not_subscribed:
  "\<not> rc_subscribe_ok e \<or> c_shutdown s \<Longrightarrow>
   c_sender (l_reconnect_turn e s) = c_sender s \<and> c_last_reconnect (l_reconnect_turn e s) = c_last_reconnect s"
  by (auto simp: l_reconnect_turn_def Let_def)

text \<open>
  The tasks interleave in any order; an event is one turn of one of them. \<open>Gossip_seen\<close> is what the
  receive task does to the shared counters when a notification arrives.
\<close>

datatype ctl_event =
    Reconnect_monitor rc_env
  | Watchdog "string option" u64
  | Isolation_check
  | Health_report nat u64 u64
  | Announce bool
  | Endorse bool
  | Gossip_seen string u64

fun l_event :: "(string \<Rightarrow> 'id option) \<Rightarrow> string \<Rightarrow> ctl_event \<Rightarrow> ctl \<Rightarrow> ctl" where
  "l_event pid boot (Reconnect_monitor e) s = l_reconnect_turn e s"
| "l_event pid boot (Watchdog f now) s = fst (l_watchdog_turn pid boot f now s)"
| "l_event pid boot Isolation_check s = l_isolation_turn s"
| "l_event pid boot (Health_report t now rss) s = fst (l_health_turn t now rss s)"
| "l_event pid boot (Announce ok) s = l_announce_result ok s"
| "l_event pid boot (Endorse ok) s = l_endorse_result ok s"
| "l_event pid boot (Gossip_seen src now) s =
     s\<lparr>c_last_notif := now, c_notifs := c_notifs s + 1, c_sources := insert src (c_sources s)\<rparr>"

fun event_ok :: "ctl_event \<Rightarrow> bool" where
  "event_ok (Reconnect_monitor e) = rc_ok e"
| "event_ok _ = True"

fun event_done :: "ctl_event \<Rightarrow> nat" where
  "event_done (Reconnect_monitor e) = rc_done e"
| "event_done _ = 0"

lemma other_tasks_keep_subscription:
  "(\<And>e. ev \<noteq> Reconnect_monitor e) \<Longrightarrow> c_sender (l_event pid boot ev s) = c_sender s
     \<and> c_last_reconnect (l_event pid boot ev s) = c_last_reconnect s"
  by (cases ev) (auto simp: l_watchdog_turn_def stall_step_def raise_request_def l_isolation_turn_def
      l_health_turn_def recycle_def l_announce_result_def l_endorse_result_def Let_def)

lemma l_reconnect_cases:
  assumes ok: "rc_ok e"
  shows "(c_sender (l_reconnect_turn e s) = c_sender s \<and> c_last_reconnect (l_reconnect_turn e s) = c_last_reconnect s)
    \<or> (c_sender (l_reconnect_turn e s) = Suc (c_sender s) \<and> c_last_reconnect (l_reconnect_turn e s) = rc_done e
      \<and> (c_force_reset s \<or> c_last_reconnect s + COOLDOWN \<le> rc_done e))" (is "?idle \<or> ?act")
proof (cases "\<not> c_shutdown s \<and> rc_subscribe_ok e \<and> (c_force_reset s \<or> COOLDOWN \<le> elapsed e s)
    \<and> (RECONNECT_AFTER_FAILURES \<le> c_failures s \<or> c_requested s \<or> c_force_reset s)")
  case True
  then have "c_force_reset s \<or> c_last_reconnect s + COOLDOWN \<le> rc_done e"
    using ok by (auto simp: elapsed_def rc_ok_def COOLDOWN_def)
  with True l_reconnect_acts [of s e] show ?thesis by blast
next
  case False
  then have ?idle
    using l_reconnect_idle [of s e] l_reconnect_cooling [of s e] l_reconnect_not_subscribed [of e s]
    by (meson not_le)
  then show ?thesis by blast
qed

interpretation listener: cooled "l_event pid boot" c_sender c_last_reconnect event_done event_ok c_force_reset
  for pid :: "string \<Rightarrow> 'id option" and boot :: string
proof
  fix ev s
  assume ok: "event_ok ev"
  show "(c_sender (l_event pid boot ev s) = c_sender s \<and> c_last_reconnect (l_event pid boot ev s) = c_last_reconnect s)
    \<or> (c_sender (l_event pid boot ev s) = Suc (c_sender s) \<and> c_last_reconnect (l_event pid boot ev s) = event_done ev
      \<and> (c_force_reset s \<or> c_last_reconnect s + COOLDOWN \<le> event_done ev))"
  proof (cases "\<exists>e. ev = Reconnect_monitor e")
    case True
    then obtain e where "ev = Reconnect_monitor e" by blast
    with ok l_reconnect_cases [of e s] show ?thesis by simp
  next
    case False
    with other_tasks_keep_subscription [of ev pid boot s] show ?thesis by blast
  qed
qed

lemma stall_step_second:
  "c_stall s = 1 \<Longrightarrow> c_failures (stall_step n s) = RECONNECT_AFTER_FAILURES \<and> (n \<longrightarrow> c_requested (stall_step n s))
     \<and> c_stall (stall_step n s) = 0 \<and> c_last_reconnect (stall_step n s) = c_last_reconnect s
     \<and> c_shutdown (stall_step n s) = c_shutdown s \<and> c_sender (stall_step n s) = c_sender s
     \<and> c_force_reset (stall_step n s) = c_force_reset s \<and> c_last_notif (stall_step n s) = c_last_notif s
     \<and> c_generation (stall_step n s) = c_generation s"
  by (simp add: stall_step_def raise_request_def Let_def)

lemma stall_step_first:
  "c_stall s = 0 \<Longrightarrow> stall_step n s = s\<lparr>c_stall := 1\<rparr>"
  by (simp add: stall_step_def Let_def word_le_nat_alt)

lemma stalled_turn:
  "REBOOTSTRAP_TIMEOUT \<le> now - c_last_notif s \<Longrightarrow> l_event pid boot (Watchdog f now) s = stall_step False s"
  by (simp add: l_watchdog_turn_def)

lemma two_stalls:
  assumes "c_stall s = 0" and "REBOOTSTRAP_TIMEOUT \<le> n1 - c_last_notif s" and "REBOOTSTRAP_TIMEOUT \<le> n2 - c_last_notif s"
  shows "turns (l_event pid boot) [Watchdog f n1, Watchdog f n2] s
    = s\<lparr>c_failures := RECONNECT_AFTER_FAILURES, c_stall := 0\<rparr>"
proof -
  have "l_event pid boot (Watchdog f n1) s = s\<lparr>c_stall := 1\<rparr>"
    using assms by (simp only: stalled_turn stall_step_first)
  then show ?thesis
    using assms by (simp add: stalled_turn del: l_event.simps) (simp add: stall_step_def Let_def)
qed

section \<open>Properties\<close>

definition demo_ctl :: ctl where
  "demo_ctl = \<lparr>c_shutdown = False, c_failures = 0, c_requested = False, c_force_reset = False, c_notify = False,
     c_last_notif = 1000, c_notifs = 1, c_sent = 1, c_failed = 0, c_last_ok = 1000, c_generation = 0,
     c_neighbor_count = 0, c_neighbor_ids = {}, c_sources = {}, c_reconnects = 0, c_last_reconnect = 0,
     c_consecutive = 0, c_endpoint = 0, c_sender = 0, c_up = True, c_stall = 0, c_last_reset = 0, c_prev_a = 0, c_prev_b = 0\<rparr>"

definition demo_rc :: "nat \<Rightarrow> rc_env" where
  "demo_rc t = \<lparr>rc_now = t, rc_done = t, rc_bind_ok = True, rc_subscribe_ok = True\<rparr>"

definition demo_events :: "ctl_event list" where
  "demo_events = [Isolation_check, Reconnect_monitor (demo_rc (40 * 10 ^ 9)), Isolation_check,
     Reconnect_monitor (demo_rc (50 * 10 ^ 9))]"

text \<open>C29. Rate limit: however the tasks of the listener interleave, as long as the recycle flag is not
  raised, \<open>n\<close> new subscriptions take at least \<open>n\<close> cooldowns of 30 seconds, whatever the number of
  requests. (The monitor's reconnection monitor is the same function, \<open>m_reconnect_eq\<close>.)\<close>

theorem reconnects_are_rate_limited:
  assumes "calm (l_event pid boot) event_ok c_force_reset evs s"
  shows "c_sender s \<le> c_sender (turns (l_event pid boot) evs s)
    \<and> c_last_reconnect s + COOLDOWN * (c_sender (turns (l_event pid boot) evs s) - c_sender s)
      \<le> c_last_reconnect (turns (l_event pid boot) evs s)"
  by (rule listener.rate [OF assms])

theorem reconnects_are_rate_limited_witness:
  "calm (l_event Some []) event_ok c_force_reset demo_events demo_ctl
   \<and> COOLDOWN * c_sender (turns (l_event Some []) demo_events demo_ctl)
     \<le> c_last_reconnect (turns (l_event Some []) demo_events demo_ctl)"
proof -
  have "calm (l_event Some []) event_ok c_force_reset demo_events demo_ctl"
    by (simp add: demo_events_def demo_ctl_def demo_rc_def l_isolation_turn_def raise_request_def l_reconnect_turn_def rc_ok_def
        elapsed_def COOLDOWN_def ISOLATION_MIN_UNIQUE_PEERS_def RECONNECT_AFTER_FAILURES_def
        ENDPOINT_RESET_AFTER_RECONNECTS_def ISOLATION_CHECK_INTERVAL_def Let_def)
  moreover have "c_sender demo_ctl = 0" "c_last_reconnect demo_ctl = 0" by (simp_all add: demo_ctl_def)
  ultimately show ?thesis
    using reconnects_are_rate_limited [of Some "[]" demo_events demo_ctl] by simp
qed

text \<open>Recovery: a subscription that delivers nothing over two watchdog turns is replaced. After both
  turns the first turn of the reconnection monitor that is out of the cooldown, and whose new
  subscription succeeds, installs a new sender, restarts the receive generation and clears the
  failure count.\<close>

theorem stalled_subscription_is_replaced:
  assumes "\<not> c_shutdown s" and "c_stall s = 0"
    and "REBOOTSTRAP_TIMEOUT \<le> n1 - c_last_notif s" and "REBOOTSTRAP_TIMEOUT \<le> n2 - c_last_notif s"
    and "COOLDOWN \<le> elapsed e s" and "rc_subscribe_ok e"
  shows "let t = turns (l_event pid boot) [Watchdog f n1, Watchdog f n2, Reconnect_monitor e] s
    in c_sender t = Suc (c_sender s) \<and> c_up t \<and> c_generation t = c_generation s + 1 \<and> c_failures t = 0"
proof -
  let ?u = "s\<lparr>c_failures := RECONNECT_AFTER_FAILURES, c_stall := 0\<rparr>"
  have "turns (l_event pid boot) [Watchdog f n1, Watchdog f n2, Reconnect_monitor e] s = l_reconnect_turn e ?u"
    using two_stalls [OF assms(2-4), of pid boot f] by (simp del: l_event.simps(2))
  moreover have "\<not> c_shutdown ?u" "COOLDOWN \<le> elapsed e ?u" using assms by (simp_all add: elapsed_def)
  ultimately show ?thesis using l_reconnect_acts [of ?u e] assms(6) by (simp add: Let_def)
qed

theorem stalled_subscription_is_replaced_witness:
  "c_sender (turns (l_event Some []) [Watchdog None 1200, Watchdog None 1400, Reconnect_monitor (demo_rc (40 * 10 ^ 9))] demo_ctl) = 1"
  using stalled_subscription_is_replaced [of demo_ctl 1200 1400 "demo_rc (40 * 10 ^ 9)" Some "[]" None]
  by (simp add: demo_ctl_def demo_rc_def REBOOTSTRAP_TIMEOUT_def COOLDOWN_def elapsed_def Let_def del: turns.simps l_event.simps)

text \<open>The listener's watchdog escalates only through the failure count, which a successful
  announcement resets: when one falls between the second stalled turn and the turn of the
  reconnection monitor, the stalled subscription is kept.\<close>

theorem announce_masks_stall:
  assumes "c_stall s = 0" and "\<not> c_requested s" and "\<not> c_force_reset s"
    and "REBOOTSTRAP_TIMEOUT \<le> n1 - c_last_notif s" and "REBOOTSTRAP_TIMEOUT \<le> n2 - c_last_notif s"
  shows "c_sender (turns (l_event pid boot) [Watchdog f n1, Watchdog f n2, Announce True, Reconnect_monitor e] s) = c_sender s"
proof -
  let ?u = "s\<lparr>c_stall := 0, c_failures := 0\<rparr>"
  have "turns (l_event pid boot) [Watchdog f n1, Watchdog f n2, Announce True, Reconnect_monitor e] s = l_reconnect_turn e ?u"
    using two_stalls [OF assms(1,4,5), of pid boot f] by (simp add: l_announce_result_def del: l_event.simps(2))
  with assms(2,3) l_reconnect_idle [of ?u e] show ?thesis by (simp add: RECONNECT_AFTER_FAILURES_def)
qed

theorem announce_masks_stall_witness:
  "c_sender (turns (l_event Some [])
     [Watchdog None 1200, Watchdog None 1400, Announce True, Reconnect_monitor (demo_rc (40 * 10 ^ 9))] demo_ctl) = 0"
  using announce_masks_stall [of demo_ctl 1200 1400 Some "[]" None "demo_rc (40 * 10 ^ 9)"]
  by (simp add: demo_ctl_def REBOOTSTRAP_TIMEOUT_def del: turns.simps l_event.simps)

end
