(* ===== verification/Writer_Receive.thy ===== *)
theory Writer_Receive
  imports Reconnect
begin

text \<open>
  The writer's receive task (\<^verbatim>\<open>spawn_receive_task\<close>): it consumes the events of one gossip
  subscription, remembers peers, extends the set of trusted publishers by signed endorsements and
  follows join suggestions of trusted monitors. A turn is one pass of its loop. A panic ends the task
  and leaves the shared state as it was at the panic; the lock of the trusted set is then poisoned if
  it was held for writing. The interface \<open>trust_keeper\<close> is what both receive tasks promise about the
  trusted set.
\<close>

section \<open>Interface: a set of trusted keys extended by endorsements\<close>

text \<open>Who may come to be trusted: the initial keys and, through endorsements, keys reached from them.\<close>

inductive trust_chain :: "(string \<times> string list) set \<Rightarrow> string set \<Rightarrow> string \<Rightarrow> bool"
  for endorsements :: "(string \<times> string list) set" and initial :: "string set" where
  initially: "k \<in> initial \<Longrightarrow> trust_chain endorsements initial k"
| endorsed: "trust_chain endorsements initial sn \<Longrightarrow> (sn, keys) \<in> endorsements \<Longrightarrow> k \<in> set keys
    \<Longrightarrow> trust_chain endorsements initial k"

lemma trust_chain_mono: "trust_chain E I k \<Longrightarrow> E \<subseteq> E' \<Longrightarrow> trust_chain E' I k"
  by (induction rule: trust_chain.induct) (auto intro: trust_chain.intros)

lemma trust_chain_trans:
  "trust_chain E J k \<Longrightarrow> (\<And>j. j \<in> J \<Longrightarrow> trust_chain E I j) \<Longrightarrow> trust_chain E I k"
  by (induction rule: trust_chain.induct) (auto intro: trust_chain.intros)

lemma trust_chain_none: "trust_chain {} I k \<longleftrightarrow> k \<in> I"
  by (auto intro: initially elim: trust_chain.cases)

text \<open>
  \<open>endorses\<close> is the sender and the keys of an input that is a correctly signed endorsement. A turn
  keeps the trusted keys and adds only keys that a trusted sender endorses in its input; clients get
  the chain of trust over a run.
\<close>

locale trust_keeper =
  fixes turn :: "'e \<Rightarrow> 's \<Rightarrow> 's"
    and trusted :: "'s \<Rightarrow> string set"
    and endorses :: "'e \<Rightarrow> (string \<times> string list) option"
  assumes kept: "trusted s \<subseteq> trusted (turn e s)"
    and grown: "k \<in> trusted (turn e s) \<Longrightarrow>
      k \<in> trusted s \<or> (\<exists>sn keys. endorses e = Some (sn, keys) \<and> sn \<in> trusted s \<and> k \<in> set keys)"
begin

lemma kept_run: "trusted s \<subseteq> trusted (turns turn es s)"
proof (induction es arbitrary: s)
  case (Cons e es)
  from kept [of s e] Cons.IH [of "turn e s"] show ?case by simp
qed simp

lemma chain_run:
  "k \<in> trusted (turns turn es s) \<Longrightarrow> trust_chain {p. \<exists>e \<in> set es. endorses e = Some p} (trusted s) k"
proof (induction es arbitrary: s)
  case (Cons e es)
  let ?E = "{p. \<exists>e' \<in> set (e # es). endorses e' = Some p}"
  from Cons have "trust_chain {p. \<exists>e \<in> set es. endorses e = Some p} (trusted (turn e s)) k" by simp
  then have "trust_chain ?E (trusted (turn e s)) k" by (rule trust_chain_mono) auto
  then show ?case
  proof (rule trust_chain_trans)
    fix j assume "j \<in> trusted (turn e s)"
    with grown [of j e s] show "trust_chain ?E (trusted s) j"
      by (auto intro: initially endorsed)
  qed
qed (simp add: initially)

lemma no_endorsement_run: "\<forall>e \<in> set es. endorses e = None \<Longrightarrow> trusted (turns turn es s) = trusted s"
proof -
  assume n: "\<forall>e \<in> set es. endorses e = None"
  then have "{p. \<exists>e \<in> set es. endorses e = Some p} = {}" by auto
  with chain_run [of _ es s] kept_run [of s es] show ?thesis by (auto simp: trust_chain_none)
qed

end

section \<open>State\<close>

datatype task_status = Running | Ended | Panicked

text \<open>What \<^verbatim>\<open>receiver.next()\<close> gives within its 30 seconds; a message carries its content and its sender.\<close>

datatype 'id gossip_input =
    Msg string string
  | Neighbor_up 'id
  | Neighbor_down 'id
  | Lagged
  | Receiver_error
  | Receiver_closed
  | Receive_timeout

record 'id recv =
  r_ctl :: ctl
  r_status :: task_status
  r_trusted :: "string set"
  r_trusted_poisoned :: bool
  r_trusted_file :: "string option"
  r_peers_file :: "string option"
  r_names :: "string \<rightharpoonup> string"
  r_joins :: "'id list list"

text \<open>
  The configuration of the task, with the identifier type of \<^verbatim>\<open>iroh\<close>, and the environment of one
  turn: the clock at its two readings, whether the files can be written, the order of a \<^verbatim>\<open>HashSet\<close>.
\<close>

record 'id recv_cfg =
  rf_lib :: gossip_lib
  rf_parse_id :: "string \<Rightarrow> 'id option"
  rf_show_id :: "'id \<Rightarrow> string"
  rf_me :: 'id
  rf_auto_trust :: bool
  rf_monitors :: "string set"
  rf_generation :: u64

record recv_env =
  ri_now :: u64
  ri_now2 :: u64
  ri_peers_ok :: bool
  ri_trusted_ok :: bool
  ri_order :: "string set \<Rightarrow> string list"

section \<open>Messages\<close>

definition w_suggest :: "'id recv_cfg \<Rightarrow> recv_env \<Rightarrow> peer_suggest \<Rightarrow> 'id recv \<Rightarrow> 'id recv" where
  "w_suggest C E g s =
     (if s_target_node_id g \<noteq> rf_show_id C (rf_me C) then s
      else (case suggest_verify_signature (rf_lib C) g of
              Inl _ \<Rightarrow> s
            | Inr ok \<Rightarrow>
                if \<not> ok then s
                else if s_sender g \<notin> rf_monitors C then s
                else if saturating_sub (ri_now2 E) (s_timestamp g) < 300 then
                  (let peers = List.map_filter (rf_parse_id C) (s_suggested_peers g)
                   in if peers = [] then s
                      else (case slice_to (s_sender g) 8 of
                              Panic \<Rightarrow> s\<lparr>r_status := Panicked\<rparr>
                            | Ret _ \<Rightarrow> s\<lparr>r_joins := r_joins s @ [peers]\<rparr>))
                else s))"

definition w_announce :: "'id recv_cfg \<Rightarrow> recv_env \<Rightarrow> peer_announce \<Rightarrow> 'id recv \<Rightarrow> 'id recv" where
  "w_announce C E a s =
     (let s1 = (case a_friendly_name a of
                  Some name \<Rightarrow> s\<lparr>r_names := (r_names s)(a_node_id a \<mapsto> name)\<rparr>
                | None \<Rightarrow> s)
      in case rf_parse_id C (a_node_id a) of
           Some node \<Rightarrow> s1\<lparr>r_peers_file := save_peer_if_new (rf_show_id C) (ri_peers_ok E) node (rf_me C) (r_peers_file s1)\<rparr>
         | None \<Rightarrow> s1)"

text \<open>
  Adding the endorsed keys: each new key is inserted, then its first eight bytes are printed, which
  panics inside a character. The set, the number added, and whether the loop panicked.
\<close>

fun add_keys :: "string list \<Rightarrow> string set \<Rightarrow> nat \<Rightarrow> string set \<times> nat \<times> bool" where
  "add_keys [] tp added = (tp, added, False)"
| "add_keys (k # ks) tp added =
     (if k \<in> tp then add_keys ks tp added
      else (case slice_to k (min 8 (length k)) of
              Panic \<Rightarrow> (insert k tp, Suc added, True)
            | Ret _ \<Rightarrow> add_keys ks (insert k tp) (Suc added)))"

definition w_endorse :: "'id recv_cfg \<Rightarrow> recv_env \<Rightarrow> peer_announce \<Rightarrow> 'id recv \<Rightarrow> 'id recv" where
  "w_endorse C E a s =
     (if \<not> rf_auto_trust C then s
      else (case verify_endorse_signature (rf_lib C) a of
              Panic \<Rightarrow> s\<lparr>r_status := Panicked\<rparr>
            | Ret (Inl _) \<Rightarrow> s
            | Ret (Inr ok) \<Rightarrow>
                if \<not> ok then s
                else (case a_sender a of
                        None \<Rightarrow> s
                      | Some sn \<Rightarrow>
                          (case slice_to sn (min 8 (length sn)) of
                             Panic \<Rightarrow> s\<lparr>r_status := Panicked\<rparr>
                           | Ret _ \<Rightarrow>
                               if r_trusted_poisoned s then s\<lparr>r_status := Panicked\<rparr>
                               else if sn \<notin> r_trusted s then s
                               else (case a_node_list a of
                                       None \<Rightarrow> s
                                     | Some keys \<Rightarrow>
                                         (case add_keys keys (r_trusted s) 0 of (tp, added, panic) \<Rightarrow>
                                            if panic then s\<lparr>r_trusted := tp, r_trusted_poisoned := True, r_status := Panicked\<rparr>
                                            else if 0 < added
                                            then s\<lparr>r_trusted := tp,
                                                   r_trusted_file := save_trusted_publishers (ri_order E) (ri_trusted_ok E) tp (r_trusted_file s)\<rparr>
                                            else s\<lparr>r_trusted := tp\<rparr>))))))"

text \<open>A notification is only printed; its sender is cut to eight bytes without a length check.\<close>

definition w_notification :: "gossip_notification \<Rightarrow> 'id recv \<Rightarrow> 'id recv" where
  "w_notification n s = (case slice_to (n_sender n) 8 of Panic \<Rightarrow> s\<lparr>r_status := Panicked\<rparr> | Ret _ \<Rightarrow> s)"

definition w_dispatch :: "'id recv_cfg \<Rightarrow> recv_env \<Rightarrow> string \<Rightarrow> 'id recv \<Rightarrow> 'id recv" where
  "w_dispatch C E content s =
     (let rest = (case parse_announce (rf_lib C) content of
                    Some a \<Rightarrow>
                      if a_msg_type a = ''peer_announce'' then w_announce C E a s
                      else if a_msg_type a = ''peer_endorse'' then w_endorse C E a s
                      else s
                  | None \<Rightarrow>
                      (case parse_notification (rf_lib C) content of
                         Some n \<Rightarrow> w_notification n s
                       | None \<Rightarrow> s))
      in case parse_suggest (rf_lib C) content of
           Some g \<Rightarrow> if s_msg_type g = ''peer_suggest'' then w_suggest C E g s else rest
         | None \<Rightarrow> rest)"

definition w_message :: "'id recv_cfg \<Rightarrow> recv_env \<Rightarrow> string \<Rightarrow> string \<Rightarrow> 'id recv \<Rightarrow> 'id recv" where
  "w_message C E content from_peer s =
     (let c = r_ctl s
      in w_dispatch C E content
           (s\<lparr>r_ctl := c\<lparr>c_last_notif := ri_now E, c_notifs := c_notifs c + 1, c_sources := insert from_peer (c_sources c)\<rparr>\<rparr>))"

section \<open>The loop\<close>

text \<open>Leaving the loop: the active task asks for a reconnect, a stale one or a shutdown does not.\<close>

definition w_task_end :: "'id recv_cfg \<Rightarrow> 'id recv \<Rightarrow> 'id recv" where
  "w_task_end C s =
     (let c = r_ctl s; s1 = s\<lparr>r_status := Ended\<rparr>
      in if c_shutdown c then s1
         else if c_generation c = rf_generation C then s1\<lparr>r_ctl := raise_request c\<rparr> else s1)"

definition w_neighbor_up :: "'id recv_cfg \<Rightarrow> recv_env \<Rightarrow> 'id \<Rightarrow> 'id recv \<Rightarrow> 'id recv" where
  "w_neighbor_up C E node s =
     (let c = r_ctl s
      in s\<lparr>r_ctl := c\<lparr>c_neighbor_count := c_neighbor_count c + 1,
                      c_neighbor_ids := insert (rf_show_id C node) (c_neighbor_ids c)\<rparr>,
           r_peers_file := save_peer_if_new (rf_show_id C) (ri_peers_ok E) node (rf_me C) (r_peers_file s)\<rparr>)"

definition w_neighbor_down :: "'id recv_cfg \<Rightarrow> 'id \<Rightarrow> 'id recv \<Rightarrow> 'id recv" where
  "w_neighbor_down C node s =
     (let c = r_ctl s
      in s\<lparr>r_ctl := c\<lparr>c_neighbor_count := c_neighbor_count c - 1,
                      c_neighbor_ids := c_neighbor_ids c - {rf_show_id C node}\<rparr>\<rparr>)"

fun w_receive_event :: "'id recv_cfg \<Rightarrow> recv_env \<Rightarrow> 'id gossip_input \<Rightarrow> 'id recv \<Rightarrow> 'id recv" where
  "w_receive_event C E (Msg content from_peer) s = w_message C E content from_peer s"
| "w_receive_event C E (Neighbor_up node) s = w_neighbor_up C E node s"
| "w_receive_event C E (Neighbor_down node) s = w_neighbor_down C node s"
| "w_receive_event C E Lagged s = s"
| "w_receive_event C E Receiver_error s = w_task_end C s"
| "w_receive_event C E _ s = s"

definition w_receive_turn :: "'id recv_cfg \<Rightarrow> recv_env \<times> 'id gossip_input \<Rightarrow> 'id recv \<Rightarrow> 'id recv" where
  "w_receive_turn C ei s =
     (case ei of (E, i) \<Rightarrow>
       if r_status s \<noteq> Running then s
       else if i = Receiver_closed then w_task_end C s
       else if i = Receive_timeout then
         (if 2 * REBOOTSTRAP_TIMEOUT < saturating_sub (ri_now E) (c_last_notif (r_ctl s)) then w_task_end C s else s)
       else if c_generation (r_ctl s) \<noteq> rf_generation C then s\<lparr>r_status := Ended\<rparr>
       else w_receive_event C E i s)"

section \<open>Lemmas\<close>

lemmas w_recv_defs = w_suggest_def w_announce_def w_endorse_def w_notification_def w_dispatch_def w_message_def
  w_neighbor_up_def w_neighbor_down_def w_task_end_def

lemma add_keys_set:
  "add_keys ks tp n = (tp', m, p) \<Longrightarrow> tp \<subseteq> tp' \<and> tp' \<subseteq> tp \<union> set ks \<and> (\<not> p \<longrightarrow> tp' = tp \<union> set ks)"
proof (induction ks arbitrary: tp n)
  case (Cons k ks)
  show ?case
  proof (cases "k \<in> tp")
    case True
    with Cons show ?thesis by (simp add: insert_absorb) blast
  next
    case new: False
    show ?thesis
    proof (cases "slice_to k (min 8 (length k))")
      case (Ret x)
      with new Cons.prems have "add_keys ks (insert k tp) (Suc n) = (tp', m, p)" by simp
      from Cons.IH [OF this] show ?thesis by auto
    next
      case Panic
      with new Cons.prems show ?thesis by auto
    qed
  qed
qed simp

lemma add_keys_ascii: "list_all ascii_str ks \<Longrightarrow> \<exists>m. add_keys ks tp n = (tp \<union> set ks, m, False) \<and> n \<le> m \<and> (n < m \<longleftrightarrow> \<not> set ks \<subseteq> tp)"
proof (induction ks arbitrary: tp n)
  case (Cons k ks)
  then have k: "slice_to k (min 8 (length k)) = Ret (take (min 8 (length k)) k)" by (simp add: slice_to_ascii)
  show ?case
  proof (cases "k \<in> tp")
    case True
    with Cons.IH [of tp n] Cons.prems show ?thesis by (auto simp: insert_absorb)
  next
    case False
    with Cons.IH [of "insert k tp" "Suc n"] Cons.prems k show ?thesis by auto
  qed
qed simp

text \<open>The endorsement that an input carries, if its signature is right.\<close>

definition w_endorsement :: "'id recv_cfg \<Rightarrow> recv_env \<times> 'id gossip_input \<Rightarrow> (string \<times> string list) option" where
  "w_endorsement C ei =
     (case snd ei of
        Msg content from_peer \<Rightarrow>
          (case parse_announce (rf_lib C) content of
             Some a \<Rightarrow>
               if rf_auto_trust C \<and> a_msg_type a = ''peer_endorse'' \<and> verify_endorse_signature (rf_lib C) a = Ret (Ok True)
               then (case (a_sender a, a_node_list a) of (Some sn, Some keys) \<Rightarrow> Some (sn, keys) | _ \<Rightarrow> None)
               else None
           | None \<Rightarrow> None)
      | _ \<Rightarrow> None)"

lemma w_endorse_trusted:
  "r_trusted s \<subseteq> r_trusted (w_endorse C E a s)"
  "k \<in> r_trusted (w_endorse C E a s) \<Longrightarrow> k \<notin> r_trusted s \<Longrightarrow>
     rf_auto_trust C \<and> verify_endorse_signature (rf_lib C) a = Ret (Ok True)
     \<and> (\<exists>sn keys. a_sender a = Some sn \<and> a_node_list a = Some keys \<and> sn \<in> r_trusted s \<and> k \<in> set keys)"
  by (auto simp: w_endorse_def dest!: add_keys_set
      split: if_splits outcome.splits sum.splits option.splits prod.splits)

lemma others_keep_trusted:
  "r_trusted (w_suggest C E g s) = r_trusted s" "r_trusted (w_announce C E a s) = r_trusted s"
  "r_trusted (w_notification n s) = r_trusted s" "r_trusted (w_task_end C s) = r_trusted s"
  "r_trusted (w_neighbor_up C E i s) = r_trusted s" "r_trusted (w_neighbor_down C i s) = r_trusted s"
  by (auto simp: w_recv_defs Let_def split: sum.split outcome.split option.split)

lemma w_dispatch_trusted:
  "r_trusted s \<subseteq> r_trusted (w_dispatch C E content s)"
  "k \<in> r_trusted (w_dispatch C E content s) \<Longrightarrow> k \<notin> r_trusted s \<Longrightarrow>
     \<exists>a. parse_announce (rf_lib C) content = Some a \<and> a_msg_type a = ''peer_endorse'' \<and> k \<in> r_trusted (w_endorse C E a s)"
  using w_endorse_trusted(1) [of s C E]
  by (auto simp: w_dispatch_def others_keep_trusted Let_def split: option.splits if_splits)

lemma w_dispatch_endorsement:
  assumes "k \<in> r_trusted (w_dispatch C E content s)" and "k \<notin> r_trusted s"
  shows "\<exists>sn keys. w_endorsement C (E', Msg content from_peer) = Some (sn, keys) \<and> sn \<in> r_trusted s \<and> k \<in> set keys"
  using w_dispatch_trusted(2) [OF assms] w_endorse_trusted(2) assms(2)
  by (fastforce simp: w_endorsement_def)

interpretation writer_trust: trust_keeper "w_receive_turn C" r_trusted "w_endorsement C"
  for C :: "'id recv_cfg"
proof
  fix s :: "'id recv" and ei :: "recv_env \<times> 'id gossip_input"
  obtain E i where ei: "ei = (E, i)" by fastforce
  show "r_trusted s \<subseteq> r_trusted (w_receive_turn C ei s)"
    using w_dispatch_trusted(1) [of _ C E]
    by (cases i) (fastforce simp: w_receive_turn_def ei w_message_def Let_def others_keep_trusted)+
  fix k
  assume k: "k \<in> r_trusted (w_receive_turn C ei s)"
  show "k \<in> r_trusted s \<or> (\<exists>sn keys. w_endorsement C ei = Some (sn, keys) \<and> sn \<in> r_trusted s \<and> k \<in> set keys)"
  proof (cases i)
    case (Msg content from_peer)
    let ?c = "r_ctl s"
    let ?t = "s\<lparr>r_ctl := ?c\<lparr>c_last_notif := ri_now E, c_notifs := c_notifs ?c + 1, c_sources := insert from_peer (c_sources ?c)\<rparr>\<rparr>"
    from k Msg have "k \<in> r_trusted s \<or> k \<in> r_trusted (w_dispatch C E content ?t)"
      by (auto simp: w_receive_turn_def ei w_message_def Let_def split: if_splits)
    with w_dispatch_endorsement [of k C E content ?t E from_peer] Msg ei show ?thesis by auto
  qed (use k in \<open>auto simp: w_receive_turn_def ei others_keep_trusted split: if_splits\<close>)
qed

lemma joins_kept:
  "r_joins (w_announce C E a s) = r_joins s" "r_joins (w_endorse C E a s) = r_joins s"
  "r_joins (w_notification n s) = r_joins s" "r_joins (w_task_end C s) = r_joins s"
  "r_joins (w_neighbor_up C E i s) = r_joins s" "r_joins (w_neighbor_down C i s) = r_joins s"
  by (auto simp: w_recv_defs Let_def split: sum.split outcome.split option.split prod.split)

definition suggestion_ok :: "'id recv_cfg \<Rightarrow> recv_env \<Rightarrow> peer_suggest \<Rightarrow> bool" where
  "suggestion_ok C E g \<longleftrightarrow>
     s_msg_type g = ''peer_suggest'' \<and> s_target_node_id g = rf_show_id C (rf_me C) \<and> s_sender g \<in> rf_monitors C
     \<and> check_sig (rf_lib C) (s_sender g) (s_signature g) (to_vec (rf_lib C) (canonical_suggest g)) = Ok True
     \<and> unat (ri_now2 E) - unat (s_timestamp g) < 300"

lemma w_suggest_joins:
  "s_msg_type g = ''peer_suggest'' \<Longrightarrow> r_joins (w_suggest C E g s) \<noteq> r_joins s \<Longrightarrow> suggestion_ok C E g
     \<and> r_joins (w_suggest C E g s) = r_joins s @ [List.map_filter (rf_parse_id C) (s_suggested_peers g)]"
  by (auto simp: w_suggest_def suggestion_ok_def suggest_verify_signature_def Let_def word_less_nat_alt
      unat_saturating_sub split: sum.splits if_splits outcome.splits dest: check_sig_sound)

lemma w_dispatch_joins:
  "r_joins (w_dispatch C E content s) \<noteq> r_joins s \<Longrightarrow>
   \<exists>g. parse_suggest (rf_lib C) content = Some g \<and> s_msg_type g = ''peer_suggest''
     \<and> w_dispatch C E content s = w_suggest C E g s"
  by (auto simp: w_dispatch_def joins_kept Let_def split: option.splits if_splits)

section \<open>Properties\<close>

definition demo_key :: string where
  "demo_key = replicate 32 (CHR ''p'')"

definition demo_endorse :: peer_announce where
  "demo_endorse = (announce_new_endorse 7 ''n'' ''1'' demo_key [''newkey''] None)\<lparr>a_signature := Some (replicate 64 (CHR ''s''))\<rparr>"

definition demo_suggest :: peer_suggest where
  "demo_suggest = \<lparr>s_msg_type = ''peer_suggest'', s_sender = demo_key, s_target_node_id = ''me'',
     s_suggested_peers = [''q''], s_reason = ''x'', s_timestamp = 900, s_signature = replicate 64 (CHR ''s'')\<rparr>"

definition demo_short :: gossip_notification where
  "demo_short = notification_new 1 ''abc'' ''podcast'' ''update'' [] None"

definition demo_rlib :: gossip_lib where
  "demo_rlib = \<lparr>to_vec = (\<lambda>_. []), parse_notification = (\<lambda>_. Some demo_short),
     parse_announce = (\<lambda>c. if c = ''E'' then Some demo_endorse else None),
     parse_suggest = (\<lambda>c. if c = ''S'' then Some demo_suggest else None),
     hex_encode = id, hex_decode = Some, ed_pubkey = (\<lambda>k. demo_key), ed_key_ok = (\<lambda>_. True),
     ed_sign = (\<lambda>k m. replicate 64 (CHR ''s'')), ed_verify = (\<lambda>p m s. True)\<rparr>"

definition demo_rcfg :: "string recv_cfg" where
  "demo_rcfg = \<lparr>rf_lib = demo_rlib, rf_parse_id = Some, rf_show_id = id, rf_me = ''me'', rf_auto_trust = True,
     rf_monitors = {demo_key}, rf_generation = 0\<rparr>"

definition demo_renv :: recv_env where
  "demo_renv = \<lparr>ri_now = 1000, ri_now2 = 1000, ri_peers_ok = True, ri_trusted_ok = True,
     ri_order = (\<lambda>_. [demo_key, ''newkey''])\<rparr>"

definition demo_recv :: "string recv" where
  "demo_recv = \<lparr>r_ctl = demo_ctl, r_status = Running, r_trusted = {demo_key}, r_trusted_poisoned = False,
     r_trusted_file = None, r_peers_file = None, r_names = Map.empty, r_joins = []\<rparr>"

lemmas demo_recv_defs = demo_rcfg_def demo_renv_def demo_recv_def demo_rlib_def demo_ctl_def

lemma demo_key_ascii: "length demo_key = 32" "ascii_str demo_key" "ascii_str ''newkey''"
  by (simp_all add: demo_key_def ascii_str_def byte_def list_all_length nth_Cons split: nat.split)

lemma demo_endorse_verified: "verify_endorse_signature demo_rlib demo_endorse = Ret (Ok True)"
  by (simp add: verify_endorse_signature_def canonical_endorse_def demo_endorse_def announce_new_endorse_def
      demo_rlib_def demo_key_ascii)

text \<open>C6. Chain of trust: after any sequence of gossip inputs, a key is trusted by the writer only if it
  was trusted at the start or a correctly signed endorsement of the run, by a sender that is itself
  trusted this way, lists it. With automatic trust off the set never changes.\<close>

theorem trust_only_through_endorsements:
  "(k \<in> r_trusted (turns (w_receive_turn C) eis s) \<longrightarrow>
      trust_chain {p. \<exists>ei \<in> set eis. w_endorsement C ei = Some p} (r_trusted s) k)
   \<and> r_trusted s \<subseteq> r_trusted (turns (w_receive_turn C) eis s)
   \<and> (\<not> rf_auto_trust C \<longrightarrow> r_trusted (turns (w_receive_turn C) eis s) = r_trusted s)"
proof (intro conjI impI)
  assume "\<not> rf_auto_trust C"
  then have "w_endorsement C ei = None" for ei
    by (simp add: w_endorsement_def split: gossip_input.split option.split)
  then show "r_trusted (turns (w_receive_turn C) eis s) = r_trusted s" by (simp add: writer_trust.no_endorsement_run)
qed (simp_all add: writer_trust.chain_run writer_trust.kept_run)

theorem trust_only_through_endorsements_witness:
  "\<not> trust_chain {p. \<exists>ei \<in> set [(demo_renv, Msg ''N'' ''q'')]. w_endorsement demo_rcfg ei = Some p} (r_trusted demo_recv) ''evil''
   \<and> ''evil'' \<notin> r_trusted (turns (w_receive_turn demo_rcfg) [(demo_renv, Msg ''N'' ''q'')] demo_recv)"
proof -
  have "{p. \<exists>ei \<in> set [(demo_renv, Msg ''N'' ''q'')]. w_endorsement demo_rcfg ei = Some p} = {}"
    by (simp add: w_endorsement_def demo_rcfg_def demo_rlib_def)
  moreover have "''evil'' \<notin> r_trusted demo_recv"
    by (auto simp: demo_recv_def demo_key_def dest: arg_cong [of _ _ length])
  ultimately have "\<not> trust_chain {p. \<exists>ei \<in> set [(demo_renv, Msg ''N'' ''q'')]. w_endorsement demo_rcfg ei = Some p} (r_trusted demo_recv) ''evil''"
    by (simp only: trust_chain_none not_False_eq_True)
  with trust_only_through_endorsements [of "''evil''" demo_rcfg "[(demo_renv, Msg ''N'' ''q'')]" demo_recv]
  show ?thesis by blast
qed

text \<open>A join suggestion is followed only when it is addressed to this node, is less than 300 seconds
  old, and carries the right signature of a sender on the list of trusted monitors; then exactly the
  parsable ids of its list are joined. No other input makes the receive task join anyone.\<close>

theorem joins_need_trusted_monitor:
  assumes "r_joins (w_receive_turn C (E, i) s) \<noteq> r_joins s"
  shows "\<exists>content from_peer g. i = Msg content from_peer \<and> parse_suggest (rf_lib C) content = Some g \<and> suggestion_ok C E g
    \<and> r_joins (w_receive_turn C (E, i) s) = r_joins s @ [List.map_filter (rf_parse_id C) (s_suggested_peers g)]"
proof (cases i)
  case (Msg content from_peer)
  let ?c = "r_ctl s"
  let ?t = "s\<lparr>r_ctl := ?c\<lparr>c_last_notif := ri_now E, c_notifs := c_notifs ?c + 1, c_sources := insert from_peer (c_sources ?c)\<rparr>\<rparr>"
  from assms Msg have d: "w_receive_turn C (E, i) s = w_dispatch C E content ?t"
    by (auto simp: w_receive_turn_def w_message_def Let_def split: if_splits)
  with assms have "r_joins (w_dispatch C E content ?t) \<noteq> r_joins ?t" by simp
  from w_dispatch_joins [OF this] obtain g where g: "parse_suggest (rf_lib C) content = Some g"
    "s_msg_type g = ''peer_suggest''" "w_dispatch C E content ?t = w_suggest C E g ?t" by blast
  with d assms have "r_joins (w_suggest C E g ?t) \<noteq> r_joins ?t" by simp
  from w_suggest_joins [OF g(2) this] g d Msg show ?thesis by auto
qed (use assms in \<open>auto simp: w_receive_turn_def joins_kept split: if_splits\<close>)

theorem joins_need_trusted_monitor_witness:
  "r_joins (w_receive_turn demo_rcfg (demo_renv, Msg ''S'' ''q'') demo_recv) = [[''q'']] \<and> suggestion_ok demo_rcfg demo_renv demo_suggest"
proof -
  let ?t = "w_receive_turn demo_rcfg (demo_renv, Msg ''S'' ''q'') demo_recv"
  have "r_joins ?t \<noteq> r_joins demo_recv"
    by (simp add: w_receive_turn_def w_message_def w_dispatch_def w_suggest_def suggest_verify_signature_def check_sig_def
        demo_recv_defs demo_suggest_def demo_key_ascii slice_to_ascii saturating_sub_def Let_def List.map_filter_def)
  from joins_need_trusted_monitor [OF this] obtain g where "parse_suggest demo_rlib ''S'' = Some g"
    "suggestion_ok demo_rcfg demo_renv g" "r_joins ?t = r_joins demo_recv @ [List.map_filter Some (s_suggested_peers g)]"
    by (auto simp: demo_rcfg_def)
  then show ?thesis by (auto simp: demo_rlib_def demo_suggest_def demo_recv_def List.map_filter_def)
qed

text \<open>An endorsement takes effect: when a trusted sender's correctly signed endorsement of ASCII keys
  reaches the active task, exactly its keys are added, and a restart that reads the file trusts the
  same set.\<close>

theorem endorsement_takes_effect:
  assumes "r_status s = Running" and "c_generation (r_ctl s) = rf_generation C" and "\<not> r_trusted_poisoned s"
    and "rf_auto_trust C" and "parse_announce (rf_lib C) content = Some a" and "a_msg_type a = ''peer_endorse''"
    and "\<forall>g. parse_suggest (rf_lib C) content = Some g \<longrightarrow> s_msg_type g \<noteq> ''peer_suggest''"
    and "verify_endorse_signature (rf_lib C) a = Ret (Ok True)"
    and "a_sender a = Some sn" and "ascii_str sn" and "sn \<in> r_trusted s"
    and "a_node_list a = Some keys" and "list_all ascii_str keys" and "\<not> set keys \<subseteq> r_trusted s"
    and "ri_trusted_ok E" and "set (ri_order E (r_trusted s \<union> set keys)) = r_trusted s \<union> set keys" and "\<forall>k \<in> r_trusted s \<union> set keys. plain_line k"
  shows "let t = w_receive_turn C (E, Msg content from_peer) s in
    r_status t = Running \<and> r_trusted t = r_trusted s \<union> set keys \<and> load_trusted_publishers (r_trusted_file t) = r_trusted t"
proof -
  let ?T = "r_trusted s \<union> set keys"
  obtain m where k: "add_keys keys (r_trusted s) 0 = (?T, m, False)" "0 < m"
    using add_keys_ascii [OF assms(13), of "r_trusted s" 0] assms(14) by auto
  have sl: "slice_to sn (min 8 (length sn)) = Ret (take (min 8 (length sn)) sn)" using assms(10) by (simp add: slice_to_ascii)
  have "list_all plain_line (ri_order E ?T)" using assms(16,17) by (simp add: list_all_iff)
  then have "nonempty_lines (Some (writelns (ri_order E ?T))) = ri_order E ?T" by (rule nonempty_lines_writelns)
  then have f: "load_trusted_publishers (Some (writelns (ri_order E ?T))) = ?T"
    using assms(16) by (simp add: nonempty_lines_def load_trusted_publishers_def)
  have "w_dispatch C E content t = w_endorse C E a t" for t
    using assms(5-7) by (auto simp: w_dispatch_def Let_def split: option.split)
  then show ?thesis
    using assms k sl f
    by (simp add: w_receive_turn_def w_message_def w_endorse_def save_trusted_publishers_def write_lines_def Let_def)
qed


theorem endorsement_takes_effect_witness:
  "r_trusted (w_receive_turn demo_rcfg (demo_renv, Msg ''E'' ''q'') demo_recv) = {demo_key, ''newkey''}"
proof -
  have p: "plain_line demo_key" "plain_line ''newkey''" unfolding demo_key_def by code_simp+
  have n: "''newkey'' \<noteq> demo_key" by (auto simp: demo_key_def dest: arg_cong [of _ _ length])
  show ?thesis
    using endorsement_takes_effect [of demo_recv demo_rcfg "''E''" demo_endorse demo_key "[''newkey'']" demo_renv "''q''"]
      demo_endorse_verified demo_key_ascii p n
    by (auto simp: demo_recv_defs demo_endorse_def announce_new_endorse_def Let_def)
qed

text \<open>A notification is printed with the first eight bytes of its sender, unchecked: any unsigned
  message whose sender is shorter kills the receive task. The task dies without asking for a
  reconnect, unlike every regular way out of its loop.\<close>

theorem short_sender_kills_receive_task:
  assumes "r_status s = Running" and "c_generation (r_ctl s) = rf_generation C"
    and "parse_suggest (rf_lib C) content = None" and "parse_announce (rf_lib C) content = None"
    and "parse_notification (rf_lib C) content = Some n" and "length (n_sender n) < 8"
  shows "let t = w_receive_turn C (E, Msg content from_peer) s in
    r_status t = Panicked \<and> c_requested (r_ctl t) = c_requested (r_ctl s) \<and> c_failures (r_ctl t) = c_failures (r_ctl s)
    \<and> (\<forall>ei. w_receive_turn C ei t = t)"
  using assms
  by (auto simp: w_receive_turn_def w_message_def w_dispatch_def w_notification_def slice_to_def Let_def split: prod.split)

theorem short_sender_kills_receive_task_witness:
  "r_status (w_receive_turn demo_rcfg (demo_renv, Msg ''N'' ''q'') demo_recv) = Panicked"
  using short_sender_kills_receive_task [of demo_recv demo_rcfg "''N''" demo_short demo_renv "''q''"]
  by (simp add: demo_recv_defs demo_short_def notification_new_def Let_def)

end
