(* ===== verification/Json_Text.thy ===== *)
theory Json_Text
  imports Gossip_Messages
begin

text \<open>
  The text of a JSON tree as \<^verbatim>\<open>serde_json::to_vec\<close> documents it: compact, members in the order they are
  given, RFC 8259 escapes, integers in decimal. It states what the programs rely on of that crate
  (\<open>prints_json\<close>); how a float is printed stays a parameter. A reader of such texts shows that the text
  determines the tree, and is the parser of the witnesses.
\<close>

section \<open>Printing\<close>

definition hex_digit :: "nat \<Rightarrow> char" where
  "hex_digit d = (if d < 10 then char_of (48 + d) else char_of (87 + d))"

definition json_escape :: "char \<Rightarrow> string" where
  "json_escape c =
     (if c = CHR 0x22 then [CHR 0x5C, CHR 0x22]
      else if c = CHR 0x5C then [CHR 0x5C, CHR 0x5C]
      else if c = CHR 0x08 then [CHR 0x5C, CHR ''b'']
      else if c = CHR 0x09 then [CHR 0x5C, CHR ''t'']
      else if c = CHR 0x0A then [CHR 0x5C, CHR ''n'']
      else if c = CHR 0x0C then [CHR 0x5C, CHR ''f'']
      else if c = CHR 0x0D then [CHR 0x5C, CHR ''r'']
      else if byte c < 32 then [CHR 0x5C, CHR ''u'', CHR ''0'', CHR ''0'', hex_digit (byte c div 16), hex_digit (byte c mod 16)]
      else [c])"

definition json_string :: "string \<Rightarrow> string" where
  "json_string s = CHR 0x22 # concat (map json_escape s) @ [CHR 0x22]"

definition int_text :: "int \<Rightarrow> string" where
  "int_text i = (if i < 0 then CHR ''-'' # dec (nat (- i)) else dec (nat i))"

text \<open>Texts with commas between them.\<close>

fun commas :: "string list \<Rightarrow> string" where
  "commas [] = []"
| "commas [s] = s"
| "commas (s # t # ss) = s @ CHR '','' # commas (t # ss)"

definition member_text :: "string \<times> string \<Rightarrow> string" where
  "member_text m = json_string (fst m) @ CHR '':'' # snd m"

primrec json_text :: "(u32 \<Rightarrow> string) \<Rightarrow> json \<Rightarrow> string" where
  "json_text ff JNull = ''null''"
| "json_text ff (JBool b) = (if b then ''true'' else ''false'')"
| "json_text ff (JInt i) = int_text i"
| "json_text ff (JFloat x) = ff x"
| "json_text ff (JStr s) = json_string s"
| "json_text ff (JArr js) = CHR ''['' # commas (map (json_text ff) js) @ '']''"
| "json_text ff (JObj fs) = CHR ''{'' # commas (map member_text (map (map_prod id (json_text ff)) fs)) @ ''}''"

text \<open>The documented behaviour of the printer.\<close>

definition prints_json :: "gossip_lib \<Rightarrow> bool" where
  "prints_json L \<longleftrightarrow> (\<exists>ff. to_vec L = json_text ff)"

text \<open>No floats: all trees of notifications.\<close>

primrec float_free :: "json \<Rightarrow> bool" where
  "float_free JNull = True"
| "float_free (JBool b) = True"
| "float_free (JInt i) = True"
| "float_free (JFloat x) = False"
| "float_free (JStr s) = True"
| "float_free (JArr js) = list_all id (map float_free js)"
| "float_free (JObj fs) = list_all snd (map (map_prod id float_free) fs)"

section \<open>Reading\<close>

definition hex_val :: "char \<Rightarrow> nat" where
  "hex_val c = (if is_digit c then byte c - 48 else byte c - 87)"

text \<open>The character of a two-character escape.\<close>

definition unescape1 :: "char \<Rightarrow> char" where
  "unescape1 d = (if d = CHR ''b'' then CHR 0x08 else if d = CHR ''t'' then CHR 0x09 else if d = CHR ''n'' then CHR 0x0A
     else if d = CHR ''f'' then CHR 0x0C else if d = CHR ''r'' then CHR 0x0D else d)"

text \<open>The rest of a string after its opening quote.\<close>

fun read_chars :: "string \<Rightarrow> (string \<times> string) option" where
  "read_chars [] = None"
| "read_chars (c # cs) =
     (if c = CHR 0x22 then Some ([], cs)
      else if c \<noteq> CHR 0x5C then map_option (\<lambda>(s, r). (c # s, r)) (read_chars cs)
      else (case cs of
              [] \<Rightarrow> None
            | d # ds \<Rightarrow>
                if d \<noteq> CHR ''u'' then map_option (\<lambda>(s, r). (unescape1 d # s, r)) (read_chars ds)
                else (case ds of
                        _ # _ # h # l # ls \<Rightarrow>
                          map_option (\<lambda>(s, r). (char_of (16 * hex_val h + hex_val l) # s, r)) (read_chars ls)
                      | _ \<Rightarrow> None)))"

definition read_nat :: "string \<Rightarrow> nat \<times> string" where
  "read_nat s = (digits_val (takeWhile is_digit s), dropWhile is_digit s)"

text \<open>A value, the elements of an array after a bracket or a comma, the members of an object likewise;
  each step of the recursion consumes a character or closes, so the length of the text is enough fuel.\<close>

fun read_value :: "nat \<Rightarrow> string \<Rightarrow> (json \<times> string) option"
  and read_elems :: "nat \<Rightarrow> string \<Rightarrow> (json list \<times> string) option"
  and read_members :: "nat \<Rightarrow> string \<Rightarrow> ((string \<times> json) list \<times> string) option" where
  "read_value 0 s = None"
| "read_value (Suc n) s =
     (case s of
        [] \<Rightarrow> None
      | c # cs \<Rightarrow>
          if c = CHR ''n'' then Some (JNull, drop 3 cs)
          else if c = CHR ''t'' then Some (JBool True, drop 3 cs)
          else if c = CHR ''f'' then Some (JBool False, drop 4 cs)
          else if c = CHR 0x22 then map_option (map_prod JStr id) (read_chars cs)
          else if c = CHR ''['' then
            (if cs \<noteq> [] \<and> hd cs = CHR '']'' then Some (JArr [], tl cs) else map_option (map_prod JArr id) (read_elems n cs))
          else if c = CHR ''{'' then
            (if cs \<noteq> [] \<and> hd cs = CHR ''}'' then Some (JObj [], tl cs) else map_option (map_prod JObj id) (read_members n cs))
          else if c = CHR ''-'' then Some (map_prod (\<lambda>k. JInt (- int k)) id (read_nat cs))
          else if is_digit c then Some (map_prod (\<lambda>k. JInt (int k)) id (read_nat s))
          else None)"
| "read_elems 0 s = None"
| "read_elems (Suc n) s =
     (case read_value n s of
        Some (j, c # r) \<Rightarrow>
          if c = CHR '','' then map_option (map_prod (Cons j) id) (read_elems n r)
          else if c = CHR '']'' then Some ([j], r) else None
      | _ \<Rightarrow> None)"
| "read_members 0 s = None"
| "read_members (Suc n) s =
     (case s of
        [] \<Rightarrow> None
      | q # cs \<Rightarrow>
          (case read_chars cs of
             Some (k, d # r) \<Rightarrow>
               (case read_value n r of
                  Some (j, c # r') \<Rightarrow>
                    if c = CHR '','' then map_option (map_prod (Cons (k, j)) id) (read_members n r')
                    else if c = CHR ''}'' then Some ([(k, j)], r') else None
                | _ \<Rightarrow> None)
           | _ \<Rightarrow> None))"

definition read_json :: "string \<Rightarrow> json option" where
  "read_json s = (case read_value (length s) s of Some (j, []) \<Rightarrow> Some j | _ \<Rightarrow> None)"

section \<open>The reader undoes the printer\<close>

lemma hex_val_digit: "d < 16 \<Longrightarrow> hex_val (hex_digit d) = d"
  by (auto simp: hex_val_def hex_digit_def is_digit_def byte_def of_char_of)

lemma unescape_hex: "byte c < 256 \<Longrightarrow> char_of (16 * (byte c div 16) + byte c mod 16) = c"
  by (simp add: byte_def)

lemma read_escaped:
  "read_chars (json_escape c @ cs) = map_option (\<lambda>(s, r). (c # s, r)) (read_chars cs)"
proof (cases "byte c < 32")
  case True
  then have h: "hex_val (hex_digit (byte c div 16)) = byte c div 16" "hex_val (hex_digit (byte c mod 16)) = byte c mod 16"
    by (simp_all add: hex_val_digit)
  show ?thesis by (simp add: json_escape_def unescape1_def h unescape_hex)
      (simp add: byte_def)
next
  case False
  then show ?thesis by (simp add: json_escape_def unescape1_def)
qed

lemma read_string: "read_chars (concat (map json_escape s) @ CHR 0x22 # r) = Some (s, r)"
  by (induction s) (simp_all add: read_escaped)

text \<open>What may follow a value in a text.\<close>

definition ends_value :: "string \<Rightarrow> bool" where
  "ends_value r \<longleftrightarrow> r = [] \<or> \<not> is_digit (hd r)"

lemma ends_value_sep [simp]: "ends_value (CHR '','' # r)" "ends_value (CHR '']'' # r)" "ends_value (CHR ''}'' # r)"
  by (simp_all add: ends_value_def is_digit_def byte_def)

lemma read_dec: "ends_value r \<Longrightarrow> read_nat (dec n @ r) = (n, r)"
proof -
  assume "ends_value r"
  then have "takeWhile is_digit r = []" "dropWhile is_digit r = r" by (cases r; simp add: ends_value_def)+
  then show ?thesis using dec_digits [of n]
    by (simp add: read_nat_def takeWhile_append dropWhile_append list_all_iff digits_val_dec)
qed

lemma dec_Cons: obtains c cs where "dec n = c # cs" "is_digit c"
  using dec_digits [of n] by (cases "dec n") auto

text \<open>Values start with one of their own characters, never with a closing bracket.\<close>

lemma json_text_nonempty: "float_free j \<Longrightarrow> json_text ff j \<noteq> []"
  by (cases j) (auto simp: int_text_def json_string_def)

lemma digit_not [simp]:
  assumes "is_digit c"
  shows "c \<noteq> CHR ''n''" "c \<noteq> CHR ''t''" "c \<noteq> CHR ''f''" "c \<noteq> CHR 0x22" "c \<noteq> CHR ''[''" "c \<noteq> CHR ''{''" "c \<noteq> CHR ''-''"
    "c \<noteq> CHR '']''" "c \<noteq> CHR ''}''"
  using assms by (auto simp: is_digit_def byte_def)

lemma dec_hd: "is_digit (hd (dec n @ r))"
  by (rule dec_Cons [of n]) simp

lemma json_text_hd: "float_free j \<Longrightarrow> hd (json_text ff j @ r) \<noteq> CHR '']''"
  using dec_hd [of _ r] by (cases j) (auto simp: int_text_def json_string_def dest!: digit_not(8))

lemma read_int: "ends_value r \<Longrightarrow> 0 < n \<Longrightarrow> read_value n (int_text i @ r) = Some (JInt i, r)"
proof -
  assume r: "ends_value r" and "0 < n"
  then obtain n' where n: "n = Suc n'" using gr0_conv_Suc by blast
  show ?thesis
  proof (cases "i < 0")
    case True
    then show ?thesis using read_dec [OF r, of "nat (- i)"] by (simp add: int_text_def n is_digit_def byte_def)
  next
    case False
    obtain c cs where c: "dec (nat i) = c # cs" "is_digit c" by (rule dec_Cons)
    then show ?thesis using False read_dec [OF r, of "nat i"] by (simp add: int_text_def n)
  qed
qed

lemma length_commas_Cons: "length s + length (commas ss) \<le> length (commas (s # ss))"
  by (cases ss) simp_all

lemma read_elems_text:
  assumes "\<And>j r n. j \<in> set js \<Longrightarrow> ends_value r \<Longrightarrow> length (json_text ff j) \<le> n \<Longrightarrow> read_value n (json_text ff j @ r) = Some (j, r)"
    and "js \<noteq> []" and "length (commas (map (json_text ff) js)) < n"
  shows "read_elems n (commas (map (json_text ff) js) @ CHR '']'' # r) = Some (js, r)"
  using assms
proof (induction js arbitrary: n)
  case (Cons j js)
  then obtain n' where n: "n = Suc n'" by (cases n) auto
  have len: "length (json_text ff j) \<le> n'"
    using Cons.prems(3) length_commas_Cons [of "json_text ff j" "map (json_text ff) js"] by (simp add: n)
  show ?case
  proof (cases js)
    case Nil
    then show ?thesis using Cons.prems(1) [of j "CHR '']'' # r"] len by (simp add: n)
  next
    case (Cons k ks)
    then have "read_elems n' (commas (map (json_text ff) js) @ CHR '']'' # r) = Some (js, r)"
      using Cons.IH [of n'] Cons.prems(1,3) by (simp add: n)
    then show ?thesis using Cons.prems(1) [of j "CHR '','' # commas (map (json_text ff) js) @ CHR '']'' # r"] len Cons
      by (simp add: n)
  qed
qed simp

lemma read_member:
  "read_members (Suc n) (member_text (k, t) @ r) =
     (case read_value n (t @ r) of
        Some (j, c # r') \<Rightarrow>
          if c = CHR '','' then map_option (map_prod (Cons (k, j)) id) (read_members n r')
          else if c = CHR ''}'' then Some ([(k, j)], r') else None
      | _ \<Rightarrow> None)"
  by (simp add: member_text_def json_string_def read_string)

lemma read_members_text:
  assumes "\<And>k j r n. (k, j) \<in> set fs \<Longrightarrow> ends_value r \<Longrightarrow> length (json_text ff j) \<le> n \<Longrightarrow> read_value n (json_text ff j @ r) = Some (j, r)"
    and "fs \<noteq> []" and "length (commas (map member_text (map (map_prod id (json_text ff)) fs))) < n"
  shows "read_members n (commas (map member_text (map (map_prod id (json_text ff)) fs)) @ CHR ''}'' # r) = Some (fs, r)"
  using assms
proof (induction fs arbitrary: n)
  case (Cons f fs)
  obtain k j where f: "f = (k, j)" by fastforce
  let ?text = "\<lambda>fs. commas (map member_text (map (map_prod id (json_text ff)) fs))"
  obtain n' where n: "n = Suc n'" using Cons.prems(3) by (cases n) auto
  have "length (json_text ff j) \<le> length (member_text (k, json_text ff j))" by (simp add: member_text_def)
  then have len: "length (json_text ff j) \<le> n'"
    using Cons.prems(3) length_commas_Cons [of "member_text (k, json_text ff j)" "map member_text (map (map_prod id (json_text ff)) fs)"]
    by (simp add: n f id_def)
  show ?case
  proof (cases fs)
    case Nil
    then show ?thesis using Cons.prems(1) [of k j "CHR ''}'' # r"] len
      by (simp add: n f member_text_def json_string_def read_string)
  next
    case (Cons g gs)
    have "read_members n' (?text fs @ CHR ''}'' # r) = Some (fs, r)"
    proof (rule Cons.IH)
      show "length (?text fs) < n'" using Cons.prems(3) \<open>fs = g # gs\<close> by (simp add: n id_def)
    qed (use Cons.prems(1) \<open>fs = g # gs\<close> in auto)
    moreover have t: "?text (f # fs) = member_text (k, json_text ff j) @ CHR '','' # ?text fs" by (simp add: f \<open>fs = g # gs\<close>)
    moreover have "read_value n' (json_text ff j @ CHR '','' # ?text fs @ CHR ''}'' # r) = Some (j, CHR '','' # ?text fs @ CHR ''}'' # r)"
      using len by (intro Cons.prems(1) [of k]) (simp_all add: f)
    ultimately show ?thesis unfolding t n by (simp add: f read_member del: read_members.simps)
  qed
qed simp

text \<open>The text of a tree, whatever follows it, is read as the tree.\<close>

lemma read_value_text:
  assumes "float_free j" and "ends_value r" and "length (json_text ff j) \<le> n"
  shows "read_value n (json_text ff j @ r) = Some (j, r)"
  using assms
proof (induction j arbitrary: r n)
  case (JArr js)
  then obtain n' where n: "n = Suc n'" by (cases n) auto
  show ?case
  proof (cases js)
    case Nil
    then show ?thesis by (simp add: n)
  next
    case (Cons j ks)
    let ?t = "commas (map (json_text ff) js)"
    have "read_elems n' (?t @ CHR '']'' # r) = Some (js, r)"
      by (rule read_elems_text) (use JArr Cons in \<open>auto simp: n list_all_iff\<close>)
    moreover have "?t \<noteq> []" "hd (?t @ CHR '']'' # r) \<noteq> CHR '']''"
      using json_text_nonempty [of j ff] json_text_hd [of j ff] JArr.prems(1) Cons by (cases ks; simp)+
    ultimately show ?thesis by (simp add: n)
  qed
next
  case (JObj fs)
  then obtain n' where n: "n = Suc n'" by (cases n) auto
  show ?case
  proof (cases fs)
    case Nil
    then show ?thesis by (simp add: n)
  next
    case (Cons f gs)
    let ?t = "commas (map member_text (map (map_prod id (json_text ff)) fs))"
    have "read_value n (json_text ff j @ r) = Some (j, r)" if "(k, j) \<in> set fs" "ends_value r" "length (json_text ff j) \<le> n" for k j r n
    proof -
      have "float_free j" using JObj.prems(1) that(1) by (auto simp: list_all_iff)
      with JObj.IH [OF that(1)] that(2,3) show ?thesis by simp
    qed
    then have "read_members n' (?t @ CHR ''}'' # r) = Some (fs, r)"
      by (rule read_members_text) (use JObj.prems Cons in \<open>simp_all add: n\<close>)
    moreover have "?t \<noteq> []" "hd (?t @ CHR ''}'' # r) = CHR 0x22"
      using Cons by (cases gs; simp add: member_text_def json_string_def)+
    ultimately show ?thesis by (simp add: n)
  qed
next
  case (JStr s)
  then show ?case by (cases n) (simp_all add: json_string_def read_string)
next
  case (JInt i)
  then have "0 < n" by (cases n) (auto simp: int_text_def split: if_splits)
  with JInt show ?case by (simp add: read_int)
next
  case (JBool b)
  then show ?case by (cases b; cases n) simp_all
next
  case JNull
  then show ?case by (cases n) simp_all
qed simp

lemma read_json_text: "float_free j \<Longrightarrow> read_json (json_text ff j) = Some j"
  using read_value_text [of j "[]" ff "length (json_text ff j)"] by (simp add: read_json_def ends_value_def)

interpretation json: codec "json_text ff" read_json float_free for ff
  by unfold_locales (rule read_json_text)

lemma to_vec_eq:
  "prints_json L \<Longrightarrow> float_free i \<Longrightarrow> float_free j \<Longrightarrow> to_vec L i = to_vec L j \<longleftrightarrow> i = j"
  using json.enc_inj by (auto simp: prints_json_def)

lemma read_to_vec: "prints_json L \<Longrightarrow> float_free j \<Longrightarrow> read_json (to_vec L j) = Some j"
  by (auto simp: prints_json_def read_json_text)

lemma float_free_simps [simp]: "float_free (JU w)" "float_free (JStrs xs)"
  by (simp_all add: JU_def JStrs_def list_all_iff)

lemma float_free_notification [simp]: "float_free (canonical_notification n)" "float_free (notification_json n)"
  by (cases "n_seq n"; cases "n_signature n"; simp add: canonical_notification_def notification_json_def)+

section \<open>Lengths\<close>

lemma length_commas: "length (commas ss) = sum_list (map length ss) + (length ss - 1)"
  by (induction ss rule: commas.induct) auto

lemma length_dec_le: "n < 10 ^ k \<Longrightarrow> 0 < k \<Longrightarrow> length (dec n) \<le> k"
proof (induction n arbitrary: k rule: dec.induct)
  case (1 n)
  show ?case
  proof (cases "n < 10")
    case True
    with 1(3) show ?thesis by (simp add: dec.simps [of n])
  next
    case False
    with 1(2) have "k \<noteq> 1" by auto
    with 1(3) obtain k' where k: "k = Suc k'" "0 < k'" by (cases k) auto
    then have "n div 10 < 10 ^ k'" using 1(2) by (simp add: less_mult_imp_div_less mult.commute)
    with 1(1) [OF False _ k(2)] have "length (dec (n div 10)) \<le> k'" by simp
    with False k(1) show ?thesis by (simp add: dec.simps [of n])
  qed
qed

lemma length_dec_u64: "1 \<le> length (dec (unat (x :: u64))) \<and> length (dec (unat x)) \<le> 20"
proof -
  have "unat x < 10 ^ 20" using unsigned_less [of x, where ?'a = nat] by simp
  then have "length (dec (unat x)) \<le> 20" by (rule length_dec_le) simp
  moreover have "0 < length (dec (unat x))" by simp
  ultimately show ?thesis by linarith
qed

text \<open>\<^verbatim>\<open>hex::encode\<close>: two lower case digits for a byte.\<close>

definition hex_text :: "string \<Rightarrow> string" where
  "hex_text b = concat (map (\<lambda>c. [hex_digit (byte c div 16), hex_digit (byte c mod 16)]) b)"

lemma escape_plain:
  assumes c: "32 \<le> byte c" "byte c \<noteq> 34" "byte c \<noteq> 92"
  shows "json_escape c = [c]"
proof -
  have b: "byte (CHR 0x22) = 34" "byte (CHR 0x5C) = 92" "byte (CHR 0x08) = 8" "byte (CHR 0x09) = 9"
    "byte (CHR 0x0A) = 10" "byte (CHR 0x0C) = 12" "byte (CHR 0x0D) = 13"
    by (simp_all add: byte_def)
  from c have "c \<noteq> CHR 0x22" "c \<noteq> CHR 0x5C" "c \<noteq> CHR 0x08" "c \<noteq> CHR 0x09" "c \<noteq> CHR 0x0A" "c \<noteq> CHR 0x0C" "c \<noteq> CHR 0x0D"
    using b by (metis, metis, fastforce+)
  then show ?thesis using c(1) by (simp add: json_escape_def)
qed

lemma escape_hex_digit: "d < 16 \<Longrightarrow> json_escape (hex_digit d) = [hex_digit d]"
  by (rule escape_plain) (simp_all add: hex_digit_def byte_def of_char_of)

lemma length_hex_string: "length (json_string (hex_text b)) = 2 * length b + 2"
proof -
  have "byte c div 16 < 16" for c using of_char_of [where ?'a = nat] by (simp add: byte_def less_mult_imp_div_less)
  then have "length (concat (map json_escape (hex_text b))) = 2 * length b"
    by (induction b) (simp_all add: hex_text_def escape_hex_digit)
  then show ?thesis by (simp add: json_string_def)
qed

end
