(* ===== verification/Listener_Messages.thy ===== *)
theory Listener_Messages
  imports Json_Text
begin

text \<open>
  The message layer of \<^verbatim>\<open>gossip-listener/src/main.rs\<close>. The listener declares the messages a second
  time, with its own canonical forms and verification functions; they are modelled as written there
  and proved equal to those of the writer, which is what lets a signature made by one be checked by the
  other. The display helpers for names, versions and notifications follow.
\<close>

section \<open>Notifications\<close>

type_synonym l_gossip_notification = gossip_notification
type_synonym l_peer_announce = peer_announce
type_synonym l_announce_metrics = announce_metrics
type_synonym l_peer_suggest = peer_suggest

text \<open>The listener's struct skips no field: a missing one is printed as null.\<close>

definition opt_json :: "('a \<Rightarrow> json) \<Rightarrow> 'a option \<Rightarrow> json" where
  "opt_json f x = (case x of None \<Rightarrow> JNull | Some v \<Rightarrow> f v)"

definition l_notification_fields :: "l_gossip_notification \<Rightarrow> (string \<times> json) list" where
  "l_notification_fields n =
     [(''version'', JStr (n_version n)), (''sender'', JStr (n_sender n)),
      (''timestamp'', JU (n_timestamp n)), (''medium'', JStr (n_medium n)),
      (''reason'', JStr (n_reason n)), (''iris'', JStrs (n_iris n)),
      (''seq'', opt_json JU (n_seq n)), (''signature'', opt_json JStr (n_signature n))]"

definition l_canonical_notification :: "l_gossip_notification \<Rightarrow> json" where
  "l_canonical_notification n = JObj
     (case n_seq n of
        None \<Rightarrow> [(''iris'', JStrs (n_iris n)), (''medium'', JStr (n_medium n)),
          (''reason'', JStr (n_reason n)), (''sender'', JStr (n_sender n)),
          (''timestamp'', JU (n_timestamp n)), (''version'', JStr (n_version n))]
      | Some q \<Rightarrow> [(''iris'', JStrs (n_iris n)), (''medium'', JStr (n_medium n)),
          (''reason'', JStr (n_reason n)), (''seq'', JU q), (''sender'', JStr (n_sender n)),
          (''timestamp'', JU (n_timestamp n)), (''version'', JStr (n_version n))])"

definition l_canonical_bytes :: "gossip_lib \<Rightarrow> l_gossip_notification \<Rightarrow> string" where
  "l_canonical_bytes L n = to_vec L (l_canonical_notification n)"

definition l_verify_signature :: "gossip_lib \<Rightarrow> l_gossip_notification \<Rightarrow> string + bool" where
  "l_verify_signature L n =
     (case n_signature n of
        None \<Rightarrow> Ok False
      | Some sig_hex \<Rightarrow> check_sig L (n_sender n) sig_hex (l_canonical_bytes L n))"

datatype sig_status = Valid | Unsigned | Invalid

fun sig_status_str :: "sig_status \<Rightarrow> string" where
  "sig_status_str Valid = ''VALID''"
| "sig_status_str Unsigned = ''UNSIGNED''"
| "sig_status_str Invalid = ''INVALID''"

definition sig_status_of :: "string + bool \<Rightarrow> sig_status" where
  "sig_status_of r = (case r of Inr True \<Rightarrow> Valid | Inr False \<Rightarrow> Unsigned | Inl _ \<Rightarrow> Invalid)"

text \<open>\<^verbatim>\<open>serde_json::Value\<close> keeps an object sorted by key; the two inserted keys are new ones.\<close>

definition print_notification :: "gossip_lib \<Rightarrow> l_gossip_notification \<Rightarrow> string \<Rightarrow> string" where
  "print_notification L n sender_display =
     to_vec L (JObj (sort_key fst (l_notification_fields n
       @ [(''sig_status'', JStr (sig_status_str (sig_status_of (l_verify_signature L n)))),
          (''sender_name'', JStr sender_display)])))"

section \<open>Announcements, endorsements, suggestions\<close>

definition l_canonical_suggest :: "l_peer_suggest \<Rightarrow> json" where
  "l_canonical_suggest s = JObj
     [(''reason'', JStr (s_reason s)), (''sender'', JStr (s_sender s)),
      (''suggested_peers'', JStrs (s_suggested_peers s)), (''target_node_id'', JStr (s_target_node_id s)),
      (''timestamp'', JU (s_timestamp s)), (''type'', JStr (s_msg_type s))]"

definition l_suggest_verify_signature :: "gossip_lib \<Rightarrow> l_peer_suggest \<Rightarrow> string + bool" where
  "l_suggest_verify_signature L s =
     check_sig L (s_sender s) (s_signature s) (to_vec L (l_canonical_suggest s))"

definition l_announce_new :: "u64 \<Rightarrow> u32 option \<times> u64 option \<times> u32 option \<Rightarrow> string \<Rightarrow> string \<Rightarrow> string \<Rightarrow>
    string \<Rightarrow> string option \<Rightarrow> l_announce_metrics \<Rightarrow> l_peer_announce" where
  "l_announce_new now proc os_name build node vers fname m =
     \<lparr>a_msg_type = ''peer_announce'', a_node_id = node, a_version = vers, a_timestamp = now,
      a_sender = None, a_node_list = None, a_signature = None, a_friendly_name = fname,
      a_cpu_percent = fst proc, a_memory_mb = fst (snd proc), a_thread_count = snd (snd proc),
      a_neighbor_count = m_neighbor_count m, a_uptime_secs = m_uptime_secs m,
      a_msgs_received = m_msgs_received m, a_msgs_sent = m_msgs_sent m,
      a_last_msg_age_secs = m_last_msg_age_secs m, a_reconnect_count = m_reconnect_count m,
      a_os = Some os_name, a_build_type = Some build, a_neighbors = m_neighbors m\<rparr>"

definition l_announce_new_endorse :: "u64 \<Rightarrow> string \<Rightarrow> string \<Rightarrow> string \<Rightarrow> string list \<Rightarrow> string option \<Rightarrow> l_peer_announce" where
  "l_announce_new_endorse now node vers snd_key endorsed fname =
     \<lparr>a_msg_type = ''peer_endorse'', a_node_id = node, a_version = vers, a_timestamp = now,
      a_sender = Some snd_key, a_node_list = Some endorsed, a_signature = None, a_friendly_name = fname,
      a_cpu_percent = None, a_memory_mb = None, a_thread_count = None, a_neighbor_count = None,
      a_uptime_secs = None, a_msgs_received = None, a_msgs_sent = None, a_last_msg_age_secs = None,
      a_reconnect_count = None, a_os = None, a_build_type = None, a_neighbors = None\<rparr>"

definition l_canonical_endorse :: "l_peer_announce \<Rightarrow> json outcome" where
  "l_canonical_endorse a =
     (case (a_node_list a, a_sender a) of
        (None, _) \<Rightarrow> Panic
      | (Some _, None) \<Rightarrow> Panic
      | (Some nl, Some sn) \<Rightarrow>
          Ret (JObj (opt_field ''friendly_name'' JStr (a_friendly_name a)
            @ [(''node_id'', JStr (a_node_id a)), (''node_list'', JStrs nl), (''sender'', JStr sn),
               (''timestamp'', JU (a_timestamp a)), (''type'', JStr (a_msg_type a)),
               (''version'', JStr (a_version a))])))"

definition l_sign_endorse :: "gossip_lib \<Rightarrow> string \<Rightarrow> l_peer_announce \<Rightarrow> l_peer_announce outcome" where
  "l_sign_endorse L k a =
     bind_outcome (l_canonical_endorse a) (\<lambda>j.
     Ret (a\<lparr>a_signature := Some (hex_encode L (ed_sign L k (to_vec L j)))\<rparr>))"

definition l_verify_endorse_signature :: "gossip_lib \<Rightarrow> l_peer_announce \<Rightarrow> (string + bool) outcome" where
  "l_verify_endorse_signature L a =
     (case (a_signature a, a_sender a) of
        (None, _) \<Rightarrow> Ret (Ok False)
      | (Some _, None) \<Rightarrow> Ret (Err ''No sender field'')
      | (Some sig_hex, Some sender_hex) \<Rightarrow>
          (case (hex_decode L sender_hex, hex_decode L sig_hex) of
             (None, _) \<Rightarrow> Ret (Err ''Bad sender hex'')
           | (Some pk, sg) \<Rightarrow>
               if length pk \<noteq> 32 then Ret (Err ''Sender is not 32 bytes'')
               else (case sg of
                       None \<Rightarrow> Ret (Err ''Bad signature hex'')
                     | Some sg \<Rightarrow>
                         if length sg \<noteq> 64 then Ret (Err ''Signature is not 64 bytes'')
                         else if \<not> ed_key_ok L pk then Ret (Err ''Bad pubkey'')
                         else bind_outcome (l_canonical_endorse a) (\<lambda>j.
                           if ed_verify L pk (to_vec L j) sg then Ret (Ok True)
                           else Ret (Err ''Signature verification failed'')))))"

section \<open>Display helpers\<close>

text \<open>\<^verbatim>\<open>char::is_control\<close>: U+0000 to U+001F and U+007F to U+009F.\<close>

definition is_control :: "string \<Rightarrow> bool" where
  "is_control ch =
     (case ch of
        [a] \<Rightarrow> byte a < 32 \<or> byte a = 127
      | [a, b] \<Rightarrow> byte a = 194 \<and> 128 \<le> byte b \<and> byte b < 160
      | _ \<Rightarrow> False)"

definition sanitize_friendly_name :: "string \<Rightarrow> string" where
  "sanitize_friendly_name name = trim (concat (take 64 (filter (\<lambda>c. \<not> is_control c) (chars name))))"

text \<open>The key is cut at byte 16, which panics inside a character.\<close>

definition print_peer_table :: "(string \<times> string) list \<Rightarrow> unit outcome" where
  "print_peer_table names =
     bind_outcome (mapM_outcome (\<lambda>(key, name). slice_to key (min 16 (length key))) names) (\<lambda>_. Ret ())"

definition parse_version :: "string \<Rightarrow> nat list" where
  "parse_version s = List.map_filter parse_u64 (split_on (CHR ''.'') s)"

definition version_get :: "nat list \<Rightarrow> nat \<Rightarrow> nat" where
  "version_get v i = (if i < length v then v ! i else 0)"

text \<open>The comparison loop over positions \<open>i\<close> up to \<open>n\<close>.\<close>

function newer_from :: "nat list \<Rightarrow> nat list \<Rightarrow> nat \<Rightarrow> nat \<Rightarrow> bool" where
  "newer_from r l i n =
     (if n \<le> i then False
      else if version_get l i < version_get r i then True
      else if version_get r i < version_get l i then False
      else newer_from r l (Suc i) n)"
  by pat_completeness auto
termination
  by (relation "measure (\<lambda>(r, l, i, n). n - i)") auto

declare newer_from.simps [simp del]

definition version_is_newer :: "string \<Rightarrow> string \<Rightarrow> bool" where
  "version_is_newer remote local =
     (let r = parse_version remote; l = parse_version local
      in newer_from r l 0 (max (length r) (length l)))"

section \<open>The copies agree\<close>

lemma l_canonical_notification_eq: "l_canonical_notification = canonical_notification"
  by (rule ext) (simp add: l_canonical_notification_def canonical_notification_def split: option.splits)

lemma l_canonical_endorse_eq: "l_canonical_endorse = canonical_endorse"
  by (rule ext) (simp add: l_canonical_endorse_def canonical_endorse_def unwrap_def split: option.splits)

lemma l_verify_endorse_eq: "l_verify_endorse_signature = verify_endorse_signature"
  by (intro ext) (simp add: l_verify_endorse_signature_def verify_endorse_signature_def l_canonical_endorse_eq
      split: option.splits)

lemma l_suggest_verify_eq: "l_suggest_verify_signature = suggest_verify_signature"
  by (intro ext) (simp add: l_suggest_verify_signature_def suggest_verify_signature_def
      l_canonical_suggest_def canonical_suggest_def)

lemma newer_from_iff:
  "newer_from r l i n \<longleftrightarrow>
     (\<exists>k. i \<le> k \<and> k < n \<and> version_get l k < version_get r k \<and> (\<forall>j. i \<le> j \<and> j < k \<longrightarrow> version_get r j = version_get l j))"
proof (induction r l i n rule: newer_from.induct)
  case (1 r l i n)
  consider "n \<le> i" | "i < n" "version_get l i < version_get r i" | "i < n" "version_get r i < version_get l i"
    | "i < n" "version_get r i = version_get l i" by linarith
  then show ?case
  proof cases
    case 1
    then show ?thesis by (simp add: newer_from.simps [of r l i n])
  next
    case 2
    then have "newer_from r l i n" by (simp add: newer_from.simps [of r l i n])
    with 2 show ?thesis by auto
  next
    case 3
    then have "\<not> newer_from r l i n" by (simp add: newer_from.simps [of r l i n])
    moreover have False if "i \<le> k" "version_get l k < version_get r k"
      "\<forall>j. i \<le> j \<and> j < k \<longrightarrow> version_get r j = version_get l j" for k
      using that 3 by (cases "k = i") auto
    ultimately show ?thesis by blast
  next
    case 4
    then have "newer_from r l i n = newer_from r l (Suc i) n" by (simp add: newer_from.simps [of r l i n])
    also have "\<dots> \<longleftrightarrow> (\<exists>k. Suc i \<le> k \<and> k < n \<and> version_get l k < version_get r k \<and>
        (\<forall>j. Suc i \<le> j \<and> j < k \<longrightarrow> version_get r j = version_get l j))"
      using 4 1 by simp
    also have "\<dots> \<longleftrightarrow> (\<exists>k. i \<le> k \<and> k < n \<and> version_get l k < version_get r k \<and>
        (\<forall>j. i \<le> j \<and> j < k \<longrightarrow> version_get r j = version_get l j))"
      using 4 by (metis Suc_leD Suc_leI antisym_conv2 less_irrefl)
    finally show ?thesis .
  qed
qed

lemma length_chars_piece: "c \<in> set (chars s) \<Longrightarrow> length c \<le> 4"
  by (induction s rule: chars.induct) (auto simp: utf8_width_def split: if_splits)

lemma length_strip_front: "length (strip_front w s) \<le> length s"
  by (metis length_append le_add2 strip_front_suffix)

lemma length_trim: "length (trim s) \<le> length s"
  using length_strip_front [of ws_lead s] length_strip_front [of ws_trail "rev (strip_front ws_lead s)"]
  by (simp add: trim_def trim_end_def)

lemma length_concat_bound: "(\<And>x. x \<in> set xs \<Longrightarrow> length x \<le> b) \<Longrightarrow> length (concat xs) \<le> b * length xs"
proof (induction xs)
  case (Cons x xs)
  then have "length x \<le> b" "length (concat xs) \<le> b * length xs" by auto
  then show ?case by simp
qed simp

lemma sign_endorse_verifies:
  assumes "crypto_ok L k" and "a_sender a = Some (pubkey_hex L k)" and "a_node_list a = Some nl"
  shows "\<exists>a'. sign_endorse L k a = Ret a' \<and> verify_endorse_signature L a' = Ret (Ok True)"
proof -
  obtain j where j: "canonical_endorse a = Ret j"
    using assms(2,3) by (simp add: canonical_endorse_def)
  then show ?thesis
    using assms by (simp add: sign_endorse_def verify_endorse_signature_def crypto_ok_def pubkey_hex_def)
qed

section \<open>Properties\<close>

text \<open>Signatures cross the programs: a notification the writer builds for its own public key and
  signs is \<^verbatim>\<open>VALID\<close> for the listener, and the signed bytes parse back to that notification.\<close>

theorem listener_accepts_writer_signature:
  assumes "crypto_ok L k"
    and "n = notification_new now (pubkey_hex L k) m r iris seq"
    and "notification_sign L k n = (n', payload)"
    and "parse_notification L (to_vec L (notification_json n')) = Some n'"
  shows "\<exists>p. parse_notification L payload = Some p \<and> l_verify_signature L p = Ok True
     \<and> p\<lparr>n_signature := None\<rparr> = n"
proof -
  have n': "n' = n\<lparr>n_signature := Some (hex_encode L (ed_sign L k (canonical_bytes L n)))\<rparr>"
    "payload = to_vec L (notification_json n')"
    using assms(3) by (auto simp: notification_sign_def Let_def)
  have "n_sender n = pubkey_hex L k" using assms(2) by (simp add: notification_new_def)
  then have "l_verify_signature L n' = Ok True"
    using check_sig_complete [OF assms(1), of "canonical_bytes L n"]
    by (simp add: n'(1) l_verify_signature_def l_canonical_bytes_def l_canonical_notification_eq
        canonical_bytes_def)
  then show ?thesis using assms(2,4) n' by (auto simp: notification_new_def)
qed

text \<open>A library instance for the witnesses: identity hex, constant keys, a verifier that accepts.\<close>

definition demo_glib :: "gossip_notification \<Rightarrow> gossip_lib" where
  "demo_glib n = \<lparr>to_vec = (\<lambda>j. replicate (to_nat j) (CHR ''x'')), parse_notification = (\<lambda>_. Some n),
     parse_announce = (\<lambda>_. None), parse_suggest = (\<lambda>_. None), hex_encode = id, hex_decode = Some,
     ed_pubkey = (\<lambda>k. replicate 32 (CHR ''p'')), ed_key_ok = (\<lambda>_. True),
     ed_sign = (\<lambda>k m. replicate 64 (CHR ''s'')), ed_verify = (\<lambda>p m s. True)\<rparr>"

lemma demo_glib_ok: "crypto_ok (demo_glib n) k"
  by (simp add: crypto_ok_def demo_glib_def)

definition demo_notif :: gossip_notification where
  "demo_notif = \<lparr>n_version = ''1.0'', n_sender = replicate 32 (CHR ''p''), n_timestamp = 7,
     n_medium = ''podcast'', n_reason = ''update'', n_iris = [''http://a''], n_seq = Some 3,
     n_signature = Some (replicate 64 (CHR ''s''))\<rparr>"

theorem listener_accepts_writer_signature_witness:
  "\<exists>p. l_verify_signature (demo_glib demo_notif) p = Ok True \<and> n_iris p = [''http://a'']"
proof -
  let ?L = "demo_glib demo_notif"
  let ?n = "notification_new 7 (pubkey_hex ?L []) ''podcast'' ''update'' [''http://a''] (Some 3)"
  have "notification_sign ?L [] ?n = (demo_notif, to_vec ?L (notification_json demo_notif))"
    by (simp add: notification_sign_def notification_new_def pubkey_hex_def demo_glib_def demo_notif_def Let_def)
  moreover have "parse_notification ?L (to_vec ?L (notification_json demo_notif)) = Some demo_notif"
    by (simp add: demo_glib_def)
  ultimately obtain p where "l_verify_signature ?L p = Ok True" "p\<lparr>n_signature := None\<rparr> = ?n"
    using listener_accepts_writer_signature [OF demo_glib_ok refl] by blast
  then show ?thesis by (intro exI [of _ p]) (auto simp: notification_new_def dest: arg_cong [of _ _ n_iris])
qed

text \<open>C27. The signature covers the whole message: the bytes the writer signs for one notification are the bytes
  the listener checks for another exactly when the two agree on every field but the signature
  (version, sender, time, medium, reason, every iri in order, sequence number). It rests on the
  documented text of JSON, whose quoting and separators let no two such trees be printed alike.\<close>

theorem signature_covers_every_field:
  assumes "prints_json L"
  shows "canonical_bytes L n = l_canonical_bytes L n' \<longleftrightarrow> n\<lparr>n_signature := None\<rparr> = n'\<lparr>n_signature := None\<rparr>"
  using assms by (simp add: canonical_bytes_def l_canonical_bytes_def l_canonical_notification_eq to_vec_eq canonical_notification_inj)

text \<open>An iri that tries to look like two of them.\<close>

theorem signature_covers_every_field_witness:
  "canonical_bytes ((demo_glib demo_notif)\<lparr>to_vec := json_text (\<lambda>_. ''null'')\<rparr>) (demo_notif\<lparr>n_iris := [''a'', ''b'']\<rparr>)
     \<noteq> l_canonical_bytes ((demo_glib demo_notif)\<lparr>to_vec := json_text (\<lambda>_. ''null'')\<rparr>) (demo_notif\<lparr>n_iris := [''a'' @ [CHR 0x22] @ '','' @ [CHR 0x22] @ ''b'']\<rparr>)"
proof -
  have "prints_json ((demo_glib demo_notif)\<lparr>to_vec := json_text (\<lambda>_. ''null'')\<rparr>)" by (auto simp: prints_json_def)
  then show ?thesis by (simp add: signature_covers_every_field demo_notif_def)
qed

text \<open>Endorsements cross the programs the same way: what \<^verbatim>\<open>new_endorse\<close> and \<^verbatim>\<open>sign_endorse\<close> of either
  program produce verifies in the other, and signing does not panic.\<close>

theorem endorsement_verifies_everywhere:
  assumes "crypto_ok L k"
  shows "\<exists>a'. sign_endorse L k (announce_new_endorse now nid v (pubkey_hex L k) keys fname) = Ret a'
      \<and> l_sign_endorse L k (l_announce_new_endorse now nid v (pubkey_hex L k) keys fname) = Ret a'
      \<and> l_verify_endorse_signature L a' = Ret (Ok True) \<and> verify_endorse_signature L a' = Ret (Ok True)"
proof -
  let ?a = "announce_new_endorse now nid v (pubkey_hex L k) keys fname"
  have eq: "l_announce_new_endorse now nid v (pubkey_hex L k) keys fname = ?a"
    by (simp add: l_announce_new_endorse_def announce_new_endorse_def)
  have sg: "l_sign_endorse L k = sign_endorse L k"
    by (rule ext) (simp add: l_sign_endorse_def sign_endorse_def l_canonical_endorse_eq)
  from sign_endorse_verifies [OF assms, of ?a keys] show ?thesis
    by (auto simp: eq sg l_verify_endorse_eq announce_new_endorse_def)
qed

theorem endorsement_verifies_everywhere_witness:
  "\<exists>a'. sign_endorse (demo_glib demo_notif) [] (announce_new_endorse 1 ''n'' ''v''
       (pubkey_hex (demo_glib demo_notif) []) [''k''] None) = Ret a'
     \<and> l_verify_endorse_signature (demo_glib demo_notif) a' = Ret (Ok True)"
  using endorsement_verifies_everywhere [OF demo_glib_ok, of demo_notif "[]" 1 "''n''" "''v''" "[''k'']" None]
  by blast

text \<open>\<^verbatim>\<open>version_is_newer\<close> is the lexicographic order on the numeric components, a missing component
  counting as 0: the remote version is newer exactly when it is larger at the first position where the
  two differ.\<close>

theorem version_is_newer_lexicographic:
  "version_is_newer remote local \<longleftrightarrow>
     (\<exists>k. version_get (parse_version local) k < version_get (parse_version remote) k
        \<and> (\<forall>j < k. version_get (parse_version remote) j = version_get (parse_version local) j))"
proof -
  have "k < max (length (parse_version remote)) (length (parse_version local))"
    if "version_get (parse_version local) k < version_get (parse_version remote) k" for k
    using that by (auto simp: version_get_def split: if_splits)
  then show ?thesis by (auto simp: version_is_newer_def newer_from_iff Let_def)
qed

theorem version_is_newer_lexicographic_witness: "version_is_newer ''1.10'' ''1.9.3''"
proof -
  have p: "parse_version ''1.10'' = [1, 10]" "parse_version ''1.9.3'' = [1, 9, 3]"
    by (simp_all add: parse_version_def parse_u64_def digits_val_def is_digit_def byte_def
        List.map_filter_simps)
  show ?thesis
    by (subst version_is_newer_lexicographic) (auto simp: p version_get_def less_Suc_eq intro!: exI [of _ 1])
qed

text \<open>A name received from a remote peer is stored with at most 64 characters, hence at most 256
  bytes, whatever was sent.\<close>

theorem sanitized_name_bound: "length (sanitize_friendly_name name) \<le> 256"
proof -
  let ?cs = "take 64 (filter (\<lambda>c. \<not> is_control c) (chars name))"
  have "length (concat ?cs) \<le> 4 * length ?cs"
    by (rule length_concat_bound) (auto dest!: in_set_takeD intro: length_chars_piece)
  also have "\<dots> \<le> 256" by simp
  finally show ?thesis using length_trim [of "concat ?cs"] by (simp add: sanitize_friendly_name_def)
qed

end
