(* ===== verification/Archive.thy ===== *)
theory Archive
  imports Rust_Strings
begin

text \<open>
  The message archives of \<^verbatim>\<open>gossip-writer/src/archive.rs\<close> and \<^verbatim>\<open>gossip-listener/src/archive.rs\<close>: a
  table of payloads keyed by content hash and a manifest partitioned by hour. The blake3 hash (as its
  hex text) is the parameter \<open>hash\<close>; an environment says whether the connection's statements succeed.
  The contract the clients use, a store that keeps the first payload of a key, is the locale
  \<open>dedup_store\<close>, which both copies implement.
\<close>

section \<open>Interface: a store that deduplicates by key\<close>

locale dedup_store =
  fixes put :: "'s \<Rightarrow> 'p \<Rightarrow> 's"
    and get :: "'s \<Rightarrow> 'k \<Rightarrow> 'p option"
    and key :: "'p \<Rightarrow> 'k"
  assumes get_put: "get (put s p) k = (if get s k = None \<and> k = key p then Some p else get s k)"
begin

lemma put_keeps: "get s k = Some p \<Longrightarrow> get (put s q) k = Some p"
  by (simp add: get_put)

lemma put_present: "get (put s p) (key p) \<noteq> None"
  by (simp add: get_put)

lemma get_puts:
  "get (foldl put s ps) k = (case get s k of Some q \<Rightarrow> Some q | None \<Rightarrow> find (\<lambda>p. key p = k) ps)"
  by (induction ps arbitrary: s) (auto simp: get_put split: option.splits)

lemma puts_complete:
  assumes "inj_on key (set ps)" and "p \<in> set ps" and "get s (key p) = None"
  shows "get (foldl put s ps) (key p) = Some p"
proof -
  have "find (\<lambda>q. key q = key p) ps \<noteq> None"
    using assms(2) by (auto simp: find_None_iff)
  then obtain q where q: "find (\<lambda>q. key q = key p) ps = Some q" by blast
  then have "q \<in> set ps" "key q = key p" by (auto dest: find_Some_in)
  with assms have "q = p" by (auto dest: inj_onD)
  with q assms(3) show ?thesis by (simp add: get_puts)
qed

end

section \<open>Dates\<close>

text \<open>\<^verbatim>\<open>{:02}\<close>\<close>

definition pad2 :: "nat \<Rightarrow> string" where
  "pad2 n = (if n < 10 then CHR ''0'' # dec n else dec n)"

lemma dec_no_dash: "CHR ''-'' \<notin> set (dec n)"
  using dec_digits [of n] by (auto simp: list_all_iff is_digit_def byte_def)

lemma digits_val_pad2: "digits_val (pad2 n) = n"
  using digits_val_dec [of n] by (simp add: pad2_def digits_val_def byte_def)

section \<open>Tables\<close>

record msg_row =
  mr_hash :: string
  mr_payload :: string
  mr_created_at :: int

record manifest_row =
  mf_hour_key :: string
  mf_hash :: string
  mf_sender :: string
  mf_medium :: string
  mf_reason :: string
  mf_timestamp :: int
  mf_iri_count :: int

record archive =
  messages :: "msg_row list"
  manifest :: "manifest_row list"

text \<open>What the environment decides for one call of \<^verbatim>\<open>store\<close>: the clock, and the two statements.\<close>

record arch_env =
  ae_clock :: "u64 option"
  ae_messages_ok :: bool
  ae_manifest_ok :: bool

text \<open>The arguments of \<^verbatim>\<open>store\<close> beside the payload.\<close>

record msg_meta =
  mm_sender :: string
  mm_medium :: string
  mm_reason :: string
  mm_timestamp :: u64
  mm_iri_count :: u64

definition archive_open :: "bool \<Rightarrow> bool \<Rightarrow> archive option \<Rightarrow> archive option \<times> (string + unit)" where
  "archive_open conn_ok batch_ok file =
     (if \<not> conn_ok then (file, Err ''open'')
      else if \<not> batch_ok then (file, Err ''create'')
      else (Some (case file of None \<Rightarrow> \<lparr>messages = [], manifest = []\<rparr> | Some a \<Rightarrow> a), Ok ()))"

definition hour_key :: "u64 \<Rightarrow> string" where
  "hour_key t =
     (let hours_since_epoch = unat t div 3600; day = hours_since_epoch div 24; hour = hours_since_epoch mod 24
      in dec day @ ''-'' @ pad2 hour)"

text \<open>\<^verbatim>\<open>INSERT OR IGNORE\<close> into the two tables; the flag is whether a row was added.\<close>

definition insert_message :: "msg_row \<Rightarrow> archive \<Rightarrow> archive \<times> bool" where
  "insert_message r a =
     (if mr_hash r \<in> mr_hash ` set (messages a) then (a, False)
      else (a\<lparr>messages := messages a @ [r]\<rparr>, True))"

definition insert_manifest :: "manifest_row \<Rightarrow> archive \<Rightarrow> archive" where
  "insert_manifest r a =
     (if \<exists>x \<in> set (manifest a). mf_hour_key x = mf_hour_key r \<and> mf_hash x = mf_hash r then a
      else a\<lparr>manifest := manifest a @ [r]\<rparr>)"

definition archive_store :: "(string \<Rightarrow> string) \<Rightarrow> arch_env \<Rightarrow> msg_meta \<Rightarrow> string \<Rightarrow> archive
    \<Rightarrow> archive \<times> (string + bool) outcome" where
  "archive_store hash E m payload a =
     (case ae_clock E of
        None \<Rightarrow> (a, Panic)
      | Some now \<Rightarrow>
          if \<not> ae_messages_ok E then (a, Ret (Err ''messages''))
          else
            (case insert_message \<lparr>mr_hash = hash payload, mr_payload = payload, mr_created_at = sint now\<rparr> a of
               (a1, inserted) \<Rightarrow>
                 if \<not> ae_manifest_ok E then (a1, Ret (Err ''manifest''))
                 else (insert_manifest \<lparr>mf_hour_key = hour_key (mm_timestamp m), mf_hash = hash payload,
                         mf_sender = mm_sender m, mf_medium = mm_medium m, mf_reason = mm_reason m,
                         mf_timestamp = sint (mm_timestamp m), mf_iri_count = sint (mm_iri_count m)\<rparr> a1,
                       Ret (Ok inserted))))"

section \<open>The listener's copy and its queries\<close>

definition l_archive_open :: "bool \<Rightarrow> bool \<Rightarrow> archive option \<Rightarrow> archive option \<times> (string + unit)" where
  "l_archive_open conn_ok batch_ok file =
     (if conn_ok \<and> batch_ok
      then (case file of None \<Rightarrow> (Some \<lparr>messages = [], manifest = []\<rparr>, Ok ()) | Some a \<Rightarrow> (Some a, Ok ()))
      else (file, Err (if conn_ok then ''create'' else ''open'')))"

definition l_archive_store :: "(string \<Rightarrow> string) \<Rightarrow> arch_env \<Rightarrow> msg_meta \<Rightarrow> string \<Rightarrow> archive
    \<Rightarrow> archive \<times> (string + bool) outcome" where
  "l_archive_store hash E m payload a =
     (let h = hash payload
      in case ae_clock E of
           None \<Rightarrow> (a, Panic)
         | Some now \<Rightarrow>
             if ae_messages_ok E then
               let (a1, inserted) = insert_message \<lparr>mr_hash = h, mr_payload = payload, mr_created_at = sint now\<rparr> a;
                   row = \<lparr>mf_hour_key = hour_key (mm_timestamp m), mf_hash = h, mf_sender = mm_sender m,
                          mf_medium = mm_medium m, mf_reason = mm_reason m,
                          mf_timestamp = sint (mm_timestamp m), mf_iri_count = sint (mm_iri_count m)\<rparr>
               in if ae_manifest_ok E then (insert_manifest row a1, Ret (Ok inserted))
                  else (a1, Ret (Err ''manifest''))
             else (a, Ret (Err ''messages'')))"

text \<open>
  \<^verbatim>\<open>ORDER BY created_at ASC\<close>: rows with the same time come in the order of the scan. The bound is
  cast to a signed integer.
\<close>

definition messages_since :: "bool \<Rightarrow> u64 \<Rightarrow> archive \<Rightarrow> string + string list" where
  "messages_since ok since a =
     (if \<not> ok then Err ''query''
      else Ok (map mr_payload (sort_key mr_created_at (filter (\<lambda>r. sint since \<le> mr_created_at r) (messages a)))))"

definition latest_timestamp :: "bool \<Rightarrow> archive \<Rightarrow> string + u64 option" where
  "latest_timestamp ok a =
     (if \<not> ok then Err ''query''
      else Ok (if messages a = [] then None
               else Some (word_of_int (Max (mr_created_at ` set (messages a))))))"

section \<open>Invariant and interface\<close>

definition archive_wf :: "archive \<Rightarrow> bool" where
  "archive_wf a \<longleftrightarrow> distinct (map mr_hash (messages a))
     \<and> distinct (map (\<lambda>r. (mf_hour_key r, mf_hash r)) (manifest a))"

definition archive_get :: "archive \<Rightarrow> string \<Rightarrow> string option" where
  "archive_get a h = map_option mr_payload (find (\<lambda>r. mr_hash r = h) (messages a))"

lemma insert_message_wf: "archive_wf a \<Longrightarrow> archive_wf (fst (insert_message r a))"
  by (auto simp: archive_wf_def insert_message_def)

lemma insert_manifest_wf: "archive_wf a \<Longrightarrow> archive_wf (insert_manifest r a)"
  by (auto simp: archive_wf_def insert_manifest_def)

lemma archive_store_wf: "archive_wf a \<Longrightarrow> archive_wf (fst (archive_store hash E m p a))"
  using insert_message_wf [of a] insert_manifest_wf
  by (auto simp: archive_store_def split: option.splits prod.splits) (metis fst_conv)+

lemma l_archive_store_eq: "l_archive_store = archive_store"
  by (intro ext) (auto simp: l_archive_store_def archive_store_def Let_def split: option.splits prod.splits)

lemma archive_get_manifest [simp]: "archive_get (insert_manifest r a) h = archive_get a h"
  by (simp add: archive_get_def insert_manifest_def)

lemma archive_get_message:
  "archive_get (fst (insert_message r a)) h =
     (if archive_get a h = None \<and> h = mr_hash r then Some (mr_payload r) else archive_get a h)"
proof -
  have "find (\<lambda>x. mr_hash x = h) (xs @ [r]) =
      (case find (\<lambda>x. mr_hash x = h) xs of None \<Rightarrow> if mr_hash r = h then Some r else None | Some y \<Rightarrow> Some y)" for xs
    by (induction xs) auto
  then show ?thesis
    using find_None_iff_key [of mr_hash h "messages a"]
    by (auto simp: archive_get_def insert_message_def split: option.splits)
qed

text \<open>One successful \<^verbatim>\<open>store\<close> at time \<open>now\<close>.\<close>

definition put_at :: "(string \<Rightarrow> string) \<Rightarrow> u64 \<Rightarrow> msg_meta \<Rightarrow> archive \<Rightarrow> string \<Rightarrow> archive" where
  "put_at hash now m a p =
     fst (archive_store hash \<lparr>ae_clock = Some now, ae_messages_ok = True, ae_manifest_ok = True\<rparr> m p a)"

interpretation arch: dedup_store "put_at hash now m" archive_get hash for hash now m
proof
  fix s p k
  obtain a1 b where im:
    "insert_message \<lparr>mr_hash = hash p, mr_payload = p, mr_created_at = sint now\<rparr> s = (a1, b)"
    by force
  show "archive_get (put_at hash now m s p) k =
      (if archive_get s k = None \<and> k = hash p then Some p else archive_get s k)"
    using archive_get_message
      [of "\<lparr>mr_hash = hash p, mr_payload = p, mr_created_at = sint now\<rparr>" s k]
    by (auto simp: put_at_def archive_store_def im)
qed

lemma store_result:
  assumes "ae_clock E = Some now" "ae_messages_ok E" "ae_manifest_ok E"
  shows "snd (archive_store hash E m p a) = Ret (Ok (archive_get a (hash p) = None))"
    and "set (messages (fst (archive_store hash E m p a))) =
      (if archive_get a (hash p) = None
       then insert \<lparr>mr_hash = hash p, mr_payload = p, mr_created_at = sint now\<rparr> (set (messages a))
       else set (messages a))"
  using assms find_None_iff_key [of mr_hash "hash p" "messages a"]
  by (auto simp: archive_store_def insert_message_def archive_get_def insert_manifest_def split: prod.splits)

section \<open>Properties\<close>

text \<open>The archive deduplicates by content hash: a store that reaches the database reports whether the
  hash was new, afterwards the hash is present, no other hash changes, a payload already stored is
  kept, and the keys of both tables stay unique.\<close>

theorem store_deduplicates:
  assumes "archive_wf a" and "ae_clock E = Some now" "ae_messages_ok E" "ae_manifest_ok E"
  shows "snd (archive_store hash E m p a) = Ret (Ok (archive_get a (hash p) = None))
    \<and> archive_wf (fst (archive_store hash E m p a))
    \<and> archive_get (fst (archive_store hash E m p a)) h =
        (if archive_get a h = None \<and> h = hash p then Some p else archive_get a h)"
proof -
  have "E = \<lparr>ae_clock = Some now, ae_messages_ok = True, ae_manifest_ok = True\<rparr>"
    using assms(2-4) by (cases E) simp
  then have "fst (archive_store hash E m p a) = put_at hash now m a p" by (simp add: put_at_def)
  with store_result(1) [OF assms(2-4), of hash m p a] archive_store_wf [OF assms(1), of hash E m p]
    arch.get_put [of hash now m a p h]
  show ?thesis by simp
qed

definition demo_meta :: msg_meta where
  "demo_meta = \<lparr>mm_sender = ''s'', mm_medium = ''podcast'', mm_reason = ''update'', mm_timestamp = 90000, mm_iri_count = 1\<rparr>"

definition demo_arch_env :: arch_env where
  "demo_arch_env = \<lparr>ae_clock = Some 90001, ae_messages_ok = True, ae_manifest_ok = True\<rparr>"

theorem store_deduplicates_witness:
  "snd (archive_store (\<lambda>p. p) demo_arch_env demo_meta ''m'' \<lparr>messages = [], manifest = []\<rparr>) = Ret (Ok True)
   \<and> archive_get (fst (archive_store (\<lambda>p. p) demo_arch_env demo_meta ''m'' \<lparr>messages = [], manifest = []\<rparr>)) ''m'' = Some ''m''"
  using store_deduplicates [of "\<lparr>messages = [], manifest = []\<rparr>" demo_arch_env 90001 "\<lambda>p. p" demo_meta "''m''" "''m''"]
  by (simp add: archive_wf_def demo_arch_env_def archive_get_def)

text \<open>Nothing stored is lost: after storing any sequence of payloads whose hashes do not collide,
  each payload is found under its hash, unless the hash was taken before.\<close>

theorem archive_complete:
  assumes "inj_on hash (set ps)" and "p \<in> set ps" and "archive_get a (hash p) = None"
  shows "archive_get (foldl (put_at hash now m) a ps) (hash p) = Some p"
  using assms by (rule arch.puts_complete)

theorem archive_complete_witness:
  "archive_get (foldl (put_at (\<lambda>p. p) 5 demo_meta) \<lparr>messages = [], manifest = []\<rparr> [''x'', ''y'', ''x'']) ''y'' = Some ''y''"
  by (rule archive_complete [where hash = "\<lambda>p. p"]) (simp_all add: archive_get_def)

text \<open>Catch-up serves every archived message from the requested time on, oldest first, each once:
  the answer is a permutation of the payloads with \<^verbatim>\<open>created_at\<close> at or after it, in order of time, and
  a new payload stored now is in it for every bound up to now.\<close>

theorem messages_since_complete:
  "\<exists>rs. messages_since True since a = Ok (map mr_payload rs)
     \<and> mset rs = filter_mset (\<lambda>r. sint since \<le> mr_created_at r) (mset (messages a))
     \<and> sorted (map mr_created_at rs)
     \<and> (\<forall>E now hash m p. ae_clock E = Some now \<longrightarrow> ae_messages_ok E \<longrightarrow> ae_manifest_ok E \<longrightarrow>
          archive_get a (hash p) = None \<longrightarrow> sint since \<le> sint now \<longrightarrow>
          (\<exists>ps. messages_since True since (fst (archive_store hash E m p a)) = Ok ps \<and> p \<in> set ps))"
  by (intro exI [of _ "sort_key mr_created_at (filter (\<lambda>r. sint since \<le> mr_created_at r) (messages a))"])
    (force simp: messages_since_def store_result(2))

theorem messages_since_complete_witness:
  "\<exists>ps. messages_since True 90000 (fst (archive_store (\<lambda>p. p) demo_arch_env demo_meta ''m''
     \<lparr>messages = [], manifest = []\<rparr>)) = Ok ps \<and> ''m'' \<in> set ps"
proof -
  have "ae_clock demo_arch_env = Some 90001 \<and> ae_messages_ok demo_arch_env \<and> ae_manifest_ok demo_arch_env"
    by (simp add: demo_arch_env_def)
  moreover have "archive_get \<lparr>messages = [], manifest = []\<rparr> ''m'' = None" by (simp add: archive_get_def)
  ultimately show ?thesis
    using messages_since_complete [of 90000 "\<lparr>messages = [], manifest = []\<rparr>"] by auto
qed

text \<open>The manifest key partitions by hour: two messages get the same key exactly when their
  timestamps fall into the same hour since the epoch.\<close>

theorem hour_key_identifies_hour:
  "hour_key t = hour_key t' \<longleftrightarrow> unat t div 3600 = unat t' div 3600"
proof
  let ?h = "unat t div 3600" and ?h' = "unat t' div 3600"
  assume "hour_key t = hour_key t'"
  then have eq: "dec (?h div 24) @ CHR ''-'' # pad2 (?h mod 24) = dec (?h' div 24) @ CHR ''-'' # pad2 (?h' mod 24)"
    by (simp add: hour_key_def Let_def)
  then have "split_on (CHR ''-'') (dec (?h div 24) @ CHR ''-'' # pad2 (?h mod 24))
      = split_on (CHR ''-'') (dec (?h' div 24) @ CHR ''-'' # pad2 (?h' mod 24))" by simp
  then have "dec (?h div 24) = dec (?h' div 24)"
    by (simp add: split_on_append dec_no_dash)
  with eq have "pad2 (?h mod 24) = pad2 (?h' mod 24)" by simp
  then have "?h mod 24 = ?h' mod 24" by (metis digits_val_pad2)
  moreover from \<open>dec (?h div 24) = dec (?h' div 24)\<close> have "?h div 24 = ?h' div 24"
    by (metis digits_val_dec)
  ultimately show "?h = ?h'" by (metis div_mult_mod_eq)
qed (simp add: hour_key_def)

end
