(* ===== verification/Listener_Receive.thy ===== *)
theory Listener_Receive
  imports Writer_Receive Listener_Messages Archive
begin

text \<open>
  The listener's receive task (\<^verbatim>\<open>spawn_receive_task\<close>) and its \<^verbatim>\<open>handle_event\<close>: announcements feed the
  peer file and the table of names, endorsements extend the trusted publishers, notifications of
  trusted senders go to the gap detector, the SSE channel and the archive. The state extends that of
  the writer's task with the parts only the listener has. The prints of the code appear where they
  can panic, and as the list of reported sequence gaps.
\<close>

section \<open>State\<close>

record 'id lrecv = "'id recv" +
  l_names_poisoned :: bool
  l_last_seq :: "string \<rightharpoonup> u64"
  l_seq_poisoned :: bool
  l_gaps :: "(string \<times> u64 \<times> u64 \<times> u64) list"
  l_db :: "archive option"
  l_db_poisoned :: bool
  l_sse :: "string list option"
  l_neighbor_tx :: bool
  l_catchup_peers :: "'id list"

text \<open>
  The environment of a turn adds the iteration order of the table of names, the content hash, the
  state of the archive's connection and the clock read for a notification.
\<close>

record l_env = recv_env +
  li_names :: "(string \<rightharpoonup> string) \<Rightarrow> (string \<times> string) list"
  li_hash :: "string \<Rightarrow> string"
  li_arch :: arch_env
  li_clock :: u64

abbreviation l_died :: "'id lrecv \<Rightarrow> 'id lrecv" where
  "l_died s \<equiv> s\<lparr>r_status := Panicked\<rparr>"

section \<open>handle\_event\<close>

text \<open>Printing the table under the write lock: a panic poisons the lock.\<close>

definition l_show_names :: "l_env \<Rightarrow> 'id lrecv \<Rightarrow> 'id lrecv" where
  "l_show_names E s =
     (case print_peer_table (li_names E (r_names s)) of
        Ret _ \<Rightarrow> s
      | Panic \<Rightarrow> (l_died s)\<lparr>l_names_poisoned := True\<rparr>)"

definition l_set_name :: "l_env \<Rightarrow> string \<Rightarrow> string \<Rightarrow> 'id lrecv \<Rightarrow> 'id lrecv" where
  "l_set_name E key sanitized s =
     (if l_names_poisoned s then l_died s
      else
        let is_new = (case r_names s key of None \<Rightarrow> True | Some old \<Rightarrow> old \<noteq> sanitized);
            s1 = s\<lparr>r_names := (r_names s)(key \<mapsto> sanitized)\<rparr>
        in if is_new then l_show_names E s1 else s1)"

definition l_handle_announce :: "'id recv_cfg \<Rightarrow> l_env \<Rightarrow> l_peer_announce \<Rightarrow> 'id lrecv \<Rightarrow> 'id lrecv" where
  "l_handle_announce C E a s =
     (let s1 = (case rf_parse_id C (a_node_id a) of
                  Some node \<Rightarrow> s\<lparr>r_peers_file := l_save_peer_if_new (rf_show_id C) (ri_peers_ok E) node (rf_me C) (r_peers_file s)\<rparr>
                | None \<Rightarrow> s)
      in case a_friendly_name a of
           Some name \<Rightarrow> (let z = sanitize_friendly_name name in if z \<noteq> [] then l_set_name E (a_node_id a) z s1 else s1)
         | None \<Rightarrow> s1)"

text \<open>An endorsement stores the name under the sender's key and under the node id.\<close>

definition l_endorse_names :: "l_env \<Rightarrow> string \<Rightarrow> l_peer_announce \<Rightarrow> 'id lrecv \<Rightarrow> 'id lrecv" where
  "l_endorse_names E sn a s =
     (case a_friendly_name a of
        None \<Rightarrow> s
      | Some name \<Rightarrow>
          let z = sanitize_friendly_name name
          in if z = [] then s
             else if l_names_poisoned s then l_died s
             else
               let c1 = (r_names s sn \<noteq> Some z);
                   n1 = (if c1 then (r_names s)(sn \<mapsto> z) else r_names s);
                   c2 = (n1 (a_node_id a) \<noteq> Some z);
                   n2 = (if c2 then n1(a_node_id a \<mapsto> z) else n1);
                   s1 = s\<lparr>r_names := n2\<rparr>
               in if c1 \<or> c2 then l_show_names E s1 else s1)"

fun l_add_keys :: "string \<Rightarrow> string list \<Rightarrow> string set \<Rightarrow> nat \<Rightarrow> string set \<times> nat \<times> bool" where
  "l_add_keys sn [] tp added = (tp, added, False)"
| "l_add_keys sn (k # ks) tp added =
     (if k \<in> tp then l_add_keys sn ks tp added
      else (case (slice_to k (min 8 (length k)), slice_to sn (min 8 (length sn))) of
              (Ret _, Ret _) \<Rightarrow> l_add_keys sn ks (insert k tp) (Suc added)
            | _ \<Rightarrow> (insert k tp, Suc added, True)))"

definition l_endorse_keys :: "l_env \<Rightarrow> string \<Rightarrow> string list \<Rightarrow> 'id lrecv \<Rightarrow> 'id lrecv" where
  "l_endorse_keys E sn keys s =
     (case l_add_keys sn keys (r_trusted s) 0 of (tp, added, panic) \<Rightarrow>
        if panic then s\<lparr>r_trusted := tp, r_trusted_poisoned := True, r_status := Panicked\<rparr>
        else if 0 < added
        then s\<lparr>r_trusted := tp,
               r_trusted_file := l_save_trusted_publishers (ri_order E) (ri_trusted_ok E) tp (r_trusted_file s)\<rparr>
        else s\<lparr>r_trusted := tp\<rparr>)"

definition l_handle_endorse :: "'id recv_cfg \<Rightarrow> l_env \<Rightarrow> l_peer_announce \<Rightarrow> 'id lrecv \<Rightarrow> 'id lrecv" where
  "l_handle_endorse C E a s =
     (case l_verify_endorse_signature (rf_lib C) a of
        Panic \<Rightarrow> l_died s
      | Ret (Inl _) \<Rightarrow> s
      | Ret (Inr ok) \<Rightarrow>
          if \<not> ok then s
          else (case a_sender a of
                  None \<Rightarrow> s
                | Some sn \<Rightarrow>
                    if r_trusted_poisoned s then l_died s
                    else if sn \<notin> r_trusted s then
                      (case slice_to sn (min 8 (length sn)) of Panic \<Rightarrow> l_died s | Ret _ \<Rightarrow> s)
                    else
                      let s1 = l_endorse_names E sn a s
                      in if r_status s1 = Panicked then s1
                         else (case a_node_list a of None \<Rightarrow> s1 | Some keys \<Rightarrow> l_endorse_keys E sn keys s1)))"

text \<open>The gap report: the expected number, the one received, and how many are missing.\<close>

definition seq_gap :: "u64 option \<Rightarrow> u64 \<Rightarrow> (u64 \<times> u64 \<times> u64) option" where
  "seq_gap last_seq q =
     (case last_seq of
        Some l \<Rightarrow> if l + 1 < q then Some (l + 1, q, q - l - 1) else None
      | None \<Rightarrow> None)"

definition l_check_seq :: "l_gossip_notification \<Rightarrow> 'id lrecv \<Rightarrow> 'id lrecv" where
  "l_check_seq n s =
     (case n_seq n of
        None \<Rightarrow> s
      | Some q \<Rightarrow>
          if l_seq_poisoned s then l_died s
          else
            (let s1 = s\<lparr>l_last_seq := (l_last_seq s)(n_sender n \<mapsto> q)\<rparr>
             in case seq_gap (l_last_seq s (n_sender n)) q of
                  None \<Rightarrow> s1
                | Some g \<Rightarrow>
                    (case slice_to (n_sender n) (min 8 (length (n_sender n))) of
                       Panic \<Rightarrow> (l_died s)\<lparr>l_seq_poisoned := True\<rparr>
                     | Ret short \<Rightarrow> s1\<lparr>l_gaps := l_gaps s @ [(short, g)]\<rparr>)))"

definition l_store :: "l_env \<Rightarrow> string \<Rightarrow> l_gossip_notification \<Rightarrow> 'id lrecv \<Rightarrow> 'id lrecv" where
  "l_store E raw n s =
     (case l_db s of
        None \<Rightarrow> s
      | Some a \<Rightarrow>
          if l_db_poisoned s then l_died s
          else (case l_archive_store (li_hash E) (li_arch E)
                       \<lparr>mm_sender = n_sender n, mm_medium = n_medium n, mm_reason = n_reason n,
                        mm_timestamp = n_timestamp n, mm_iri_count = of_nat (length (n_iris n))\<rparr> raw a of
                  (a', Ret _) \<Rightarrow> s\<lparr>l_db := Some a'\<rparr>
                | (a', Panic) \<Rightarrow> (l_died s)\<lparr>l_db := Some a', l_db_poisoned := True\<rparr>))"

definition l_sender_display :: "(string \<rightharpoonup> string) \<Rightarrow> string \<Rightarrow> string outcome" where
  "l_sender_display names sn =
     bind_outcome (slice_to sn (min 8 (length sn))) (\<lambda>short.
       Ret (case names sn of Some name \<Rightarrow> ''\"'' @ name @ ''\" ('' @ short @ '')'' | None \<Rightarrow> short))"

definition l_publish :: "'id recv_cfg \<Rightarrow> l_env \<Rightarrow> string \<Rightarrow> l_gossip_notification \<Rightarrow> 'id lrecv \<Rightarrow> 'id lrecv" where
  "l_publish C E raw n s =
     (if l_names_poisoned s then l_died s
      else (case l_sender_display (r_names s) (n_sender n) of
              Panic \<Rightarrow> l_died s
            | Ret d \<Rightarrow>
                let j = print_notification (rf_lib C) n d;
                    s1 = s\<lparr>l_sse := map_option (\<lambda>log. log @ [j]) (l_sse s)\<rparr>
                in l_store E raw n s1))"

definition l_handle_notification :: "'id recv_cfg \<Rightarrow> l_env \<Rightarrow> string \<Rightarrow> l_gossip_notification \<Rightarrow> 'id lrecv \<Rightarrow> 'id lrecv" where
  "l_handle_notification C E raw n s =
     (let c = r_ctl s; s1 = s\<lparr>r_ctl := c\<lparr>c_last_notif := li_clock E, c_notifs := c_notifs c + 1\<rparr>\<rparr>
      in if r_trusted_poisoned s1 then l_died s1
         else if r_trusted s1 = {} \<or> n_sender n \<in> r_trusted s1 then
           (let s2 = l_check_seq n s1 in if r_status s2 = Panicked then s2 else l_publish C E raw n s2)
         else s1)"

definition l_handle_received :: "'id recv_cfg \<Rightarrow> l_env \<Rightarrow> string \<Rightarrow> 'id lrecv \<Rightarrow> 'id lrecv" where
  "l_handle_received C E raw s =
     (case parse_announce (rf_lib C) raw of
        Some a \<Rightarrow>
          if a_msg_type a = ''peer_announce'' then l_handle_announce C E a s
          else if a_msg_type a = ''peer_endorse'' then l_handle_endorse C E a s
          else s
      | None \<Rightarrow>
          (case parse_notification (rf_lib C) raw of
             Some n \<Rightarrow> l_handle_notification C E raw n s
           | None \<Rightarrow> s))"

definition l_handle_neighbor_up :: "'id recv_cfg \<Rightarrow> l_env \<Rightarrow> 'id \<Rightarrow> 'id lrecv \<Rightarrow> 'id lrecv" where
  "l_handle_neighbor_up C E node s =
     (if l_names_poisoned s then l_died s
      else
        let s1 = s\<lparr>r_peers_file := l_save_peer_if_new (rf_show_id C) (ri_peers_ok E) node (rf_me C) (r_peers_file s)\<rparr>
        in if l_neighbor_tx s1
           then s1\<lparr>l_catchup_peers := l_catchup_peers s1 @ [node], l_neighbor_tx := False\<rparr> else s1)"

fun l_handle_event :: "'id recv_cfg \<Rightarrow> l_env \<Rightarrow> 'id gossip_input \<Rightarrow> 'id lrecv \<Rightarrow> 'id lrecv" where
  "l_handle_event C E (Msg raw from_peer) s = l_handle_received C E raw s"
| "l_handle_event C E (Neighbor_up node) s = l_handle_neighbor_up C E node s"
| "l_handle_event C E (Neighbor_down node) s = (if l_names_poisoned s then l_died s else s)"
| "l_handle_event C E _ s = s"

section \<open>The loop\<close>

definition l_suggest :: "'id recv_cfg \<Rightarrow> l_env \<Rightarrow> l_peer_suggest \<Rightarrow> 'id lrecv \<Rightarrow> 'id lrecv" where
  "l_suggest C E g s =
     (if s_target_node_id g = rf_show_id C (rf_me C) \<and> l_suggest_verify_signature (rf_lib C) g = Ok True
         \<and> s_sender g \<in> rf_monitors C \<and> saturating_sub (ri_now2 E) (s_timestamp g) < 300
      then
        let peers = List.map_filter (rf_parse_id C) (s_suggested_peers g)
        in if peers = [] then s
           else (case slice_to (s_sender g) 8 of
                   Panic \<Rightarrow> l_died s
                 | Ret _ \<Rightarrow> s\<lparr>r_joins := r_joins s @ [peers]\<rparr>)
      else s)"

definition l_task_end :: "'id recv_cfg \<Rightarrow> 'id lrecv \<Rightarrow> 'id lrecv" where
  "l_task_end C s =
     (let s1 = s\<lparr>r_status := Ended\<rparr>
      in if \<not> c_shutdown (r_ctl s) \<and> c_generation (r_ctl s) = rf_generation C
         then s1\<lparr>r_ctl := raise_request (r_ctl s)\<rparr> else s1)"

definition l_event_turn :: "'id recv_cfg \<Rightarrow> l_env \<Rightarrow> 'id gossip_input \<Rightarrow> 'id lrecv \<Rightarrow> 'id lrecv" where
  "l_event_turn C E i s =
     (let c = r_ctl s
      in case i of
           Neighbor_up node \<Rightarrow>
             l_handle_event C E i (s\<lparr>r_ctl := c\<lparr>c_neighbor_count := c_neighbor_count c + 1,
               c_neighbor_ids := insert (rf_show_id C node) (c_neighbor_ids c)\<rparr>\<rparr>)
         | Neighbor_down node \<Rightarrow>
             l_handle_event C E i (s\<lparr>r_ctl := c\<lparr>c_neighbor_count := c_neighbor_count c - 1,
               c_neighbor_ids := c_neighbor_ids c - {rf_show_id C node}\<rparr>\<rparr>)
         | Msg raw from_peer \<Rightarrow>
             (let s1 = s\<lparr>r_ctl := c\<lparr>c_sources := insert from_peer (c_sources c)\<rparr>\<rparr>
              in case parse_suggest (rf_lib C) raw of
                   Some g \<Rightarrow> if s_msg_type g = ''peer_suggest'' then l_suggest C E g s1 else l_handle_event C E i s1
                 | None \<Rightarrow> l_handle_event C E i s1)
         | Receiver_error \<Rightarrow> l_task_end C s
         | _ \<Rightarrow> l_handle_event C E i s)"

definition l_receive_turn :: "'id recv_cfg \<Rightarrow> l_env \<times> 'id gossip_input \<Rightarrow> 'id lrecv \<Rightarrow> 'id lrecv" where
  "l_receive_turn C ei s =
     (case ei of (E, i) \<Rightarrow>
       if r_status s \<noteq> Running then s
       else if i = Receiver_closed then l_task_end C s
       else if i = Receive_timeout then
         (if 2 * REBOOTSTRAP_TIMEOUT < saturating_sub (ri_now E) (c_last_notif (r_ctl s)) then l_task_end C s else s)
       else if c_generation (r_ctl s) \<noteq> rf_generation C then s\<lparr>r_status := Ended\<rparr>
       else l_event_turn C E i s)"

section \<open>Lemmas\<close>

lemma l_add_keys_set:
  "l_add_keys sn ks tp n = (tp', m, p) \<Longrightarrow> tp \<subseteq> tp' \<and> tp' \<subseteq> tp \<union> set ks"
proof (induction ks arbitrary: tp n)
  case (Cons k ks)
  show ?case
  proof (cases "k \<in> tp")
    case True
    with Cons show ?thesis by (simp add: insert_absorb)
  next
    case new: False
    show ?thesis
    proof (cases "\<exists>x y. slice_to k (min 8 (length k)) = Ret x \<and> slice_to sn (min 8 (length sn)) = Ret y")
      case True
      with new Cons.prems have "l_add_keys sn ks (insert k tp) (Suc n) = (tp', m, p)" by auto
      from Cons.IH [OF this] show ?thesis by auto
    next
      case False
      with new Cons.prems show ?thesis
        by (cases "slice_to k (min 8 (length k))"; cases "slice_to sn (min 8 (length sn))") auto
    qed
  qed
qed simp

lemma l_names_keep_trusted [simp]:
  "r_trusted (l_show_names E s) = r_trusted s" "r_trusted (l_set_name E k z s) = r_trusted s"
  "r_trusted (l_endorse_names E sn a s) = r_trusted s" "r_trusted (l_handle_announce C E a s) = r_trusted s"
  by (simp_all add: l_show_names_def l_set_name_def l_endorse_names_def l_handle_announce_def Let_def
      split: outcome.split option.split)

lemma l_notification_keeps_trusted [simp]:
  "r_trusted (l_check_seq n s) = r_trusted s" "r_trusted (l_store E raw n s) = r_trusted s"
  "r_trusted (l_publish C E raw n s) = r_trusted s" "r_trusted (l_handle_notification C E raw n s) = r_trusted s"
  by (simp_all add: l_check_seq_def l_store_def l_publish_def l_handle_notification_def Let_def
      split: outcome.split option.split prod.split)

lemma l_rest_keeps_trusted [simp]:
  "r_trusted (l_suggest C E g s) = r_trusted s" "r_trusted (l_task_end C s) = r_trusted s"
  "r_trusted (l_handle_neighbor_up C E node s) = r_trusted s"
  by (simp_all add: l_suggest_def l_task_end_def l_handle_neighbor_up_def Let_def split: outcome.split)

text \<open>The endorsement an input carries for the listener, which has no switch for automatic trust.\<close>

definition l_endorsement :: "'id recv_cfg \<Rightarrow> l_env \<times> 'id gossip_input \<Rightarrow> (string \<times> string list) option" where
  "l_endorsement C ei =
     (case snd ei of
        Msg content from_peer \<Rightarrow>
          (case parse_announce (rf_lib C) content of
             Some a \<Rightarrow>
               if a_msg_type a = ''peer_endorse'' \<and> l_verify_endorse_signature (rf_lib C) a = Ret (Ok True)
               then (case (a_sender a, a_node_list a) of (Some sn, Some keys) \<Rightarrow> Some (sn, keys) | _ \<Rightarrow> None)
               else None
           | None \<Rightarrow> None)
      | _ \<Rightarrow> None)"

lemma l_endorse_keys_trusted:
  "r_trusted s \<subseteq> r_trusted (l_endorse_keys E sn keys s)" "r_trusted (l_endorse_keys E sn keys s) \<subseteq> r_trusted s \<union> set keys"
  by (auto simp: l_endorse_keys_def dest!: l_add_keys_set split: prod.splits if_splits)

lemma l_handle_endorse_trusted:
  "r_trusted s \<subseteq> r_trusted (l_handle_endorse C E a s)"
  "k \<in> r_trusted (l_handle_endorse C E a s) \<Longrightarrow> k \<notin> r_trusted s \<Longrightarrow>
     l_verify_endorse_signature (rf_lib C) a = Ret (Ok True)
     \<and> (\<exists>sn keys. a_sender a = Some sn \<and> a_node_list a = Some keys \<and> sn \<in> r_trusted s \<and> k \<in> set keys)"
proof -
  have sub: "r_trusted s \<subseteq> r_trusted (l_endorse_keys E sn keys (l_endorse_names E sn a s))"
    and sup: "r_trusted (l_endorse_keys E sn keys (l_endorse_names E sn a s)) \<subseteq> r_trusted s \<union> set keys" for sn keys
    using l_endorse_keys_trusted [where s = "l_endorse_names E sn a s"] by simp_all
  show "r_trusted s \<subseteq> r_trusted (l_handle_endorse C E a s)"
    using sub by (auto simp: l_handle_endorse_def Let_def split: outcome.split sum.split option.split)
  show "l_verify_endorse_signature (rf_lib C) a = Ret (Ok True)
     \<and> (\<exists>sn keys. a_sender a = Some sn \<and> a_node_list a = Some keys \<and> sn \<in> r_trusted s \<and> k \<in> set keys)"
    if "k \<in> r_trusted (l_handle_endorse C E a s)" and "k \<notin> r_trusted s"
    using that sup by (auto simp: l_handle_endorse_def Let_def split: outcome.splits sum.splits option.splits if_splits)
qed

lemma l_received_trusted:
  "r_trusted s \<subseteq> r_trusted (l_handle_received C E raw s)"
  "k \<in> r_trusted (l_handle_received C E raw s) \<Longrightarrow> k \<notin> r_trusted s \<Longrightarrow>
     \<exists>sn keys. l_endorsement C (E', Msg raw from_peer) = Some (sn, keys) \<and> sn \<in> r_trusted s \<and> k \<in> set keys"
proof -
  show "r_trusted s \<subseteq> r_trusted (l_handle_received C E raw s)"
    using l_handle_endorse_trusted(1) [of s C E] by (auto simp: l_handle_received_def subset_iff split: option.splits if_splits)
  assume k: "k \<in> r_trusted (l_handle_received C E raw s)" "k \<notin> r_trusted s"
  then obtain a where a: "parse_announce (rf_lib C) raw = Some a" "a_msg_type a = ''peer_endorse''"
    "k \<in> r_trusted (l_handle_endorse C E a s)"
    by (auto simp: l_handle_received_def split: option.splits if_splits)
  from l_handle_endorse_trusted(2) [OF a(3) k(2)] a(1,2)
  show "\<exists>sn keys. l_endorsement C (E', Msg raw from_peer) = Some (sn, keys) \<and> sn \<in> r_trusted s \<and> k \<in> set keys"
    by (auto simp: l_endorsement_def)
qed

lemma l_event_turn_trusted:
  "(\<And>raw from_peer. i \<noteq> Msg raw from_peer) \<Longrightarrow> r_trusted (l_event_turn C E i s) = r_trusted s"
  by (cases i) (auto simp: l_event_turn_def Let_def)

interpretation listener_trust: trust_keeper "l_receive_turn C" r_trusted "l_endorsement C"
  for C :: "'id recv_cfg"
proof
  fix s :: "'id lrecv" and ei :: "l_env \<times> 'id gossip_input" and k
  obtain E i where ei: "ei = (E, i)" by fastforce
  let ?c = "\<lambda>from_peer. r_ctl s\<lparr>c_sources := insert from_peer (c_sources (r_ctl s))\<rparr>"
  show "r_trusted s \<subseteq> r_trusted (l_receive_turn C ei s)"
  proof (cases i)
    case (Msg raw from_peer)
    with l_received_trusted(1) [of "s\<lparr>r_ctl := ?c from_peer\<rparr>" C E raw] show ?thesis
      by (auto simp: l_receive_turn_def ei l_event_turn_def Let_def split: option.split)
  qed (simp_all add: l_receive_turn_def ei l_event_turn_trusted)
  assume k: "k \<in> r_trusted (l_receive_turn C ei s)"
  show "k \<in> r_trusted s \<or> (\<exists>sn keys. l_endorsement C ei = Some (sn, keys) \<and> sn \<in> r_trusted s \<and> k \<in> set keys)"
  proof (cases i)
    case (Msg raw from_peer)
    with k have "k \<in> r_trusted s \<or> k \<in> r_trusted (l_handle_received C E raw (s\<lparr>r_ctl := ?c from_peer\<rparr>))"
      by (auto simp: l_receive_turn_def ei l_event_turn_def Let_def split: option.splits if_splits)
    with l_received_trusted(2) [of k C E raw "s\<lparr>r_ctl := ?c from_peer\<rparr>" E from_peer] Msg ei show ?thesis by auto
  qed (use k in \<open>auto simp: l_receive_turn_def ei l_event_turn_trusted split: if_splits\<close>)
qed

lemma l_store_present:
  assumes "ae_clock E = Some now" and "ae_messages_ok E"
  shows "\<exists>a' r. l_archive_store h E m p a = (a', Ret r) \<and> h p \<in> mr_hash ` set (messages a')"
proof (cases "insert_message \<lparr>mr_hash = h p, mr_payload = p, mr_created_at = sint now\<rparr> a")
  case (Pair a1 ins)
  then have "h p \<in> mr_hash ` set (messages a1)" by (auto simp: insert_message_def split: if_splits)
  with Pair assms show ?thesis
    by (cases "ae_manifest_ok E") (simp_all add: l_archive_store_def Let_def insert_manifest_def)
qed

text \<open>What a notification of an accepted sender does when nothing on its way panics.\<close>

lemma l_publish_ok:
  assumes "\<not> l_names_poisoned s" and "ascii_str (n_sender n)" and "l_db s = Some a" and "\<not> l_db_poisoned s"
    and "l_archive_store (li_hash E) (li_arch E)
      \<lparr>mm_sender = n_sender n, mm_medium = n_medium n, mm_reason = n_reason n,
       mm_timestamp = n_timestamp n, mm_iri_count = of_nat (length (n_iris n))\<rparr> raw a = (a', Ret r)"
  shows "\<exists>d. l_publish C E raw n s
    = s\<lparr>l_sse := map_option (\<lambda>log. log @ [print_notification (rf_lib C) n d]) (l_sse s), l_db := Some a'\<rparr>"
  using assms by (auto simp: l_publish_def l_sender_display_def l_store_def slice_to_ascii Let_def)

lemma l_check_seq_ok:
  assumes "\<not> l_seq_poisoned s" and "ascii_str (n_sender n)"
  shows "\<exists>m g. l_check_seq n s = s\<lparr>l_last_seq := m, l_gaps := g\<rparr>"
proof (cases "n_seq n")
  case None
  then have "l_check_seq n s = s\<lparr>l_last_seq := l_last_seq s, l_gaps := l_gaps s\<rparr>" by (simp add: l_check_seq_def)
  then show ?thesis by blast
next
  case (Some q)
  let ?m = "(l_last_seq s)(n_sender n \<mapsto> q)"
  show ?thesis
  proof (cases "seq_gap (l_last_seq s (n_sender n)) q")
    case None
    with Some assms have "l_check_seq n s = s\<lparr>l_last_seq := ?m, l_gaps := l_gaps s\<rparr>"
      by (simp add: l_check_seq_def Let_def)
    then show ?thesis by blast
  next
    case (Some g)
    with \<open>n_seq n = Some q\<close> assms
    have "l_check_seq n s = s\<lparr>l_last_seq := ?m, l_gaps := l_gaps s @ [(take (min 8 (length (n_sender n))) (n_sender n), g)]\<rparr>"
      by (simp add: l_check_seq_def slice_to_ascii Let_def)
    then show ?thesis by blast
  qed
qed

lemma l_turn_accepts:
  assumes "r_status s = Running" and "c_generation (r_ctl s) = rf_generation C"
    and "parse_suggest (rf_lib C) raw = None" and "parse_announce (rf_lib C) raw = None"
    and "parse_notification (rf_lib C) raw = Some n"
    and "\<not> r_trusted_poisoned s" and "\<not> l_names_poisoned s" and "\<not> l_seq_poisoned s" and "\<not> l_db_poisoned s"
    and "r_trusted s = {} \<or> n_sender n \<in> r_trusted s" and "ascii_str (n_sender n)"
    and "l_db s = Some a" and "l_sse s = Some log"
    and "ae_clock (li_arch E) = Some now" and "ae_messages_ok (li_arch E)"
  shows "\<exists>d a'. let t = l_receive_turn C (E, Msg raw from_peer) s in
    r_status t = Running \<and> l_sse t = Some (log @ [print_notification (rf_lib C) n d])
    \<and> l_db t = Some a' \<and> li_hash E raw \<in> mr_hash ` set (messages a')"
proof -
  let ?meta = "\<lparr>mm_sender = n_sender n, mm_medium = n_medium n, mm_reason = n_reason n,
    mm_timestamp = n_timestamp n, mm_iri_count = of_nat (length (n_iris n))\<rparr>"
  let ?c = "r_ctl s"
  let ?u = "s\<lparr>r_ctl := ?c\<lparr>c_sources := insert from_peer (c_sources ?c), c_last_notif := li_clock E, c_notifs := c_notifs ?c + 1\<rparr>\<rparr>"
  obtain a' r where st: "l_archive_store (li_hash E) (li_arch E) ?meta raw a = (a', Ret r)"
    and h: "li_hash E raw \<in> mr_hash ` set (messages a')"
    using l_store_present [OF assms(14,15)] by blast
  obtain m g where v: "l_check_seq n ?u = ?u\<lparr>l_last_seq := m, l_gaps := g\<rparr>"
    using l_check_seq_ok [of ?u n] assms by auto
  obtain d where p: "l_publish C E raw n (?u\<lparr>l_last_seq := m, l_gaps := g\<rparr>)
      = (?u\<lparr>l_last_seq := m, l_gaps := g\<rparr>)\<lparr>l_sse := map_option (\<lambda>log. log @ [print_notification (rf_lib C) n d]) (l_sse s), l_db := Some a'\<rparr>"
    using l_publish_ok [of "?u\<lparr>l_last_seq := m, l_gaps := g\<rparr>" n a E raw a' r C] st assms by auto
  have "l_receive_turn C (E, Msg raw from_peer) s
      = (let w = l_check_seq n ?u in if r_status w = Panicked then w else l_publish C E raw n w)"
    using assms by (auto simp: l_receive_turn_def l_event_turn_def l_handle_received_def l_handle_notification_def Let_def)
  then show ?thesis using v p h assms by (auto simp: Let_def)
qed

section \<open>Properties\<close>

definition demo_wide_id :: string where
  "demo_wide_id = replicate 15 (CHR ''a'') @ [CHR 0xC3, CHR 0xA9]"

definition demo_wide_announce :: peer_announce where
  "demo_wide_announce = announce_new 5 (None, None, None) ''linux'' ''release'' demo_wide_id ''1.0'' (Some ''x'')
     \<lparr>m_neighbor_count = None, m_neighbors = None, m_uptime_secs = None, m_msgs_received = None, m_msgs_sent = None,
      m_last_msg_age_secs = None, m_reconnect_count = None\<rparr>"

definition demo_llib :: gossip_lib where
  "demo_llib = demo_rlib\<lparr>parse_announce := (\<lambda>c. if c = ''A'' then Some demo_wide_announce else None)\<rparr>"

definition demo_lcfg :: "string recv_cfg" where
  "demo_lcfg = demo_rcfg\<lparr>rf_lib := demo_llib, rf_parse_id := (\<lambda>_. None)\<rparr>"

definition demo_lenv :: l_env where
  "demo_lenv = \<lparr>ri_now = 1000, ri_now2 = 1000, ri_peers_ok = True, ri_trusted_ok = True, ri_order = (\<lambda>_. []),
     li_names = (\<lambda>_. [(demo_wide_id, ''x'')]), li_hash = (\<lambda>x. x), li_arch = \<lparr>ae_clock = Some 9, ae_messages_ok = True, ae_manifest_ok = True\<rparr>,
     li_clock = 1000\<rparr>"

definition demo_lrecv :: "string set \<Rightarrow> string lrecv" where
  "demo_lrecv T = \<lparr>r_ctl = demo_ctl, r_status = Running, r_trusted = T, r_trusted_poisoned = False,
     r_trusted_file = None, r_peers_file = None, r_names = Map.empty, r_joins = [],
     l_names_poisoned = False, l_last_seq = Map.empty, l_seq_poisoned = False, l_gaps = [],
     l_db = Some \<lparr>messages = [], manifest = []\<rparr>, l_db_poisoned = False, l_sse = Some [], l_neighbor_tx = True,
     l_catchup_peers = []\<rparr>"

lemmas demo_listener_defs = demo_lcfg_def demo_llib_def demo_lenv_def demo_lrecv_def demo_rcfg_def demo_rlib_def
  demo_ctl_def demo_short_def notification_new_def

text \<open>Chain of trust in the listener: after any sequence of inputs a key is trusted only if it was at
  the start or a correctly signed endorsement of the run by a sender trusted this way lists it; no
  input removes a key.\<close>

theorem listener_trust_only_through_endorsements:
  "(k \<in> r_trusted (turns (l_receive_turn C) eis s) \<longrightarrow>
      trust_chain {p. \<exists>ei \<in> set eis. l_endorsement C ei = Some p} (r_trusted s) k)
   \<and> r_trusted s \<subseteq> r_trusted (turns (l_receive_turn C) eis s)"
  by (simp add: listener_trust.chain_run listener_trust.kept_run)

theorem listener_trust_only_through_endorsements_witness:
  "''evil'' \<notin> r_trusted (turns (l_receive_turn demo_lcfg) [(demo_lenv, Msg ''A'' ''q''), (demo_lenv, Msg ''N'' ''q'')] (demo_lrecv {''pub''}))"
proof
  let ?eis = "[(demo_lenv, Msg ''A'' ''q''), (demo_lenv, Msg ''N'' ''q'')]"
  assume "''evil'' \<in> r_trusted (turns (l_receive_turn demo_lcfg) ?eis (demo_lrecv {''pub''}))"
  with listener_trust_only_through_endorsements [of "''evil''" demo_lcfg ?eis "demo_lrecv {''pub''}"]
  have c: "trust_chain {p. \<exists>ei \<in> set ?eis. l_endorsement demo_lcfg ei = Some p} (r_trusted (demo_lrecv {''pub''})) ''evil''" by blast
  have "{p. \<exists>ei \<in> set ?eis. l_endorsement demo_lcfg ei = Some p} = {}"
    by (simp add: l_endorsement_def demo_lcfg_def demo_llib_def demo_wide_announce_def announce_new_def)
  with c show False by (simp only: trust_chain_none) (simp add: demo_lrecv_def)
qed

text \<open>Filtering: once any publisher is trusted, a notification whose sender is not trusted reaches
  neither the archive nor the SSE stream nor the sequence table.\<close>

theorem untrusted_notification_is_dropped:
  assumes "parse_announce (rf_lib C) raw = None" and "parse_notification (rf_lib C) raw = Some n"
    and "r_trusted s \<noteq> {}" and "n_sender n \<notin> r_trusted s"
  shows "let t = l_receive_turn C (E, Msg raw from_peer) s in
    l_db t = l_db s \<and> l_sse t = l_sse s \<and> l_last_seq t = l_last_seq s \<and> l_gaps t = l_gaps s"
  using assms
  by (auto simp: l_receive_turn_def l_event_turn_def l_suggest_def l_handle_received_def l_handle_notification_def
      Let_def split: option.split outcome.split)

theorem untrusted_notification_is_dropped_witness:
  "l_sse (l_receive_turn demo_lcfg (demo_lenv, Msg ''N'' ''q'') (demo_lrecv {''pub''})) = Some []"
  using untrusted_notification_is_dropped [of demo_lcfg "''N''" demo_short "demo_lrecv {''pub''}" demo_lenv "''q''"]
  by (simp add: demo_listener_defs Let_def)

text \<open>C8. Delivery: a notification from an accepted sender that reaches the active task is written to the
  archive under its content hash and printed to the SSE stream, whatever its signature: the status
  (VALID, UNSIGNED or INVALID) is only part of the printed text.\<close>

theorem accepted_notification_is_published:
  assumes "r_status s = Running" and "c_generation (r_ctl s) = rf_generation C"
    and "parse_suggest (rf_lib C) raw = None" and "parse_announce (rf_lib C) raw = None"
    and "parse_notification (rf_lib C) raw = Some n"
    and "\<not> r_trusted_poisoned s" and "\<not> l_names_poisoned s" and "\<not> l_seq_poisoned s" and "\<not> l_db_poisoned s"
    and "r_trusted s = {} \<or> n_sender n \<in> r_trusted s" and "ascii_str (n_sender n)"
    and "l_db s = Some a" and "l_sse s = Some log"
    and "ae_clock (li_arch E) = Some now" and "ae_messages_ok (li_arch E)"
  shows "\<exists>d a'. let t = l_receive_turn C (E, Msg raw from_peer) s in
    r_status t = Running \<and> l_sse t = Some (log @ [print_notification (rf_lib C) n d])
    \<and> l_db t = Some a' \<and> li_hash E raw \<in> mr_hash ` set (messages a')"
  using assms by (rule l_turn_accepts)

theorem accepted_notification_is_published_witness:
  "\<exists>log. l_sse (l_receive_turn demo_lcfg (demo_lenv, Msg ''N'' ''q'') (demo_lrecv {''abc''})) = Some log \<and> length log = 1"
proof -
  have "ascii_str ''abc''" by code_simp
  then show ?thesis
    using accepted_notification_is_published [of "demo_lrecv {''abc''}" demo_lcfg "''N''" demo_short
        "\<lparr>messages = [], manifest = []\<rparr>" "[]" demo_lenv 9 "''q''"]
    by (auto simp: demo_listener_defs Let_def)
qed

text \<open>Gap detection: with the last number below the maximum, a gap is reported exactly when at least
  one number was skipped, and the reported count is the number of skipped ones. At the maximum the
  sum wraps and every later positive number is reported as a gap.\<close>

theorem seq_gap_counts_missing:
  "(l \<noteq> - 1 \<longrightarrow>
      seq_gap (Some l) q = (if unat l + 1 < unat q then Some (l + 1, q, of_nat (unat q - unat l - 1)) else None))
   \<and> (0 < q \<longrightarrow> seq_gap (Some (- 1)) q = Some (0, q, q)) \<and> seq_gap None q = None"
proof -
  have "seq_gap (Some l) q = (if unat l + 1 < unat q then Some (l + 1, q, of_nat (unat q - unat l - 1)) else None)"
    if "l \<noteq> - 1"
  proof -
    have u: "unat (l + 1) = unat l + 1"
      using that by (metis Suc_eq_plus1 add.commute add_cancel_left_right eq_neg_iff_add_eq_0 unatSuc)
    have "q - l - 1 = of_nat (unat q - unat l - 1)" if "unat l + 1 < unat q"
    proof -
      have "q - l - 1 = of_nat (unat q) - of_nat (unat l) - of_nat 1" by simp
      also have "\<dots> = of_nat (unat q - unat l - 1)" using that by (simp add: of_nat_diff)
      finally show ?thesis .
    qed
    with u show ?thesis by (simp add: seq_gap_def word_less_nat_alt)
  qed
  then show ?thesis by (simp add: seq_gap_def)
qed

theorem seq_gap_counts_missing_witness: "seq_gap (Some 4) 9 = Some (5, 9, 4)"
  using seq_gap_counts_missing [of 4 9] by simp

text \<open>A remote announcement can disable the listener for good: a node id whose byte 16 lies inside a
  character makes the table print panic while the lock of the names is held for writing. The task
  dies, and every later task dies on its first change of neighbours or accepted notification, since
  the lock stays poisoned.\<close>

theorem announced_id_poisons_listener:
  assumes "r_status s = Running" and "c_generation (r_ctl s) = rf_generation C" and "\<not> l_names_poisoned s"
    and "parse_suggest (rf_lib C) raw = None" and "parse_announce (rf_lib C) raw = Some a"
    and "a_msg_type a = ''peer_announce''" and "a_friendly_name a = Some name" and "sanitize_friendly_name name \<noteq> []"
    and "r_names s (a_node_id a) = None" and "16 < length (a_node_id a)" and "utf8_cont (a_node_id a ! 16)"
    and "a_node_id a \<in> fst ` set (li_names E ((r_names s)(a_node_id a \<mapsto> sanitize_friendly_name name)))"
  shows "let t = l_receive_turn C (E, Msg raw from_peer) s in
    r_status t = Panicked \<and> l_names_poisoned t
    \<and> (\<forall>C' E' node. let u = t\<lparr>r_status := Running\<rparr> in c_generation (r_ctl u) = rf_generation C' \<longrightarrow>
         r_status (l_receive_turn C' (E', Neighbor_up node) u) = Panicked)"
proof -
  let ?id = "a_node_id a"
  let ?names = "li_names E ((r_names s)(?id \<mapsto> sanitize_friendly_name name))"
  have "slice_to ?id (min 16 (length ?id)) = Panic"
    using assms(10,11) by (simp add: slice_to_def is_char_boundary_def)
  with assms(12) have "mapM_outcome (\<lambda>(key, name). slice_to key (min 16 (length key))) ?names = Panic"
    by (force simp: mapM_outcome_Panic)
  then have p: "print_peer_table ?names = Panic" by (simp add: print_peer_table_def)
  let ?t = "l_receive_turn C (E, Msg raw from_peer) s"
  have "r_status ?t = Panicked \<and> l_names_poisoned ?t"
    using assms(1-9) p
    by (auto simp: l_receive_turn_def l_event_turn_def l_handle_received_def l_handle_announce_def l_set_name_def
        l_show_names_def Let_def split: option.split)
  then show ?thesis
    by (auto simp: Let_def l_receive_turn_def [of _ "(_, Neighbor_up _)"] l_event_turn_def [of _ _ "Neighbor_up _"] l_handle_neighbor_up_def)
qed

theorem announced_id_poisons_listener_witness:
  "l_names_poisoned (l_receive_turn demo_lcfg (demo_lenv, Msg ''A'' ''q'') (demo_lrecv {}))"
proof -
  have "sanitize_friendly_name ''x'' \<noteq> []" "16 < length demo_wide_id" "utf8_cont (demo_wide_id ! 16)"
    by code_simp+
  then show ?thesis
    using announced_id_poisons_listener [of "demo_lrecv {}" demo_lcfg "''A''" demo_wide_announce "''x''" demo_lenv "''q''"]
    by (simp add: demo_listener_defs demo_wide_announce_def announce_new_def Let_def)
qed

end
