(* ===== verification/Byte_Codecs.thy ===== *)
theory Byte_Codecs
  imports Rust_Strings
begin

text \<open>
  Fixed-width integers as byte strings, in both byte orders (\<^verbatim>\<open>to_be_bytes\<close>, \<^verbatim>\<open>to_le_bytes\<close> and their
  inverses), and \<^verbatim>\<open>split_at\<close> of a slice, which panics past the end. The catch-up protocol of the listener
  uses the big-endian order, the records of the DHT the little-endian one.
\<close>

section \<open>Big-endian integers\<close>

fun to_be :: "nat \<Rightarrow> nat \<Rightarrow> string" where
  "to_be 0 x = []"
| "to_be (Suc k) x = to_be k (x div 256) @ [char_of (x mod 256)]"

definition from_be :: "string \<Rightarrow> nat" where
  "from_be s = foldl (\<lambda>n c. 256 * n + byte c) 0 s"

definition read_be :: "nat \<Rightarrow> string \<Rightarrow> nat option" where
  "read_be k s = (if length s = k then Some (from_be s) else None)"

lemma length_to_be [simp]: "length (to_be k x) = k"
  by (induction k x rule: to_be.induct) simp_all

lemma from_be_to_be: "x < 256 ^ k \<Longrightarrow> from_be (to_be k x) = x"
proof (induction k x rule: to_be.induct)
  case (2 k x)
  then have "x div 256 < 256 ^ k" by (simp add: less_mult_imp_div_less mult.commute)
  with 2 have "from_be (to_be k (x div 256)) = x div 256" by simp
  then show ?case by (simp add: from_be_def byte_def of_char_of)
qed (simp add: from_be_def)

lemma from_be_append: "from_be (s @ [c]) = 256 * from_be s + byte c"
  by (simp add: from_be_def)

lemma from_be_less: "from_be s < 256 ^ length s"
proof (induction s rule: rev_induct)
  case (snoc c s)
  moreover have "byte c < 256" by (simp add: byte_def)
  ultimately show ?case by (simp add: from_be_append)
qed (simp add: from_be_def)

lemma to_be_from_be: "to_be (length s) (from_be s) = s"
proof (induction s rule: rev_induct)
  case (snoc c s)
  have "byte c < 256" by (simp add: byte_def)
  then have "(256 * from_be s + byte c) div 256 = from_be s" "(256 * from_be s + byte c) mod 256 = byte c" by simp_all
  with snoc show ?case by (simp add: from_be_append byte_def)
qed simp

interpretation be: codec "to_be k" "read_be k" "\<lambda>x. x < 256 ^ k" for k
  by unfold_locales (simp add: read_be_def from_be_to_be)

section \<open>Little-endian integers\<close>

definition to_le :: "nat \<Rightarrow> nat \<Rightarrow> string" where
  "to_le k x = rev (to_be k x)"

definition from_le :: "string \<Rightarrow> nat" where
  "from_le s = from_be (rev s)"

definition read_le :: "nat \<Rightarrow> string \<Rightarrow> nat option" where
  "read_le k s = (if length s = k then Some (from_le s) else None)"

lemma length_to_le [simp]: "length (to_le k x) = k"
  by (simp add: to_le_def)

lemma from_le_to_le: "x < 256 ^ k \<Longrightarrow> from_le (to_le k x) = x"
  by (simp add: from_le_def to_le_def from_be_to_be)

lemma from_le_less: "from_le s < 256 ^ length s"
  using from_be_less [of "rev s"] by (simp add: from_le_def)

lemma to_le_from_le: "to_le (length s) (from_le s) = s"
  using to_be_from_be [of "rev s"] by (simp add: from_le_def to_le_def)

interpretation le: codec "to_le k" "read_le k" "\<lambda>x. x < 256 ^ k" for k
  by unfold_locales (simp add: read_le_def from_le_to_le)

lemma from_le_u64: "(of_nat (from_le (to_le 8 (unat (m :: u64)))) :: u64) = m"
proof -
  have "unat m < 2 ^ 64" by (rule order_less_le_trans [OF unsigned_less]) simp
  then show ?thesis by (simp add: from_le_to_le)
qed

section \<open>Slices\<close>

definition split_at :: "nat \<Rightarrow> 'a list \<Rightarrow> ('a list \<times> 'a list) outcome" where
  "split_at n xs = (if n \<le> length xs then Ret (take n xs, drop n xs) else Panic)"

lemma split_at_append [simp]: "length xs = n \<Longrightarrow> split_at n (xs @ ys) = Ret (xs, ys)"
  by (auto simp: split_at_def)

lemma split_at_all [simp]: "length xs = n \<Longrightarrow> split_at n xs = Ret (xs, [])"
  by (simp add: split_at_def)

lemma split_at_Panic_iff [simp]: "split_at n xs = Panic \<longleftrightarrow> length xs < n"
  by (simp add: split_at_def)

lemma split_at_Ret_iff: "split_at n xs = Ret (a, b) \<longleftrightarrow> xs = a @ b \<and> length a = n"
  by (auto simp: split_at_def)

end
