(* ===== verification/Listener_Sync.thy ===== *)
theory Listener_Sync
  imports Listener_Receive Byte_Codecs
begin

text \<open>
  The archive-sync protocol of the listener: \<^verbatim>\<open>ArchiveSyncHandler\<close> answers an eight-byte timestamp with
  the archived payloads since then, each behind its length as four bytes, and \<^verbatim>\<open>run_catchup\<close> is the
  client. Streams are byte strings; a broken connection delivers a prefix. The length fields and the
  sequence of frames are interpretations of the \<open>codec\<close> interface of the prelude.
\<close>

section \<open>Frames\<close>

text \<open>The server's write loop; the length is cast to 32 bits.\<close>

definition write_frame :: "string \<Rightarrow> string" where
  "write_frame p = to_be 4 (length p mod 2 ^ 32) @ p"

definition write_frames :: "string list \<Rightarrow> string" where
  "write_frames ps = concat (map write_frame ps)"

definition MAX_FRAME :: nat where
  "MAX_FRAME = 10000000"

text \<open>The client's read loop: it ends at the end of the stream, at a length of zero or above the bound.\<close>

function read_frames :: "string \<Rightarrow> string list" where
  "read_frames s =
     (if length s < 4 then []
      else
        let len = from_be (take 4 s); rest = drop 4 s
        in if len = 0 \<or> MAX_FRAME < len then []
           else if length rest < len then []
           else take len rest # read_frames (drop len rest))"
  by pat_completeness auto
termination
  by (relation "measure length") auto

declare read_frames.simps [simp del]

definition frame_ok :: "string \<Rightarrow> bool" where
  "frame_ok p \<longleftrightarrow> p \<noteq> [] \<and> length p \<le> MAX_FRAME"

lemma frame_header:
  assumes "frame_ok p"
  shows "from_be (take 4 (write_frame p @ s)) = length p" and "drop 4 (write_frame p @ s) = p @ s"
proof -
  have "length p < 2 ^ 32" using assms by (simp add: frame_ok_def MAX_FRAME_def)
  then show "from_be (take 4 (write_frame p @ s)) = length p"
    by (simp add: write_frame_def from_be_to_be)
  show "drop 4 (write_frame p @ s) = p @ s" by (simp add: write_frame_def)
qed

lemma read_frame: "frame_ok p \<Longrightarrow> read_frames (write_frame p @ s) = p # read_frames s"
  using frame_header [of p s] by (subst read_frames.simps) (simp add: frame_ok_def write_frame_def Let_def)

lemma read_write_frames: "list_all frame_ok ps \<Longrightarrow> read_frames (write_frames ps) = ps"
  by (induction ps) (simp_all add: write_frames_def read_frame read_frames.simps [of "[]"])

interpretation frames: codec write_frames "\<lambda>s. Some (read_frames s)" "list_all frame_ok"
  by unfold_locales (simp add: read_write_frames)

lemma read_cut_frame:
  assumes "frame_ok p" and "n < length (write_frame p)"
  shows "read_frames (take n (write_frame p)) = []"
proof (cases "n < 4")
  case True
  then have "length (take n (write_frame p)) < 4" by simp
  then show ?thesis by (subst read_frames.simps) (simp only: if_True)
next
  case False
  let ?s = "take n (write_frame p)"
  have "take 4 ?s = take 4 (write_frame p)" using False by (simp add: min_def)
  then have h: "from_be (take 4 ?s) = length p" using frame_header(1) [OF assms(1), of "[]"] by simp
  have l: "length (drop 4 ?s) < length p" using assms(2) False by (simp add: write_frame_def)
  show ?thesis unfolding read_frames.simps [of ?s] Let_def h using l by (simp only: if_True) simp
qed

text \<open>A stream cut anywhere gives the payloads whose frames arrived whole.\<close>

lemma read_frames_prefix:
  "list_all frame_ok ps \<Longrightarrow> \<exists>k. read_frames (take n (write_frames ps)) = take k ps"
proof (induction ps arbitrary: n)
  case Nil
  then show ?case by (simp add: write_frames_def read_frames.simps [of "[]"])
next
  case (Cons p ps)
  show ?case
  proof (cases "n < length (write_frame p)")
    case True
    then have "take n (write_frames (p # ps)) = take n (write_frame p)" by (simp add: write_frames_def)
    with read_cut_frame [of p n] Cons.prems True have "read_frames (take n (write_frames (p # ps))) = take 0 (p # ps)"
      by simp
    then show ?thesis by blast
  next
    case False
    then have "take n (write_frames (p # ps)) = write_frame p @ take (n - length (write_frame p)) (write_frames ps)"
      by (simp add: write_frames_def)
    moreover obtain k where "read_frames (take (n - length (write_frame p)) (write_frames ps)) = take k ps"
      using Cons by auto
    ultimately have "read_frames (take n (write_frames (p # ps))) = take (Suc k) (p # ps)"
      using read_frame Cons.prems by simp
    then show ?thesis by blast
  qed
qed

section \<open>Server\<close>

definition SYNC_CAP :: nat where
  "SYNC_CAP = 50000"

text \<open>The bytes the handler writes for a request, or the error it returns.\<close>

definition sync_accept :: "bool \<Rightarrow> bool \<Rightarrow> archive \<Rightarrow> string \<Rightarrow> string + string" where
  "sync_accept query_ok poisoned a request =
     (if length request < 8 then Err ''read timestamp''
      else
        let since = of_nat (from_be (take 8 request))
        in if poisoned then Ok []
           else
             let payloads = (case messages_since query_ok since a of Inr ps \<Rightarrow> ps | Inl _ \<Rightarrow> []);
                 capped = (if SYNC_CAP < length payloads then take SYNC_CAP payloads else payloads)
             in Ok (write_frames capped))"

section \<open>Client\<close>

text \<open>The peer to ask: the first candidate that accepts, else the first neighbour that came up.\<close>

definition catchup_peer :: "('id \<Rightarrow> bool) \<Rightarrow> 'id list \<Rightarrow> 'id option \<Rightarrow> 'id option" where
  "catchup_peer connect candidates neighbor =
     (case find connect candidates of
        Some p \<Rightarrow> Some p
      | None \<Rightarrow> (case neighbor of Some p \<Rightarrow> if connect p then Some p else None | None \<Rightarrow> None))"

text \<open>One payload: the state, the count, and whether the task panicked.\<close>

definition catchup_payload :: "gossip_lib \<Rightarrow> l_env \<Rightarrow> string \<Rightarrow> 'id lrecv \<times> u64 \<Rightarrow> 'id lrecv \<times> u64 \<times> bool" where
  "catchup_payload L E payload sc =
     (case sc of (s, cnt) \<Rightarrow>
       (case parse_notification L payload of
          None \<Rightarrow> (s, cnt, False)
        | Some n \<Rightarrow>
            if r_trusted_poisoned s then (s, cnt, True)
            else if r_trusted s = {} \<or> n_sender n \<in> r_trusted s then
              (case slice_to (n_sender n) (min 8 (length (n_sender n))) of
                 Panic \<Rightarrow> (s, cnt, True)
               | Ret display \<Rightarrow>
                   let s1 = s\<lparr>l_sse := map_option (\<lambda>log. log @ [print_notification L n display]) (l_sse s)\<rparr>
                   in case l_db s1 of
                        None \<Rightarrow> (s1, cnt + 1, False)
                      | Some a \<Rightarrow>
                          if l_db_poisoned s1 then (s1, cnt, True)
                          else (case l_archive_store (li_hash E) (li_arch E)
                                       \<lparr>mm_sender = n_sender n, mm_medium = n_medium n, mm_reason = n_reason n,
                                        mm_timestamp = n_timestamp n, mm_iri_count = of_nat (length (n_iris n))\<rparr> payload a of
                                  (a', Ret _) \<Rightarrow> (s1\<lparr>l_db := Some a'\<rparr>, cnt + 1, False)
                                | (a', Panic) \<Rightarrow> (s1\<lparr>l_db := Some a', l_db_poisoned := True\<rparr>, cnt, True)))
            else (s, cnt, False)))"

fun catchup_loop :: "gossip_lib \<Rightarrow> (nat \<Rightarrow> l_env) \<Rightarrow> nat \<Rightarrow> string list \<Rightarrow> 'id lrecv \<times> u64 \<Rightarrow> 'id lrecv \<times> u64 \<times> bool" where
  "catchup_loop L E i [] sc = (fst sc, snd sc, False)"
| "catchup_loop L E i (p # ps) sc =
     (case catchup_payload L (E i) p sc of
        (s, cnt, True) \<Rightarrow> (s, cnt, True)
      | (s, cnt, False) \<Rightarrow> catchup_loop L E (Suc i) ps (s, cnt))"

text \<open>
  The whole client. The environment gives the peers that accept a connection, the first neighbour, the
  outcome of opening the stream and sending the request, and the bytes a peer sends for a request.
\<close>

record 'id catchup_env =
  cu_connect :: "'id \<Rightarrow> bool"
  cu_neighbor :: "'id option"
  cu_open_ok :: bool
  cu_write_ok :: bool
  cu_serve :: "'id \<Rightarrow> string \<Rightarrow> string"
  cu_env :: "nat \<Rightarrow> l_env"
  cu_now :: u64

definition run_catchup :: "'id recv_cfg \<Rightarrow> 'id catchup_env \<Rightarrow> u64 \<Rightarrow> string \<Rightarrow> 'id lrecv \<Rightarrow> 'id lrecv \<times> u64 option" where
  "run_catchup C U since bootstrap s =
     (let candidates = add_missing (parse_bootstrap (rf_parse_id C) bootstrap) (l_load_known_peers (rf_parse_id C) (r_peers_file s))
      in case catchup_peer (cu_connect U) candidates (cu_neighbor U) of
           None \<Rightarrow> (s, None)
         | Some peer \<Rightarrow>
             if \<not> cu_open_ok U \<or> \<not> cu_write_ok U then (s, None)
             else (case catchup_loop (rf_lib C) (cu_env U) 0 (read_frames (cu_serve U peer (to_be 8 (unat since)))) (s, 0) of
                     (s', cnt, True) \<Rightarrow> (s', None)
                   | (s', cnt, False) \<Rightarrow> (s'\<lparr>r_ctl := (r_ctl s')\<lparr>c_last_notif := cu_now U\<rparr>\<rparr>, Some cnt)))"

section \<open>Lemmas on the client\<close>

lemma l_store_get:
  assumes "ae_clock E = Some now" and "ae_messages_ok E" and "ae_manifest_ok E"
  shows "\<exists>a' r. l_archive_store h E m p a = (a', Ret r)
    \<and> archive_get a' k = (if archive_get a k = None \<and> k = h p then Some p else archive_get a k)"
proof -
  have "E = \<lparr>ae_clock = Some now, ae_messages_ok = True, ae_manifest_ok = True\<rparr>" using assms by (cases E) simp
  then have "fst (l_archive_store h E m p a) = put_at h now m a p" by (simp add: put_at_def l_archive_store_eq)
  moreover have "snd (l_archive_store h E m p a) = Ret (Ok (archive_get a (h p) = None))"
    using store_result(1) [OF assms] by (simp add: l_archive_store_eq)
  ultimately show ?thesis using arch.get_put [of h now m a p k] by (metis prod.collapse)
qed

definition acceptable :: "gossip_lib \<Rightarrow> string set \<Rightarrow> string \<Rightarrow> bool" where
  "acceptable L T p \<longleftrightarrow>
     (case parse_notification L p of
        Some n \<Rightarrow> (T = {} \<or> n_sender n \<in> T) \<and> ascii_str (n_sender n)
      | None \<Rightarrow> False)"

definition store_works :: "(string \<Rightarrow> string) \<Rightarrow> l_env \<Rightarrow> bool" where
  "store_works h E \<longleftrightarrow> li_hash E = h \<and> ae_clock (li_arch E) \<noteq> None \<and> ae_messages_ok (li_arch E) \<and> ae_manifest_ok (li_arch E)"

lemma catchup_payload_ok:
  assumes "acceptable L (r_trusted s) p" and "store_works h E" and "\<not> r_trusted_poisoned s" and "\<not> l_db_poisoned s"
    and "l_db s = Some a"
  shows "\<exists>s' a'. catchup_payload L E p (s, c) = (s', c + 1, False) \<and> l_db s' = Some a'
    \<and> r_trusted s' = r_trusted s \<and> \<not> r_trusted_poisoned s' \<and> \<not> l_db_poisoned s' \<and> r_ctl s' = r_ctl s
    \<and> (\<forall>k. archive_get a' k = (if archive_get a k = None \<and> k = h p then Some p else archive_get a k))"
proof -
  obtain n where n: "parse_notification L p = Some n" "r_trusted s = {} \<or> n_sender n \<in> r_trusted s" "ascii_str (n_sender n)"
    using assms(1) by (auto simp: acceptable_def split: option.splits)
  let ?m = "\<lparr>mm_sender = n_sender n, mm_medium = n_medium n, mm_reason = n_reason n,
    mm_timestamp = n_timestamp n, mm_iri_count = of_nat (length (n_iris n))\<rparr>"
  obtain now where e: "ae_clock (li_arch E) = Some now" "ae_messages_ok (li_arch E)" "ae_manifest_ok (li_arch E)" "li_hash E = h"
    using assms(2) by (auto simp: store_works_def)
  obtain a' r where st: "l_archive_store h (li_arch E) ?m p a = (a', Ret r)" by (metis l_store_get [OF e(1-3)])
  then have g: "archive_get a' k = (if archive_get a k = None \<and> k = h p then Some p else archive_get a k)" for k
    using l_store_get [OF e(1-3), of h ?m p a k] by auto
  have "slice_to (n_sender n) (min 8 (length (n_sender n))) = Ret (take (min 8 (length (n_sender n))) (n_sender n))"
    using n(3) by (simp add: slice_to_ascii)
  then show ?thesis
    using n(1,2) e(4) st g assms(3-5) by (auto simp: catchup_payload_def Let_def)
qed

lemma catchup_loop_ok:
  assumes "list_all (acceptable L (r_trusted s)) ps" and "\<And>i. store_works h (E i)" and "\<not> r_trusted_poisoned s"
    and "\<not> l_db_poisoned s" and "l_db s = Some a"
  shows "\<exists>s' a'. catchup_loop L E i ps (s, c) = (s', c + of_nat (length ps), False) \<and> l_db s' = Some a'
    \<and> (\<forall>k. archive_get a' k = (case archive_get a k of Some q \<Rightarrow> Some q | None \<Rightarrow> find (\<lambda>p. h p = k) ps))"
  using assms
proof (induction ps arbitrary: s a i c)
  case (Cons p ps)
  obtain s1 a1 where 1: "catchup_payload L (E i) p (s, c) = (s1, c + 1, False)" "l_db s1 = Some a1"
    "r_trusted s1 = r_trusted s" "\<not> r_trusted_poisoned s1" "\<not> l_db_poisoned s1"
    "\<And>k. archive_get a1 k = (if archive_get a k = None \<and> k = h p then Some p else archive_get a k)"
    using catchup_payload_ok [of L s p h "E i" a c] Cons.prems by auto
  obtain s' a' where 2: "catchup_loop L E (Suc i) ps (s1, c + 1) = (s', c + 1 + of_nat (length ps), False)"
    "l_db s' = Some a'"
    "\<And>k. archive_get a' k = (case archive_get a1 k of Some q \<Rightarrow> Some q | None \<Rightarrow> find (\<lambda>p. h p = k) ps)"
    using Cons.IH [of s1 a1 "Suc i" "c + 1"] Cons.prems 1 by auto
  have "archive_get a' k = (case archive_get a k of Some q \<Rightarrow> Some q | None \<Rightarrow> find (\<lambda>p. h p = k) (p # ps))" for k
    by (auto simp: 2(3) 1(6) split: option.split)
  with 1(1) 2(1,2) show ?case by (auto simp: add.assoc)
qed (auto split: option.split)

text \<open>What a client reads from the server for its request.\<close>

lemma served_frames:
  assumes "messages_since True since b = Ok ps" and "length ps \<le> SYNC_CAP" and "list_all frame_ok ps"
  shows "read_frames (case sync_accept True False b (to_be 8 (unat since)) of Inr bytes \<Rightarrow> bytes | Inl _ \<Rightarrow> []) = ps"
proof -
  have "unat since < 2 ^ 64" by (rule order_less_le_trans [OF unsigned_less]) simp
  then have "unat since < 256 ^ 8" by simp
  then have "sync_accept True False b (to_be 8 (unat since)) = Ok (write_frames ps)"
    using assms(1,2) by (simp add: sync_accept_def from_be_to_be Let_def)
  then show ?thesis using assms(3) by (simp add: read_write_frames)
qed

lemma find_inj: "inj_on h (set ps) \<Longrightarrow> p \<in> set ps \<Longrightarrow> find (\<lambda>q. h q = h p) ps = Some p"
  by (induction ps) (auto simp: inj_on_def)

section \<open>Properties\<close>

text \<open>C28. Framing: the client reads back exactly the payloads the server framed, and from a stream that is
  cut anywhere exactly a prefix of them, as long as each is non-empty and at most ten million bytes.\<close>

theorem frames_survive_truncation:
  assumes "list_all frame_ok ps"
  shows "read_frames (write_frames ps) = ps \<and> (\<exists>k. read_frames (take n (write_frames ps)) = take k ps)"
  using assms frames.dec_enc [of ps] read_frames_prefix [of ps n] by simp

theorem frames_survive_truncation_witness: "read_frames (write_frames [''ab'', ''c'']) = [''ab'', ''c'']"
  using frames_survive_truncation [of "[''ab'', ''c'']" 0] by (simp add: frame_ok_def MAX_FRAME_def)

text \<open>C7. Catch-up, end to end: a listener that runs the catch-up against a peer serving its archive ends up
  with every payload the peer archived since the requested time, under its hash, and counts them,
  provided they are within the caps, come from accepted senders and do not collide with what it has.\<close>

theorem catchup_transfers_archive:
  assumes "messages_since True since b = Ok ps" and "length ps \<le> SYNC_CAP" and "list_all frame_ok ps"
    and "\<And>q. cu_serve U peer q = (case sync_accept True False b q of Inr bytes \<Rightarrow> bytes | Inl _ \<Rightarrow> [])"
    and "catchup_peer (cu_connect U) (bootstrap_peers (rf_parse_id C) boot (r_peers_file s)) (cu_neighbor U) = Some peer"
    and "cu_open_ok U" and "cu_write_ok U"
    and "list_all (acceptable (rf_lib C) (r_trusted s)) ps" and "\<And>i. store_works h (cu_env U i)"
    and "\<not> r_trusted_poisoned s" and "\<not> l_db_poisoned s" and "l_db s = Some a"
    and "inj_on h (set ps)" and "\<And>p. p \<in> set ps \<Longrightarrow> archive_get a (h p) \<in> {None, Some p}"
  shows "\<exists>s' a'. run_catchup C U since boot s = (s', Some (of_nat (length ps))) \<and> l_db s' = Some a'
    \<and> (\<forall>p \<in> set ps. archive_get a' (h p) = Some p) \<and> c_last_notif (r_ctl s') = cu_now U"
proof -
  have r: "read_frames (cu_serve U peer (to_be 8 (unat since))) = ps"
    using served_frames [OF assms(1-3)] assms(4) by simp
  obtain s' a' where l: "catchup_loop (rf_lib C) (cu_env U) 0 ps (s, 0) = (s', of_nat (length ps), False)" "l_db s' = Some a'"
    "\<And>k. archive_get a' k = (case archive_get a k of Some q \<Rightarrow> Some q | None \<Rightarrow> find (\<lambda>p. h p = k) ps)"
    using catchup_loop_ok [of "rf_lib C" s ps h "cu_env U" a 0 0] assms(8-12) by auto
  have "archive_get a' (h p) = Some p" if "p \<in> set ps" for p
    using assms(13) assms(14) [OF that] find_inj [of h ps p] that by (auto simp: l(3))
  with r l(1,2) assms(5-7) show ?thesis
    by (simp add: run_catchup_def bootstrap_peers_def copies_agree Let_def)
qed

definition demo_cu :: "archive \<Rightarrow> string catchup_env" where
  "demo_cu b = \<lparr>cu_connect = (\<lambda>_. True), cu_neighbor = None, cu_open_ok = True, cu_write_ok = True,
     cu_serve = (\<lambda>peer q. case sync_accept True False b q of Inr bytes \<Rightarrow> bytes | Inl _ \<Rightarrow> []),
     cu_env = (\<lambda>_. demo_lenv), cu_now = 77\<rparr>"

definition demo_served :: archive where
  "demo_served = \<lparr>messages = [\<lparr>mr_hash = ''m'', mr_payload = ''m'', mr_created_at = 50\<rparr>], manifest = []\<rparr>"

theorem catchup_transfers_archive_witness:
  "\<exists>s' a'. run_catchup (demo_lcfg\<lparr>rf_parse_id := Some\<rparr>) (demo_cu demo_served) 9 ''peer'' (demo_lrecv {}) = (s', Some 1)
     \<and> l_db s' = Some a' \<and> archive_get a' ''m'' = Some ''m''"
proof -
  let ?C = "demo_lcfg\<lparr>rf_parse_id := Some\<rparr>" and ?s = "demo_lrecv {}"
  have b: "parse_bootstrap Some ''peer'' = [''peer'']" by code_simp
  have "messages_since True 9 demo_served = Ok [''m'']" by (simp add: messages_since_def demo_served_def)
  moreover have "catchup_peer (cu_connect (demo_cu demo_served)) (bootstrap_peers (rf_parse_id ?C) ''peer'' (r_peers_file ?s))
      (cu_neighbor (demo_cu demo_served)) = Some ''peer''"
    by (simp add: catchup_peer_def demo_cu_def demo_lrecv_def bootstrap_peers_def b load_known_peers_def)
  moreover have "list_all (acceptable (rf_lib ?C) (r_trusted ?s)) [''m'']"
  proof -
    have "ascii_str ''abc''" by code_simp
    then show ?thesis by (simp add: acceptable_def demo_listener_defs)
  qed
  moreover have "store_works (\<lambda>x. x) (cu_env (demo_cu demo_served) i)" for i
    by (simp add: store_works_def demo_cu_def demo_lenv_def)
  ultimately have "\<exists>s' a'. run_catchup ?C (demo_cu demo_served) 9 ''peer'' ?s = (s', Some (of_nat (length [''m''])))
      \<and> l_db s' = Some a' \<and> (\<forall>p \<in> set [''m'']. archive_get a' p = Some p) \<and> c_last_notif (r_ctl s') = cu_now (demo_cu demo_served)"
    by (intro catchup_transfers_archive [where h = "\<lambda>x. x" and a = "\<lparr>messages = [], manifest = []\<rparr>"])
      (simp_all add: SYNC_CAP_def frame_ok_def MAX_FRAME_def demo_cu_def demo_lrecv_def archive_get_def)
  then show ?thesis by auto
qed

end
