(* ===== verification/Dht_Records.thy ===== *)
theory Dht_Records
  imports Byte_Codecs
begin

text \<open>
  The signed and encrypted bootstrap records of the topic tracker (\<^verbatim>\<open>dtt-fork/src/crypto\<close>,
  \<^verbatim>\<open>dtt-fork/src/lib.rs\<close>): key derivation per topic and minute, the wire formats of \<^verbatim>\<open>Record\<close> and
  \<^verbatim>\<open>EncryptedRecord\<close>, signing and verification, and the publisher's \<^verbatim>\<open>get_records\<close> and \<^verbatim>\<open>publish_record\<close>.
  Byte arrays are byte strings. Hashing, Ed25519, HPKE and postcard are the record \<open>dht_lib\<close>; the random
  choices of an encryption are arguments. The DHT client (\<^verbatim>\<open>dtt-fork/src/dht.rs\<close>) is modelled with its
  retries, over the answers of the network.
\<close>

section \<open>Libraries\<close>

record 'c dht_lib =
  sha512 :: "string \<Rightarrow> string"
  sk_public :: "string \<Rightarrow> string"
  sk_sign :: "string \<Rightarrow> string \<Rightarrow> string"
  vk_ok :: "string \<Rightarrow> bool"
  vk_verify :: "string \<Rightarrow> string \<Rightarrow> string \<Rightarrow> bool"
  hpke_encrypt :: "nat \<Rightarrow> string \<Rightarrow> string \<Rightarrow> string option"
  hpke_decrypt :: "string \<Rightarrow> string \<Rightarrow> string option"
  pc_encode :: "'c \<Rightarrow> string option"
  pc_decode :: "string \<Rightarrow> 'c option"

text \<open>What is relied on: a 64-byte digest, signatures and ciphertexts of a key that verify and decrypt,
  and the round trip of postcard.\<close>

definition dht_lib_ok :: "'c dht_lib \<Rightarrow> bool" where
  "dht_lib_ok L \<longleftrightarrow>
     (\<forall>m. length (sha512 L m) = 64)
   \<and> (\<forall>k. length k = 32 \<longrightarrow> length (sk_public L k) = 32 \<and> vk_ok L (sk_public L k))
   \<and> (\<forall>k m. length k = 32 \<longrightarrow> length (sk_sign L k m) = 64 \<and> vk_verify L (sk_public L k) m (sk_sign L k m))
   \<and> (\<forall>k r m c. length k = 32 \<longrightarrow> hpke_encrypt L r (sk_public L k) m = Some c \<longrightarrow> hpke_decrypt L k c = Some m)
   \<and> (\<forall>c b. pc_encode L c = Some b \<longrightarrow> pc_decode L b = Some c)"

section \<open>Keys\<close>

definition hash32 :: "'c dht_lib \<Rightarrow> string \<Rightarrow> string" where
  "hash32 L m = take 32 (sha512 L m)"

definition u64_le :: "u64 \<Rightarrow> string" where
  "u64_le m = to_le 8 (unat m)"

definition u64_be :: "u64 \<Rightarrow> string" where
  "u64_be m = to_be 8 (unat m)"

definition record_topic_from_str :: "'c dht_lib \<Rightarrow> string \<Rightarrow> string" where
  "record_topic_from_str L s = hash32 L s"

definition topic_id_new :: "'c dht_lib \<Rightarrow> string \<Rightarrow> string \<times> string" where
  "topic_id_new L raw = (raw, hash32 L raw)"

type_synonym rotation = "string \<Rightarrow> u64 \<Rightarrow> string \<Rightarrow> string"

definition default_derive :: "'c dht_lib \<Rightarrow> rotation" where
  "default_derive L topic_hash unix_minute initial_secret_hash =
     hash32 L (topic_hash @ u64_be unix_minute @ initial_secret_hash)"

definition signing_keypair :: "'c dht_lib \<Rightarrow> string \<Rightarrow> u64 \<Rightarrow> string" where
  "signing_keypair L topic unix_minute = hash32 L (topic @ u64_le unix_minute)"

definition encryption_keypair :: "rotation \<Rightarrow> string \<Rightarrow> string \<Rightarrow> u64 \<Rightarrow> string" where
  "encryption_keypair derive topic initial_secret_hash unix_minute = derive topic unix_minute initial_secret_hash"

definition salt :: "'c dht_lib \<Rightarrow> string \<Rightarrow> u64 \<Rightarrow> string" where
  "salt L topic unix_minute = hash32 L (topic @ u64_le unix_minute)"

definition MAX_BOOTSTRAP_RECORDS :: nat where
  "MAX_BOOTSTRAP_RECORDS = 100"

text \<open>\<open>now\<close> is the clock in seconds; the floating-point quotient has an exact floor for every clock
  below \<open>2 ^ 46\<close>. The cast to 64 bits wraps.\<close>

definition unix_minute :: "int \<Rightarrow> int \<Rightarrow> u64" where
  "unix_minute now minute_offset = word_of_int (now div 60 + minute_offset)"

section \<open>Records\<close>

record d_record =
  d_topic :: string
  d_unix_minute :: u64
  d_pub_key :: string
  d_content :: string
  d_signature :: string

record encrypted_record =
  e_record :: string
  e_decryption_key :: string

definition signature_data :: "string \<Rightarrow> u64 \<Rightarrow> string \<Rightarrow> string \<Rightarrow> string" where
  "signature_data topic m node_id content = topic @ u64_le m @ node_id @ content"

definition record_sign :: "'c dht_lib \<Rightarrow> string \<Rightarrow> u64 \<Rightarrow> string \<Rightarrow> 'c \<Rightarrow> string \<Rightarrow> d_record option" where
  "record_sign L topic m node_id c k =
     (case pc_encode L c of
        None \<Rightarrow> None
      | Some content \<Rightarrow>
          Some \<lparr>d_topic = topic, d_unix_minute = m, d_pub_key = node_id, d_content = content,
                d_signature = sk_sign L k (signature_data topic m node_id content)\<rparr>)"

definition record_to_bytes :: "d_record \<Rightarrow> string" where
  "record_to_bytes r = d_topic r @ u64_le (d_unix_minute r) @ d_pub_key r @ d_content r @ d_signature r"

text \<open>The subtraction from the length wraps in a release build and the split then panics, as the
  subtraction itself does in a debug build.\<close>

definition record_from_bytes :: "string \<Rightarrow> (string + d_record) outcome" where
  "record_from_bytes buf =
     bind_outcome (split_at 32 buf) (\<lambda>(topic, buf).
     bind_outcome (split_at 8 buf) (\<lambda>(minute, buf).
     bind_outcome (split_at 32 buf) (\<lambda>(node_id, buf).
     bind_outcome (if length buf < 64 then Panic else split_at (length buf - 64) buf) (\<lambda>(content, buf).
     bind_outcome (split_at 64 buf) (\<lambda>(signature, buf).
       if buf \<noteq> [] then Ret (Err ''buffer not empty after reconstruction'')
       else Ret (Ok \<lparr>d_topic = topic, d_unix_minute = of_nat (from_le minute), d_pub_key = node_id,
                     d_content = content, d_signature = signature\<rparr>))))))"

definition record_verify :: "'c dht_lib \<Rightarrow> string \<Rightarrow> u64 \<Rightarrow> d_record \<Rightarrow> string + unit" where
  "record_verify L actual_topic actual_unix_minute r =
     (if d_topic r \<noteq> actual_topic then Err ''topic mismatch''
      else if d_unix_minute r \<noteq> actual_unix_minute then Err ''unix minute mismatch''
      else
        let record_bytes = record_to_bytes r; data = take (length record_bytes - 64) record_bytes
        in if \<not> vk_ok L (d_pub_key r) then Err ''invalid key''
           else if \<not> vk_verify L (d_pub_key r) data (d_signature r) then Err ''invalid signature''
           else Ok ())"

definition encrypted_to_bytes :: "encrypted_record \<Rightarrow> string" where
  "encrypted_to_bytes e = to_le 4 (length (e_record e) mod 2 ^ 32) @ e_record e @ e_decryption_key e"

definition encrypted_from_bytes :: "string \<Rightarrow> encrypted_record outcome" where
  "encrypted_from_bytes buf =
     bind_outcome (split_at 4 buf) (\<lambda>(len, buf).
     bind_outcome (split_at (from_le len) buf) (\<lambda>(rec, key).
       Ret \<lparr>e_record = rec, e_decryption_key = key\<rparr>))"

text \<open>The one-time key and the randomness of the two encryptions are arguments.\<close>

definition record_encrypt :: "'c dht_lib \<Rightarrow> string \<Rightarrow> nat \<Rightarrow> nat \<Rightarrow> string \<Rightarrow> d_record \<Rightarrow> encrypted_record outcome" where
  "record_encrypt L one_time_key r1 r2 encryption_key r =
     bind_outcome (unwrap (hpke_encrypt L r1 (sk_public L one_time_key) (record_to_bytes r))) (\<lambda>data_enc.
     bind_outcome (unwrap (hpke_encrypt L r2 (sk_public L encryption_key) one_time_key)) (\<lambda>key_enc.
       Ret \<lparr>e_record = data_enc, e_decryption_key = key_enc\<rparr>))"

definition encrypted_decrypt :: "'c dht_lib \<Rightarrow> string \<Rightarrow> encrypted_record \<Rightarrow> (string + d_record) outcome" where
  "encrypted_decrypt L decryption_key e =
     (case hpke_decrypt L decryption_key (e_decryption_key e) of
        None \<Rightarrow> Ret (Err ''decrypt key'')
      | Some one_time_key \<Rightarrow>
          if length one_time_key \<noteq> 32 then Ret (Err ''key length'')
          else (case hpke_decrypt L one_time_key (e_record e) of
                  None \<Rightarrow> Ret (Err ''decrypt record'')
                | Some bytes \<Rightarrow> record_from_bytes bytes))"

definition record_content :: "'c dht_lib \<Rightarrow> d_record \<Rightarrow> 'c option" where
  "record_content L r = pc_decode L (d_content r)"

section \<open>The DHT client\<close>

text \<open>The answers of the network to the i-th attempt: the most recent item (\<open>None\<close> a timeout), whether
  the put succeeded, and whether a new client could be built.\<close>

record put_env =
  pe_init_ok :: bool
  pe_most_recent :: "nat \<Rightarrow> u64 option option"
  pe_put :: "nat \<Rightarrow> bool"
  pe_reset :: "nat \<Rightarrow> bool"

record mutable_item =
  mi_key :: string
  mi_salt :: string
  mi_value :: string
  mi_seq :: u64

definition RETRY_DEFAULT :: nat where
  "RETRY_DEFAULT = 3"

text \<open>The result is the list of items put, the last of them accepted when the result is \<open>Ok\<close>.\<close>

function put_loop :: "put_env \<Rightarrow> (u64 \<Rightarrow> mutable_item) \<Rightarrow> nat \<Rightarrow> nat \<Rightarrow> mutable_item list \<times> (string + unit)" where
  "put_loop E mk n i =
     (if n \<le> i then ([], Ok ())
      else case pe_most_recent E i of
             None \<Rightarrow> ([], Err ''timeout'')
           | Some recent \<Rightarrow>
               let item = mk (case recent of Some q \<Rightarrow> q + 1 | None \<Rightarrow> 0)
               in if pe_put E i then ([item], Ok ())
                  else if i = n - 1 then ([item], Err ''failed to publish record'')
                  else if \<not> pe_reset E i then ([item], Err ''reset'')
                  else case put_loop E mk n (Suc i) of (items, res) \<Rightarrow> (item # items, res))"
  by pat_completeness auto
termination
  by (relation "measure (\<lambda>(E, mk, n, i). n - i)") auto

declare put_loop.simps [simp del]

definition put_mutable :: "'c dht_lib \<Rightarrow> put_env \<Rightarrow> bool \<Rightarrow> string \<Rightarrow> string \<Rightarrow> string \<Rightarrow> nat option
    \<Rightarrow> mutable_item list \<times> (string + unit)" where
  "put_mutable L E up k slt data retry_count =
     (if \<not> up \<and> \<not> pe_init_ok E then ([], Err ''reset'')
      else put_loop E (\<lambda>q. \<lparr>mi_key = sk_public L k, mi_salt = slt, mi_value = data, mi_seq = q\<rparr>)
             (case retry_count of Some n \<Rightarrow> n | None \<Rightarrow> RETRY_DEFAULT) 0)"

section \<open>The record publisher\<close>

record record_publisher =
  rp_topic :: string
  rp_pub_key :: string
  rp_signing_key :: string
  rp_rotation :: "rotation option"
  rp_initial_secret_hash :: string

text \<open>The topic that the three gossip programs name.\<close>

definition TOPIC_STRING :: string where
  "TOPIC_STRING = ''gossipping/v1/all''"

definition record_publisher_new :: "'c dht_lib \<Rightarrow> string \<Rightarrow> string \<Rightarrow> string \<Rightarrow> rotation option \<Rightarrow> string \<Rightarrow> record_publisher" where
  "record_publisher_new L topic pub_key signing_key rot initial_secret =
     \<lparr>rp_topic = topic, rp_pub_key = pub_key, rp_signing_key = signing_key, rp_rotation = rot,
      rp_initial_secret_hash = hash32 L initial_secret\<rparr>"

definition new_record :: "'c dht_lib \<Rightarrow> record_publisher \<Rightarrow> u64 \<Rightarrow> 'c \<Rightarrow> d_record option" where
  "new_record L P m c = record_sign L (rp_topic P) m (rp_pub_key P) c (rp_signing_key P)"

definition rp_encryption_key :: "'c dht_lib \<Rightarrow> record_publisher \<Rightarrow> u64 \<Rightarrow> string" where
  "rp_encryption_key L P m =
     encryption_keypair (case rp_rotation P of Some d \<Rightarrow> d | None \<Rightarrow> default_derive L) (rp_topic P)
       (rp_initial_secret_hash P) m"

definition verified_record :: "'c dht_lib \<Rightarrow> record_publisher \<Rightarrow> u64 \<Rightarrow> string \<Rightarrow> d_record option outcome" where
  "verified_record L P m raw =
     bind_outcome (encrypted_from_bytes raw) (\<lambda>e.
     bind_outcome (encrypted_decrypt L (rp_encryption_key L P m) e) (\<lambda>res.
       case res of
         Inl _ \<Rightarrow> Ret None
       | Inr r \<Rightarrow>
           (case record_verify L (rp_topic P) m r of
              Inl _ \<Rightarrow> Ret None
            | Inr _ \<Rightarrow> if d_pub_key r = rp_pub_key P then Ret None else Ret (Some r))))"

text \<open>\<open>answer\<close> is what the DHT returned for the key and the salt of the minute; a failed lookup is empty.\<close>

type_synonym dht_answer = "string \<Rightarrow> string \<Rightarrow> string + string list"

definition get_records :: "'c dht_lib \<Rightarrow> record_publisher \<Rightarrow> dht_answer \<Rightarrow> u64 \<Rightarrow> d_record set outcome" where
  "get_records L P answer m =
     (let raws = (case answer (sk_public L (signing_keypair L (rp_topic P) m)) (salt L (rp_topic P) m) of
                    Inr rs \<Rightarrow> rs | Inl _ \<Rightarrow> [])
      in bind_outcome (mapM_outcome (verified_record L P m) raws) (\<lambda>os. Ret (set (List.map_filter id os))))"

record publish_env =
  pu_answer :: dht_answer
  pu_put :: put_env
  pu_up :: bool
  pu_one_time_key :: string
  pu_rand1 :: nat
  pu_rand2 :: nat

definition publish_record :: "'c dht_lib \<Rightarrow> record_publisher \<Rightarrow> publish_env \<Rightarrow> d_record
    \<Rightarrow> (mutable_item list \<times> (string + unit)) outcome" where
  "publish_record L P E r =
     bind_outcome (get_records L P (pu_answer E) (d_unix_minute r)) (\<lambda>records.
       if MAX_BOOTSTRAP_RECORDS \<le> card records then Ret ([], Ok ())
       else
         bind_outcome (record_encrypt L (pu_one_time_key E) (pu_rand1 E) (pu_rand2 E)
             (rp_encryption_key L P (d_unix_minute r)) r) (\<lambda>e.
           Ret (put_mutable L (pu_put E) (pu_up E) (signing_keypair L (rp_topic P) (d_unix_minute r))
             (salt L (rp_topic P) (d_unix_minute r)) (encrypted_to_bytes e) (Some 3))))"

section \<open>Wire formats\<close>

definition record_wf :: "d_record \<Rightarrow> bool" where
  "record_wf r \<longleftrightarrow> length (d_topic r) = 32 \<and> length (d_pub_key r) = 32 \<and> length (d_signature r) = 64"

lemma length_u64_le [simp]: "length (u64_le m) = 8"
  by (simp add: u64_le_def)

lemma u64_le_inverse [simp]: "of_nat (from_le (u64_le m)) = m"
  by (simp add: u64_le_def from_le_u64)

lemma record_from_to_bytes:
  assumes "record_wf r"
  shows "record_from_bytes (record_to_bytes r) = Ret (Ok r)"
  using assms by (simp add: record_wf_def record_from_bytes_def record_to_bytes_def)

lemma record_from_bytes_Panic: "record_from_bytes b = Panic \<longleftrightarrow> length b < 136"
  by (auto simp: record_from_bytes_def bind_outcome_Panic_iff split_at_def split: if_splits)

lemma record_to_from_bytes:
  assumes "record_from_bytes b = Ret (Ok r)"
  shows "record_wf r \<and> record_to_bytes r = b"
proof -
  from assms obtain t mi k c sg where b: "b = t @ mi @ k @ c @ sg" "length t = 32" "length mi = 8" "length k = 32" "length sg = 64"
    "r = \<lparr>d_topic = t, d_unix_minute = of_nat (from_le mi), d_pub_key = k, d_content = c, d_signature = sg\<rparr>"
    by (auto simp: record_from_bytes_def bind_outcome_Ret_iff split_at_Ret_iff split: if_splits)
  have "u64_le (of_nat (from_le mi)) = mi"
    using b(3) from_le_less [of mi] to_le_from_le [of mi] by (simp add: u64_le_def unat_of_nat)
  with b show ?thesis by (simp add: record_wf_def record_to_bytes_def)
qed

definition record_decode :: "string \<Rightarrow> d_record option" where
  "record_decode b = (case record_from_bytes b of Ret (Inr r) \<Rightarrow> Some r | _ \<Rightarrow> None)"

interpretation rec_codec: codec record_to_bytes record_decode record_wf
  by unfold_locales (simp add: record_decode_def record_from_to_bytes)

lemma encrypted_from_to_bytes:
  assumes "length (e_record e) < 2 ^ 32"
  shows "encrypted_from_bytes (encrypted_to_bytes e) = Ret e"
  using assms by (simp add: encrypted_from_bytes_def encrypted_to_bytes_def from_le_to_le)

lemma encrypted_from_bytes_Panic:
  "encrypted_from_bytes b = Panic \<longleftrightarrow> length b < 4 \<or> length b - 4 < from_le (take 4 b)"
  by (auto simp: encrypted_from_bytes_def bind_outcome_Panic_iff split_at_def split: if_splits)

definition encrypted_decode :: "string \<Rightarrow> encrypted_record option" where
  "encrypted_decode b = (case encrypted_from_bytes b of Ret e \<Rightarrow> Some e | Panic \<Rightarrow> None)"

interpretation enc_codec: codec encrypted_to_bytes encrypted_decode "\<lambda>e. length (e_record e) < 2 ^ 32"
  by unfold_locales (simp add: encrypted_decode_def encrypted_from_to_bytes)

section \<open>Signatures and encryption\<close>

lemma hash32_length: "dht_lib_ok L \<Longrightarrow> length (hash32 L m) = 32"
  by (simp add: dht_lib_ok_def hash32_def)

lemma record_signed_bytes: "record_wf r \<Longrightarrow> take (length (record_to_bytes r) - 64) (record_to_bytes r)
    = signature_data (d_topic r) (d_unix_minute r) (d_pub_key r) (d_content r)"
  by (simp add: record_wf_def record_to_bytes_def signature_data_def)

lemma record_verify_Ok:
  assumes "record_wf r"
  shows "record_verify L topic m r = Ok u \<longleftrightarrow> d_topic r = topic \<and> d_unix_minute r = m \<and> vk_ok L (d_pub_key r)
    \<and> vk_verify L (d_pub_key r) (signature_data topic m (d_pub_key r) (d_content r)) (d_signature r)"
  using assms by (auto simp: record_verify_def record_signed_bytes Let_def)

lemma new_record_verifies:
  assumes "dht_lib_ok L" and "new_record L P m c = Some r" and "length (rp_topic P) = 32"
    and "length (rp_signing_key P) = 32" and "rp_pub_key P = sk_public L (rp_signing_key P)"
  shows "record_wf r \<and> record_verify L (rp_topic P) m r = Ok () \<and> record_content L r = Some c
    \<and> d_unix_minute r = m \<and> d_pub_key r = rp_pub_key P"
proof -
  from assms(2) obtain content where c: "pc_encode L c = Some content"
    "r = \<lparr>d_topic = rp_topic P, d_unix_minute = m, d_pub_key = rp_pub_key P, d_content = content,
          d_signature = sk_sign L (rp_signing_key P) (signature_data (rp_topic P) m (rp_pub_key P) content)\<rparr>"
    by (auto simp: new_record_def record_sign_def split: option.splits)
  with assms have wf: "record_wf r" by (simp add: dht_lib_ok_def record_wf_def)
  moreover have "record_verify L (rp_topic P) m r = Ok ()"
    unfolding record_verify_Ok [OF wf] using assms c(2) by (simp add: dht_lib_ok_def)
  moreover have "record_content L r = Some c" using assms(1) c by (simp add: dht_lib_ok_def record_content_def)
  ultimately show ?thesis using c(2) by simp
qed

lemma decrypt_encrypt:
  assumes "dht_lib_ok L" and "record_wf r" and "length otk = 32" and "length k = 32"
    and "record_encrypt L otk r1 r2 k r = Ret e"
  shows "encrypted_decrypt L k e = Ret (Ok r)"
proof -
  from assms(5) have "hpke_encrypt L r1 (sk_public L otk) (record_to_bytes r) = Some (e_record e)"
    "hpke_encrypt L r2 (sk_public L k) otk = Some (e_decryption_key e)"
    by (auto simp: record_encrypt_def bind_outcome_Ret_iff unwrap_def split: option.splits)
  with assms(1,3,4) have "hpke_decrypt L otk (e_record e) = Some (record_to_bytes r)"
    "hpke_decrypt L k (e_decryption_key e) = Some otk"
    unfolding dht_lib_ok_def by blast+
  with assms(2,3) show ?thesis by (simp add: encrypted_decrypt_def record_from_to_bytes)
qed

lemma verified_record_Some:
  assumes "verified_record L P m raw = Ret (Some r)"
  shows "record_wf r \<and> record_verify L (rp_topic P) m r = Ok () \<and> d_pub_key r \<noteq> rp_pub_key P"
proof -
  from assms obtain e res where e: "encrypted_decrypt L (rp_encryption_key L P m) e = Ret res"
    "(case res of Inl _ \<Rightarrow> Ret None | Inr r \<Rightarrow> (case record_verify L (rp_topic P) m r of
        Inl _ \<Rightarrow> Ret None | Inr _ \<Rightarrow> if d_pub_key r = rp_pub_key P then Ret None else Ret (Some r))) = Ret (Some r)"
    unfolding verified_record_def bind_outcome_Ret_iff by blast
  then have "res = Ok r" "record_verify L (rp_topic P) m r = Ok ()" "d_pub_key r \<noteq> rp_pub_key P"
    by (auto split: sum.split_asm if_split_asm)
  with e(1) have "encrypted_decrypt L (rp_encryption_key L P m) e = Ret (Ok r)"
    "record_verify L (rp_topic P) m r = Ok ()" "d_pub_key r \<noteq> rp_pub_key P" by simp_all
  then show ?thesis using record_to_from_bytes
    by (auto simp: encrypted_decrypt_def split: option.splits if_splits)
qed

lemma verified_record_Panic:
  "verified_record L P m raw = Panic \<longleftrightarrow> encrypted_from_bytes raw = Panic
     \<or> (\<exists>e. encrypted_from_bytes raw = Ret e \<and> encrypted_decrypt L (rp_encryption_key L P m) e = Panic)"
proof -
  have "(case res of Inl _ \<Rightarrow> Ret None | Inr r \<Rightarrow> (case record_verify L (rp_topic P) m r of
        Inl _ \<Rightarrow> Ret None | Inr _ \<Rightarrow> if d_pub_key r = rp_pub_key P then Ret None else Ret (Some r))) \<noteq> Panic" for res
    by (simp split: sum.split)
  then show ?thesis unfolding verified_record_def bind_outcome_Panic_iff by blast
qed

lemma encrypted_decrypt_Panic:
  "encrypted_decrypt L k e = Panic \<longleftrightarrow> (\<exists>otk b. hpke_decrypt L k (e_decryption_key e) = Some otk \<and> length otk = 32
     \<and> hpke_decrypt L otk (e_record e) = Some b \<and> length b < 136)"
  by (auto simp: encrypted_decrypt_def record_from_bytes_Panic split: option.splits)

lemma set_map_filter_id: "set (List.map_filter id os) = {x. Some x \<in> set os}"
  by (induction os) (auto simp: List.map_filter_simps split: option.splits)

lemma mapM_outcome_Ret_mem:
  "mapM_outcome f xs = Ret ys \<Longrightarrow> y \<in> set ys \<Longrightarrow> \<exists>x \<in> set xs. f x = Ret y"
  by (induction xs arbitrary: ys) (auto simp: bind_outcome_Ret_iff)

section \<open>The retries of a put\<close>

definition next_seq :: "u64 option \<Rightarrow> u64" where
  "next_seq recent = (case recent of Some q \<Rightarrow> q + 1 | None \<Rightarrow> 0)"

definition puts_ok :: "put_env \<Rightarrow> (u64 \<Rightarrow> mutable_item) \<Rightarrow> nat \<Rightarrow> mutable_item list \<Rightarrow> bool" where
  "puts_ok E mk i items \<longleftrightarrow>
     (\<forall>j < length items. (\<exists>q. pe_most_recent E (i + j) = Some q \<and> items ! j = mk (next_seq q))
        \<and> (pe_put E (i + j) \<longrightarrow> j = length items - 1))"

lemma puts_ok_Cons:
  assumes "pe_most_recent E i = Some q" and "pe_put E i \<longrightarrow> items = []" and "puts_ok E mk (Suc i) items"
  shows "puts_ok E mk i (mk (next_seq q) # items)"
  unfolding puts_ok_def
proof (intro allI impI)
  fix j
  assume j: "j < length (mk (next_seq q) # items)"
  show "(\<exists>q'. pe_most_recent E (i + j) = Some q' \<and> (mk (next_seq q) # items) ! j = mk (next_seq q'))
      \<and> (pe_put E (i + j) \<longrightarrow> j = length (mk (next_seq q) # items) - 1)"
  proof (cases j)
    case 0
    with assms(1,2) show ?thesis by auto
  next
    case (Suc j')
    with j have "j' < length items" by simp
    with assms(3) have "(\<exists>q'. pe_most_recent E (Suc i + j') = Some q' \<and> items ! j' = mk (next_seq q'))
        \<and> (pe_put E (Suc i + j') \<longrightarrow> j' = length items - 1)" by (simp add: puts_ok_def)
    with Suc \<open>j' < length items\<close> show ?thesis by auto
  qed
qed

lemma put_loop_spec:
  "put_loop E mk n i = (items, res) \<Longrightarrow> i < n \<Longrightarrow>
     length items \<le> n - i \<and> puts_ok E mk i items
     \<and> (res = Ok () \<longleftrightarrow> items \<noteq> [] \<and> pe_put E (i + length items - 1))"
proof (induction E mk n i arbitrary: items res rule: put_loop.induct)
  case (1 E mk n i)
  note unfolded = 1(2) [unfolded put_loop.simps [of E mk n i]]
  show ?case
  proof (cases "pe_most_recent E i")
    case None
    with unfolded 1(3) show ?thesis by (auto simp: puts_ok_def)
  next
    case (Some q)
    let ?item = "mk (next_seq q)"
    have one: "puts_ok E mk i [?item]" by (rule puts_ok_Cons [OF Some]) (simp_all add: puts_ok_def)
    show ?thesis
    proof (cases "pe_put E i \<or> i = n - 1 \<or> \<not> pe_reset E i")
      case True
      with unfolded 1(3) Some have "items = [?item]" "res = Ok () \<longleftrightarrow> pe_put E i"
        by (auto simp: next_seq_def Let_def split: if_split_asm)
      with one 1(3) show ?thesis by simp
    next
      case False
      obtain items' where r: "put_loop E mk n (Suc i) = (items', res)" "items = ?item # items'"
        using unfolded 1(3) Some False by (auto simp: next_seq_def Let_def split: prod.split_asm)
      have "Suc i < n" using 1(3) False by linarith
      with 1(1) 1(3) Some False r(1)
      have IH: "length items' \<le> n - Suc i \<and> puts_ok E mk (Suc i) items'
          \<and> (res = Ok () \<longleftrightarrow> items' \<noteq> [] \<and> pe_put E (Suc i + length items' - 1))"
        by (metis (no_types, lifting) linorder_not_le)
      with puts_ok_Cons [OF Some, of items' mk] False r(2) 1(3) show ?thesis by (cases items') auto
    qed
  qed
qed

section \<open>Publishing and looking up\<close>

lemma publish_get_records:
  assumes "dht_lib_ok L" and "rp_topic Q = rp_topic P" and "rp_rotation Q = rp_rotation P"
    and "rp_initial_secret_hash Q = rp_initial_secret_hash P" and "rp_pub_key Q \<noteq> rp_pub_key P"
    and "length (rp_topic P) = 32" and "length (rp_signing_key P) = 32"
    and "rp_pub_key P = sk_public L (rp_signing_key P)"
    and "length (rp_encryption_key L P m) = 32" and "length (pu_one_time_key E) = 32"
    and "new_record L P m c = Some r" and "publish_record L P E r = Ret (items, res)"
    and "it \<in> set items" and "length (mi_value it) < 2 ^ 32"
    and "answer (mi_key it) (mi_salt it) = Ok [mi_value it]"
  shows "get_records L Q answer m = Ret {r} \<and> record_content L r = Some c"
proof -
  have r: "record_wf r" "record_verify L (rp_topic P) m r = Ok ()" "record_content L r = Some c"
    "d_unix_minute r = m" "d_pub_key r = rp_pub_key P"
    using new_record_verifies [OF assms(1,11,6,7,8)] by simp_all
  from assms(12,13) r(4) obtain e where e: "record_encrypt L (pu_one_time_key E) (pu_rand1 E) (pu_rand2 E) (rp_encryption_key L P m) r = Ret e"
    "put_mutable L (pu_put E) (pu_up E) (signing_keypair L (rp_topic P) m) (salt L (rp_topic P) m) (encrypted_to_bytes e) (Some 3) = (items, res)"
    by (auto simp: publish_record_def bind_outcome_Ret_iff split: if_split_asm)
  define mk where "mk = (\<lambda>q. \<lparr>mi_key = sk_public L (signing_keypair L (rp_topic P) m), mi_salt = salt L (rp_topic P) m,
      mi_value = encrypted_to_bytes e, mi_seq = q\<rparr>)"
  have "items = [] \<or> put_loop (pu_put E) mk 3 0 = (items, res)"
    using e(2) by (auto simp: put_mutable_def mk_def split: if_split_asm)
  with assms(13) have "puts_ok (pu_put E) mk 0 items" using put_loop_spec by fastforce
  with assms(13) obtain q where it: "it = mk q" by (auto simp: puts_ok_def in_set_conv_nth)
  have "length (e_record e) < 2 ^ 32" using assms(14) by (simp add: it mk_def encrypted_to_bytes_def)
  then have "encrypted_from_bytes (mi_value it) = Ret e" by (simp add: it mk_def encrypted_from_to_bytes)
  moreover have "encrypted_decrypt L (rp_encryption_key L Q m) e = Ret (Ok r)"
    using decrypt_encrypt [OF assms(1) r(1) assms(10,9) e(1)] assms(2-4) by (simp add: rp_encryption_key_def)
  ultimately have "verified_record L Q m (mi_value it) = Ret (Some r)"
    using r(2,5) assms(2,5) by (simp add: verified_record_def)
  then show ?thesis using assms(15) r(3) assms(2)
    by (simp add: get_records_def it mk_def List.map_filter_simps)
qed

lemma get_records_answered:
  assumes "get_records L P answer m = Ret R" and "r \<in> R"
  shows "\<exists>raws raw e. answer (sk_public L (signing_keypair L (rp_topic P) m)) (salt L (rp_topic P) m) = Ok raws \<and> raw \<in> set raws
    \<and> encrypted_from_bytes raw = Ret e \<and> encrypted_decrypt L (rp_encryption_key L P m) e = Ret (Ok r)"
proof -
  let ?a = "answer (sk_public L (signing_keypair L (rp_topic P) m)) (salt L (rp_topic P) m)"
  from assms(1) obtain os where os: "mapM_outcome (verified_record L P m) (case ?a of Inr rs \<Rightarrow> rs | Inl _ \<Rightarrow> []) = Ret os"
    "R = set (List.map_filter id os)"
    unfolding get_records_def Let_def bind_outcome_Ret_iff outcome.inject by blast
  with assms(2) have "Some r \<in> set os" by (simp add: set_map_filter_id)
  then obtain raw where raw: "raw \<in> set (case ?a of Inr rs \<Rightarrow> rs | Inl _ \<Rightarrow> [])" "verified_record L P m raw = Ret (Some r)"
    using mapM_outcome_Ret_mem [OF os(1)] by blast
  then obtain raws where "?a = Ok raws" "raw \<in> set raws" by (cases ?a) auto
  moreover from raw(2) obtain e res where e: "encrypted_from_bytes raw = Ret e" "encrypted_decrypt L (rp_encryption_key L P m) e = Ret res"
    "(case res of Inl _ \<Rightarrow> Ret None | Inr r \<Rightarrow> (case record_verify L (rp_topic P) m r of
        Inl _ \<Rightarrow> Ret None | Inr _ \<Rightarrow> if d_pub_key r = rp_pub_key P then Ret None else Ret (Some r))) = Ret (Some r)"
    unfolding verified_record_def bind_outcome_Ret_iff by blast
  moreover from e(3) have "res = Ok r" by (auto split: sum.split_asm if_split_asm)
  ultimately show ?thesis by blast
qed

lemma get_records_verified:
  assumes "get_records L P answer m = Ret R" and "r \<in> R"
  shows "d_topic r = rp_topic P \<and> d_unix_minute r = m \<and> d_pub_key r \<noteq> rp_pub_key P
    \<and> length (d_pub_key r) = 32
    \<and> vk_verify L (d_pub_key r) (signature_data (rp_topic P) m (d_pub_key r) (d_content r)) (d_signature r)"
proof -
  from assms(1) obtain raws os where os: "mapM_outcome (verified_record L P m) raws = Ret os" "R = set (List.map_filter id os)"
    unfolding get_records_def Let_def bind_outcome_Ret_iff outcome.inject by blast
  with assms(2) have "Some r \<in> set os" by (simp add: set_map_filter_id)
  then obtain raw where "verified_record L P m raw = Ret (Some r)"
    using mapM_outcome_Ret_mem [OF os(1)] by blast
  then have v: "record_wf r" "record_verify L (rp_topic P) m r = Ok ()" "d_pub_key r \<noteq> rp_pub_key P"
    using verified_record_Some [of L P m raw r] by simp_all
  have "d_topic r = rp_topic P" "d_unix_minute r = m" "length (d_pub_key r) = 32"
    "vk_verify L (d_pub_key r) (signature_data (rp_topic P) m (d_pub_key r) (d_content r)) (d_signature r)"
    using record_verify_Ok [OF v(1), THEN iffD1, OF v(2)] v(1) unfolding record_wf_def by blast+
  with v(3) show ?thesis by blast
qed

text \<open>Malformed data of the DHT panics instead of being skipped: the lookup of a minute panics exactly when
  one of the values found is shorter than its length field or than the length it announces, or
  decrypts to fewer than the 136 bytes of the fixed fields.\<close>

lemma get_records_Panic:
  assumes "answer (sk_public L (signing_keypair L (rp_topic P) m)) (salt L (rp_topic P) m) = Ok raws"
  shows "get_records L P answer m = Panic \<longleftrightarrow> (\<exists>raw \<in> set raws.
      length raw < 4 \<or> length raw - 4 < from_le (take 4 raw)
      \<or> (\<exists>e otk b. encrypted_from_bytes raw = Ret e
           \<and> hpke_decrypt L (rp_encryption_key L P m) (e_decryption_key e) = Some otk \<and> length otk = 32
           \<and> hpke_decrypt L otk (e_record e) = Some b \<and> length b < 136))"
  using assms
  by (simp add: get_records_def bind_outcome_Panic_iff mapM_outcome_Panic verified_record_Panic
      encrypted_from_bytes_Panic encrypted_decrypt_Panic Let_def)

section \<open>Properties\<close>

text \<open>C22. Discovery works end to end: what one member publishes for a minute, another member that shares the
  topic, the secret and the rotation finds under the same key and salt, decrypts, verifies and reads
  back, exactly the record that was signed and the content that was put in.\<close>

theorem published_record_is_retrieved:
  assumes "dht_lib_ok L" and "rp_topic Q = rp_topic P" and "rp_rotation Q = rp_rotation P"
    and "rp_initial_secret_hash Q = rp_initial_secret_hash P" and "rp_pub_key Q \<noteq> rp_pub_key P"
    and "length (rp_topic P) = 32" and "length (rp_signing_key P) = 32"
    and "rp_pub_key P = sk_public L (rp_signing_key P)"
    and "length (rp_encryption_key L P m) = 32" and "length (pu_one_time_key E) = 32"
    and "new_record L P m c = Some r" and "publish_record L P E r = Ret (items, res)"
    and "it \<in> set items" and "length (mi_value it) < 2 ^ 32"
    and "answer (mi_key it) (mi_salt it) = Ok [mi_value it]"
  shows "get_records L Q answer m = Ret {r} \<and> record_content L r = Some c"
  using assms by (rule publish_get_records)

definition demo_dht_lib :: "string dht_lib" where
  "demo_dht_lib = \<lparr>sha512 = (\<lambda>m. take 64 (m @ replicate 64 (CHR ''0''))), sk_public = id,
     sk_sign = (\<lambda>k m. replicate 64 (CHR ''s'')), vk_ok = (\<lambda>_. True), vk_verify = (\<lambda>k m s. True),
     hpke_encrypt = (\<lambda>r k m. Some m), hpke_decrypt = (\<lambda>k c. Some c), pc_encode = Some, pc_decode = Some\<rparr>"

lemma demo_dht_lib_ok: "dht_lib_ok demo_dht_lib"
  by (auto simp: dht_lib_ok_def demo_dht_lib_def)

definition demo_publisher :: "char \<Rightarrow> record_publisher" where
  "demo_publisher ch = record_publisher_new demo_dht_lib (record_topic_from_str demo_dht_lib TOPIC_STRING)
     (replicate 32 ch) (replicate 32 ch) None ''podping_gossip_default_secret''"

definition demo_publish_env :: publish_env where
  "demo_publish_env = \<lparr>pu_answer = (\<lambda>_ _. Ok []),
     pu_put = \<lparr>pe_init_ok = True, pe_most_recent = (\<lambda>_. Some (Some 4)), pe_put = (\<lambda>i. i = 1), pe_reset = (\<lambda>_. True)\<rparr>,
     pu_up = True, pu_one_time_key = replicate 32 (CHR ''o''), pu_rand1 = 0, pu_rand2 = 0\<rparr>"

lemma demo_publisher_keys:
  "rp_topic (demo_publisher ch) = record_topic_from_str demo_dht_lib TOPIC_STRING" "rp_pub_key (demo_publisher ch) = replicate 32 ch"
  "rp_signing_key (demo_publisher ch) = replicate 32 ch" "rp_rotation (demo_publisher ch) = None"
  "rp_initial_secret_hash (demo_publisher ch) = hash32 demo_dht_lib ''podping_gossip_default_secret''"
  "length (record_topic_from_str demo_dht_lib TOPIC_STRING) = 32" "length (rp_encryption_key demo_dht_lib (demo_publisher ch) m) = 32"
  by (simp_all add: demo_publisher_def record_publisher_new_def record_topic_from_str_def hash32_length [OF demo_dht_lib_ok]
      rp_encryption_key_def encryption_keypair_def default_derive_def)

definition demo_record :: d_record where
  "demo_record = \<lparr>d_topic = record_topic_from_str demo_dht_lib TOPIC_STRING, d_unix_minute = 7, d_pub_key = replicate 32 (CHR ''p''),
     d_content = ''hi'', d_signature = replicate 64 (CHR ''s'')\<rparr>"

definition demo_value :: string where
  "demo_value = to_le 4 138 @ record_to_bytes demo_record @ replicate 32 (CHR ''o'')"

definition demo_item :: mutable_item where
  "demo_item = \<lparr>mi_key = signing_keypair demo_dht_lib (record_topic_from_str demo_dht_lib TOPIC_STRING) 7,
     mi_salt = salt demo_dht_lib (record_topic_from_str demo_dht_lib TOPIC_STRING) 7, mi_value = demo_value, mi_seq = 5\<rparr>"

lemma demo_new_record: "new_record demo_dht_lib (demo_publisher (CHR ''p'')) 7 ''hi'' = Some demo_record"
  by (simp add: new_record_def record_sign_def demo_publisher_keys demo_record_def) (simp add: demo_dht_lib_def)

lemma demo_record_bytes: "length (record_to_bytes demo_record) = 138"
  by (simp add: record_to_bytes_def demo_record_def demo_publisher_keys)

lemma demo_publish:
  "publish_record demo_dht_lib (demo_publisher (CHR ''p'')) demo_publish_env demo_record = Ret ([demo_item, demo_item], Ok ())"
proof -
  let ?P = "demo_publisher (CHR ''p'')"
  have "get_records demo_dht_lib ?P (pu_answer demo_publish_env) 7 = Ret {}"
    by (simp add: get_records_def demo_publish_env_def List.map_filter_simps)
  moreover have "record_encrypt demo_dht_lib (pu_one_time_key demo_publish_env) a b k demo_record
      = Ret \<lparr>e_record = record_to_bytes demo_record, e_decryption_key = replicate 32 (CHR ''o'')\<rparr>" for a b k
    by (simp add: record_encrypt_def demo_dht_lib_def demo_publish_env_def)
  moreover have "d_unix_minute demo_record = 7" by (simp add: demo_record_def)
  ultimately show ?thesis
    by (simp add: publish_record_def MAX_BOOTSTRAP_RECORDS_def put_mutable_def put_loop.simps demo_publish_env_def
        encrypted_to_bytes_def demo_record_bytes demo_item_def demo_value_def demo_publisher_keys Let_def)
      (simp add: demo_dht_lib_def)
qed

theorem published_record_is_retrieved_witness:
  "get_records demo_dht_lib (demo_publisher (CHR ''q'')) (\<lambda>k s. Ok [demo_value]) 7 = Ret {demo_record}
   \<and> record_content demo_dht_lib demo_record = Some ''hi''"
proof -
  have "length (mi_value demo_item) < 2 ^ 32"
    by (simp add: demo_item_def demo_value_def demo_record_bytes)
  moreover have "(\<lambda>k s. Ok [demo_value]) (mi_key demo_item) (mi_salt demo_item) = (Ok [mi_value demo_item] :: string + string list)"
    by (simp add: demo_item_def)
  moreover have "replicate 32 (CHR ''q'') \<noteq> replicate 32 (CHR ''p'')" by simp
  moreover have "sk_public demo_dht_lib x = x" for x by (simp add: demo_dht_lib_def)
  ultimately show ?thesis
    using demo_dht_lib_ok demo_new_record demo_publish
    by (intro published_record_is_retrieved [where it = demo_item and E = demo_publish_env and P = "demo_publisher (CHR ''p'')"
          and items = "[demo_item, demo_item]" and res = "Ok ()"])
      (simp_all add: demo_publisher_keys, simp add: demo_publish_env_def)
qed

text \<open>What is taken from the DHT is checked: every record that \<^verbatim>\<open>get_records\<close> returns is for this topic and
  this minute, carries a signature of its publisher over all of its fields, and is not the caller's
  own.\<close>

theorem get_records_only_verified:
  assumes "get_records L P answer m = Ret R" and "r \<in> R"
  shows "d_topic r = rp_topic P \<and> d_unix_minute r = m \<and> d_pub_key r \<noteq> rp_pub_key P
    \<and> length (d_pub_key r) = 32
    \<and> vk_verify L (d_pub_key r) (signature_data (rp_topic P) m (d_pub_key r) (d_content r)) (d_signature r)"
  by (rule get_records_verified [OF assms])

lemma demo_get_records:
  "get_records demo_dht_lib (demo_publisher (CHR ''q'')) (\<lambda>k s. Ok [demo_value]) 7 = Ret {demo_record}"
proof -
  let ?e = "\<lparr>e_record = record_to_bytes demo_record, e_decryption_key = replicate 32 (CHR ''o'')\<rparr>"
  have wf: "record_wf demo_record" by (simp add: record_wf_def demo_record_def demo_publisher_keys)
  have "demo_value = encrypted_to_bytes ?e" by (simp add: demo_value_def encrypted_to_bytes_def demo_record_bytes)
  moreover have "encrypted_from_bytes (encrypted_to_bytes ?e) = Ret ?e"
    by (rule encrypted_from_to_bytes) (simp add: demo_record_bytes)
  moreover have "encrypted_decrypt demo_dht_lib k ?e = Ret (Ok demo_record)" for k
    using record_from_to_bytes [OF wf] by (simp add: encrypted_decrypt_def) (simp add: demo_dht_lib_def)
  moreover have "record_verify demo_dht_lib (record_topic_from_str demo_dht_lib TOPIC_STRING) 7 demo_record = Ok ()"
    unfolding record_verify_Ok [OF wf] by (simp add: demo_record_def) (simp add: demo_dht_lib_def)
  ultimately show ?thesis
    by (simp add: get_records_def verified_record_def demo_publisher_keys List.map_filter_simps)
      (simp add: demo_record_def)
qed

theorem get_records_only_verified_witness:
  "d_pub_key demo_record \<noteq> rp_pub_key (demo_publisher (CHR ''q'')) \<and> d_unix_minute demo_record = 7"
  using get_records_only_verified [OF demo_get_records, of demo_record] by simp

text \<open>A put makes at most as many attempts as it was given, each with the sequence number after the
  most recent one it saw, stops at the first success, and reports success exactly when its last
  attempt was accepted.\<close>

theorem put_stops_at_first_success:
  assumes "put_mutable L E up k slt data (Some n) = (items, res)" and "0 < n"
  shows "length items \<le> n \<and> (res = Ok () \<longleftrightarrow> items \<noteq> [] \<and> pe_put E (length items - 1))
    \<and> (\<forall>j < length items. (\<exists>q. pe_most_recent E j = Some q \<and> mi_seq (items ! j) = next_seq q)
         \<and> mi_value (items ! j) = data \<and> (pe_put E j \<longrightarrow> j = length items - 1))"
proof (cases "\<not> up \<and> \<not> pe_init_ok E")
  case True
  with assms(1) show ?thesis by (auto simp: put_mutable_def)
next
  case False
  let ?mk = "\<lambda>q. \<lparr>mi_key = sk_public L k, mi_salt = slt, mi_value = data, mi_seq = q\<rparr>"
  have "put_loop E ?mk n 0 = (items, res)" using assms(1) False by (simp add: put_mutable_def split: if_split_asm)
  from put_loop_spec [OF this assms(2)] show ?thesis by (fastforce simp: puts_ok_def)
qed

theorem put_stops_at_first_success_witness:
  "(snd (put_mutable demo_dht_lib (pu_put demo_publish_env) True ''k'' ''s'' ''v'' (Some 3)) = Ok ())
   \<and> length (fst (put_mutable demo_dht_lib (pu_put demo_publish_env) True ''k'' ''s'' ''v'' (Some 3))) = 2"
proof -
  let ?it = "\<lparr>mi_key = ''k'', mi_salt = ''s'', mi_value = ''v'', mi_seq = 5\<rparr>"
  have "put_mutable demo_dht_lib (pu_put demo_publish_env) True ''k'' ''s'' ''v'' (Some 3) = ([?it, ?it], Ok ())"
    by (simp add: put_mutable_def put_loop.simps demo_publish_env_def demo_dht_lib_def Let_def)
  from put_stops_at_first_success [OF this] this show ?thesis by simp
qed

end
