(* ===== verification/Dht_Receiver.thy ===== *)
theory Dht_Receiver
  imports Dht_Records
begin

text \<open>
  The gossip receiver and sender actors of the topic tracker (\<^verbatim>\<open>dtt-fork/src/gossip/receiver.rs\<close>,
  \<^verbatim>\<open>sender.rs\<close>). The receiver pairs the events of the gossip stream with the calls of \<^verbatim>\<open>next\<close>: whichever
  comes first waits in a double-ended queue, listed here from front to back. \<open>gr_sent\<close> records what was
  sent to the waiting callers, in order. The select of the actor may take calls and events in any
  order, so a run is any list of actions.
\<close>

section \<open>The receiver\<close>

datatype gossip_event =
  Ev_Received string string
| Ev_NeighborUp string
| Ev_NeighborDown string
| Ev_Lagged

datatype raw_event = Raw_None | Raw_Err string | Raw_Ok gossip_event

record gr_state =
  gr_hashes :: "string list"
  gr_queue :: "raw_event list"
  gr_waiters :: "nat list"
  gr_sent :: "(nat \<times> raw_event) list"
  gr_running :: bool

datatype gr_action = Next nat | Stream raw_event

definition gr_new :: gr_state where
  "gr_new = \<lparr>gr_hashes = [], gr_queue = [], gr_waiters = [], gr_sent = [], gr_running = True\<rparr>"

definition pop_back :: "'a list \<Rightarrow> ('a \<times> 'a list) option" where
  "pop_back xs = (if xs = [] then None else Some (last xs, butlast xs))"

definition waiter_send :: "nat \<Rightarrow> raw_event \<Rightarrow> gr_state \<Rightarrow> gr_state" where
  "waiter_send w e s = s\<lparr>gr_sent := gr_sent s @ [(w, e)]\<rparr>"

definition register_next :: "nat \<Rightarrow> gr_state \<Rightarrow> gr_state" where
  "register_next w s =
     (case pop_back (gr_queue s) of
        Some (e, q) \<Rightarrow> waiter_send w e (s\<lparr>gr_queue := q\<rparr>)
      | None \<Rightarrow> s\<lparr>gr_waiters := w # gr_waiters s\<rparr>)"

text \<open>The loops that answer every remaining caller with \<^verbatim>\<open>None\<close>, from the back.\<close>

definition drain_waiters :: "gr_state \<Rightarrow> gr_state" where
  "drain_waiters s = s\<lparr>gr_sent := gr_sent s @ map (\<lambda>w. (w, Raw_None)) (rev (gr_waiters s)), gr_waiters := []\<rparr>"

definition push_hash :: "string list \<Rightarrow> string \<Rightarrow> string list" where
  "push_hash hs h = (let hs' = hs @ [h] in if 5 < length hs' then tl hs' else hs')"

definition note_front :: "'c dht_lib \<Rightarrow> gr_state \<Rightarrow> gr_state" where
  "note_front L s =
     (case gr_queue s of
        Raw_Ok (Ev_Received c f) # _ \<Rightarrow> s\<lparr>gr_hashes := push_hash (gr_hashes s) (hash32 L c)\<rparr>
      | _ \<Rightarrow> s)"

definition serve_waiter :: "gr_state \<Rightarrow> gr_state" where
  "serve_waiter s =
     (case pop_back (gr_waiters s) of
        None \<Rightarrow> s
      | Some (w, ws) \<Rightarrow>
          (case pop_back (gr_queue s) of
             Some (e, q) \<Rightarrow> waiter_send w e (s\<lparr>gr_waiters := ws, gr_queue := q\<rparr>)
           | None \<Rightarrow> waiter_send w Raw_None (s\<lparr>gr_waiters := ws\<rparr>)))"

definition on_raw_event :: "'c dht_lib \<Rightarrow> raw_event \<Rightarrow> gr_state \<Rightarrow> gr_state" where
  "on_raw_event L ev s =
     (case ev of
        Raw_None \<Rightarrow> (drain_waiters s)\<lparr>gr_running := False\<rparr>
      | Raw_Err e \<Rightarrow>
          (case pop_back (gr_waiters s) of
             Some (w, ws) \<Rightarrow> (drain_waiters (waiter_send w ev (s\<lparr>gr_waiters := ws\<rparr>)))\<lparr>gr_running := False\<rparr>
           | None \<Rightarrow> s\<lparr>gr_running := False\<rparr>)
      | Raw_Ok _ \<Rightarrow>
          if gr_waiters s = [] \<and> 1000 < length (gr_queue s) then s\<lparr>gr_running := False\<rparr>
          else note_front L (serve_waiter (s\<lparr>gr_queue := ev # gr_queue s\<rparr>)))"

definition gr_step :: "'c dht_lib \<Rightarrow> gr_state \<Rightarrow> gr_action \<Rightarrow> gr_state" where
  "gr_step L s a =
     (if \<not> gr_running s then s
      else case a of Next w \<Rightarrow> register_next w s | Stream ev \<Rightarrow> on_raw_event L ev s)"

definition gr_run :: "'c dht_lib \<Rightarrow> gr_action list \<Rightarrow> gr_state" where
  "gr_run L acts = foldl (gr_step L) gr_new acts"

section \<open>The sender\<close>

datatype call_result = Call_Ok | Call_Err string | Call_Timeout

fun sender_result :: "string \<Rightarrow> call_result \<Rightarrow> string + unit" where
  "sender_result late Call_Ok = Ok ()"
| "sender_result late (Call_Err e) = Err e"
| "sender_result late Call_Timeout = Err late"

definition sender_broadcast :: "call_result \<Rightarrow> string + unit" where
  "sender_broadcast res = sender_result ''broadcast timed out'' res"

definition sender_broadcast_neighbors :: "call_result \<Rightarrow> string + unit" where
  "sender_broadcast_neighbors res = sender_result ''broadcast_neighbors timed out'' res"

text \<open>\<open>shuffle\<close> is the random permutation. Both join operations hand the same list to the gossip layer; they
  differ in whether the call waits its turn behind the broadcasts.\<close>

definition chosen_peers :: "('id list \<Rightarrow> 'id list) \<Rightarrow> 'id list \<Rightarrow> nat option \<Rightarrow> 'id list" where
  "chosen_peers shuffle peers max_peers = (case max_peers of Some n \<Rightarrow> take n (shuffle peers) | None \<Rightarrow> peers)"

definition sender_join_peers :: "('id list \<Rightarrow> 'id list) \<Rightarrow> call_result \<Rightarrow> 'id list \<Rightarrow> nat option \<Rightarrow> 'id list \<times> (string + unit)" where
  "sender_join_peers shuffle res peers max_peers =
     (chosen_peers shuffle peers max_peers, sender_result ''join_peers timed out'' res)"

definition sender_join_peers_direct :: "('id list \<Rightarrow> 'id list) \<Rightarrow> call_result \<Rightarrow> 'id list \<Rightarrow> nat option \<Rightarrow> 'id list \<times> (string + unit)" where
  "sender_join_peers_direct shuffle res peers max_peers =
     (chosen_peers shuffle peers max_peers, sender_result ''join_peers timed out'' res)"

section \<open>Specification: calls and events are paired in order\<close>

fun request_of :: "gr_action \<Rightarrow> nat option" where
  "request_of (Next w) = Some w"
| "request_of (Stream ev) = None"

fun event_of :: "gr_action \<Rightarrow> raw_event option" where
  "event_of (Next w) = None"
| "event_of (Stream ev) = Some ev"

definition requests :: "gr_action list \<Rightarrow> nat list" where
  "requests acts = List.map_filter request_of acts"

definition stream_of :: "gr_action list \<Rightarrow> raw_event list" where
  "stream_of acts = List.map_filter event_of acts"

definition paired :: "nat list \<Rightarrow> raw_event list \<Rightarrow> gr_state \<Rightarrow> bool" where
  "paired ws es s \<longleftrightarrow> gr_sent s = zip ws es \<and> gr_queue s = rev (drop (length ws) es)
     \<and> gr_waiters s = rev (drop (length es) ws)"

interpretation recent_hashes: capped_log push_hash 5
proof (unfold_locales, goal_cases)
  case (1 xs x)
  then have "length xs = 5 \<or> length xs < 5" by auto
  then show ?case
  proof
    assume "length xs = 5"
    then show ?thesis by (cases xs) (simp_all add: push_hash_def last_n_def Let_def)
  next
    assume "length xs < 5"
    then show ?thesis by (simp add: push_hash_def last_n_def Let_def)
  qed
qed simp

lemma requests_simps [simp]:
  "requests [] = []" "requests (acts @ [Next w]) = requests acts @ [w]" "requests (acts @ [Stream e]) = requests acts"
  by (simp_all add: requests_def List.map_filter_def)

lemma stream_of_simps [simp]:
  "stream_of [] = []" "stream_of (acts @ [Next w]) = stream_of acts" "stream_of (acts @ [Stream e]) = stream_of acts @ [e]"
  by (simp_all add: stream_of_def List.map_filter_def)

lemma pop_back_rev_Cons [simp]: "pop_back (rev (x # xs)) = Some (x, rev xs)"
  by (simp add: pop_back_def)

lemma pop_back_Nil [simp]: "pop_back [] = None"
  by (simp add: pop_back_def)

lemma zip_snoc_left: "length ws < length es \<Longrightarrow> zip (ws @ [w]) es = zip ws es @ [(w, es ! length ws)]"
proof (induction ws arbitrary: es)
  case Nil
  then show ?case by (cases es) auto
next
  case (Cons v ws)
  then show ?case by (cases es) auto
qed

lemma zip_snoc_right: "length es < length ws \<Longrightarrow> zip ws (es @ [e]) = zip ws es @ [(ws ! length es, e)]"
proof (induction es arbitrary: ws)
  case Nil
  then show ?case by (cases ws) auto
next
  case (Cons v es)
  then show ?case by (cases ws) auto
qed

lemma note_front_fields [simp]:
  "gr_sent (note_front L s) = gr_sent s" "gr_queue (note_front L s) = gr_queue s"
  "gr_waiters (note_front L s) = gr_waiters s" "gr_running (note_front L s) = gr_running s"
  by (simp_all add: note_front_def split: list.split raw_event.split gossip_event.split)

lemma serve_waiter_running [simp]: "gr_running (serve_waiter s) = gr_running s"
  by (simp add: serve_waiter_def waiter_send_def split: option.split)

lemma paired_next:
  assumes "paired ws es s"
  shows "paired (ws @ [w]) es (register_next w s)"
proof (cases "length ws < length es")
  case True
  have "gr_queue s = rev (es ! length ws # drop (Suc (length ws)) es)"
    using assms True by (simp add: paired_def Cons_nth_drop_Suc)
  then have "register_next w s = waiter_send w (es ! length ws) (s\<lparr>gr_queue := rev (drop (Suc (length ws)) es)\<rparr>)"
    by (simp only: register_next_def pop_back_rev_Cons option.case prod.case)
  with assms True show ?thesis by (simp add: paired_def waiter_send_def zip_snoc_left)
next
  case False
  with assms show ?thesis by (simp add: paired_def register_next_def zip_append1)
qed

lemma paired_event:
  assumes "paired ws es s"
  shows "paired ws (es @ [ev]) (serve_waiter (s\<lparr>gr_queue := ev # gr_queue s\<rparr>))"
proof (cases "length es < length ws")
  case True
  have "gr_waiters s = rev (ws ! length es # drop (Suc (length es)) ws)"
    using assms True by (simp add: paired_def Cons_nth_drop_Suc)
  moreover have "gr_queue s = []" using assms True by (simp add: paired_def)
  ultimately have "serve_waiter (s\<lparr>gr_queue := ev # gr_queue s\<rparr>)
      = waiter_send (ws ! length es) ev (s\<lparr>gr_waiters := rev (drop (Suc (length es)) ws), gr_queue := []\<rparr>)"
    by (simp only: serve_waiter_def pop_back_rev_Cons option.case prod.case gr_state.simps) (simp add: pop_back_def)
  with assms True show ?thesis by (simp add: paired_def waiter_send_def zip_snoc_right)
next
  case False
  with assms show ?thesis by (simp add: paired_def serve_waiter_def zip_append2)
qed

lemma gr_run_snoc: "gr_run L (acts @ [a]) = gr_step L (gr_run L acts) a"
  by (simp add: gr_run_def)

lemma gr_run_Nil [simp]: "gr_run L [] = gr_new"
  by (simp add: gr_run_def)

lemma gr_step_running:
  assumes "gr_running (gr_step L s a)"
  shows "gr_running s \<and> (\<forall>ev. a = Stream ev \<longrightarrow> (\<exists>e. ev = Raw_Ok e)
     \<and> gr_step L s a = note_front L (serve_waiter (s\<lparr>gr_queue := ev # gr_queue s\<rparr>)))"
  using assms by (cases a) (auto simp: gr_step_def on_raw_event_def drain_waiters_def
      split: if_split_asm raw_event.split_asm option.split_asm)

lemma paired_run: "gr_running (gr_run L acts) \<Longrightarrow> paired (requests acts) (stream_of acts) (gr_run L acts)"
proof (induction acts rule: rev_induct)
  case Nil
  show ?case by (simp add: paired_def gr_new_def)
next
  case (snoc a acts)
  let ?s = "gr_run L acts"
  have r: "gr_running (gr_step L ?s a)" using snoc.prems by (simp add: gr_run_snoc)
  then have run: "gr_running ?s" using gr_step_running by blast
  then have p: "paired (requests acts) (stream_of acts) ?s" by (rule snoc.IH)
  show ?case
  proof (cases a)
    case (Next w)
    then have "gr_run L (acts @ [a]) = register_next w ?s" using run by (simp add: gr_run_snoc gr_step_def)
    then show ?thesis using paired_next [OF p] by (simp add: Next)
  next
    case (Stream ev)
    then have "gr_run L (acts @ [a]) = note_front L (serve_waiter (?s\<lparr>gr_queue := ev # gr_queue ?s\<rparr>))"
      using gr_step_running [OF r] by (simp add: gr_run_snoc)
    then show ?thesis using paired_event [OF p, of ev] by (simp add: Stream paired_def)
  qed
qed

lemma pop_back_length: "pop_back xs = Some (x, ys) \<Longrightarrow> length xs = Suc (length ys)"
  by (auto simp: pop_back_def split: if_splits)

lemma queue_bounded_step:
  assumes "gr_running s" and "length (gr_queue s) \<le> 1001" and "gr_waiters s = [] \<or> gr_queue s = []"
  shows "length (gr_queue (gr_step L s a)) \<le> 1001"
proof (cases a)
  case (Next w)
  have "length (gr_queue (register_next w s)) \<le> length (gr_queue s)"
    by (auto simp: register_next_def waiter_send_def dest: pop_back_length split: option.split)
  with assms Next show ?thesis by (simp add: gr_step_def)
next
  case (Stream ev)
  have "length (gr_queue (serve_waiter (s\<lparr>gr_queue := ev # gr_queue s\<rparr>))) \<le> Suc (length (gr_queue s))"
    by (auto simp: serve_waiter_def waiter_send_def dest: pop_back_length split: option.split)
  with assms Stream show ?thesis
    by (auto simp: gr_step_def on_raw_event_def drain_waiters_def waiter_send_def split: raw_event.split option.split)
qed

lemma hashes_step: "length (gr_hashes s) \<le> 5 \<Longrightarrow> length (gr_hashes (gr_step L s a)) \<le> 5"
proof -
  assume l: "length (gr_hashes s) \<le> 5"
  have "gr_hashes (serve_waiter t) = gr_hashes t" for t
    by (simp add: serve_waiter_def waiter_send_def split: option.split)
  then have "length (gr_hashes (note_front L (serve_waiter (s\<lparr>gr_queue := q\<rparr>)))) \<le> 5" for q
    using l recent_hashes.push_bound
    by (simp add: note_front_def split: list.split raw_event.split gossip_event.split)
  with l show ?thesis
    by (simp add: gr_step_def register_next_def on_raw_event_def drain_waiters_def waiter_send_def
        split: gr_action.split raw_event.split option.split)
qed

lemma gr_run_bounds: "length (gr_queue (gr_run L acts)) \<le> 1001 \<and> length (gr_hashes (gr_run L acts)) \<le> 5"
proof (induction acts rule: rev_induct)
  case Nil
  show ?case by (simp add: gr_new_def)
next
  case (snoc a acts)
  let ?s = "gr_run L acts"
  show ?case
  proof (cases "gr_running ?s")
    case True
    then have "gr_waiters ?s = [] \<or> gr_queue ?s = []" using paired_run by (fastforce simp: paired_def)
    with True snoc queue_bounded_step [of ?s L a] hashes_step [of ?s L a] show ?thesis by (simp add: gr_run_snoc)
  next
    case False
    with snoc show ?thesis by (simp add: gr_run_snoc gr_step_def)
  qed
qed

section \<open>Properties\<close>

text \<open>C23. The receiver is a first-in first-out channel: as long as it runs, the i-th call of \<^verbatim>\<open>next\<close> is answered
  with the i-th event of the stream, whatever the interleaving; when the stream ends, every caller
  still waiting is answered with \<^verbatim>\<open>None\<close>, in order; its queue never holds more than 1001 events and
  its hash window more than 5.\<close>

theorem receiver_is_fifo:
  assumes "gr_running (gr_run L acts)"
  shows "gr_sent (gr_run L acts) = zip (requests acts) (stream_of acts)
    \<and> gr_sent (gr_run L (acts @ [Stream Raw_None]))
        = zip (requests acts) (stream_of acts) @ map (\<lambda>w. (w, Raw_None)) (drop (length (stream_of acts)) (requests acts))
    \<and> length (gr_queue (gr_run L acts)) \<le> 1001 \<and> length (gr_hashes (gr_run L acts)) \<le> 5"
proof -
  from paired_run [OF assms] have p: "gr_sent (gr_run L acts) = zip (requests acts) (stream_of acts)"
    "gr_waiters (gr_run L acts) = rev (drop (length (stream_of acts)) (requests acts))"
    by (simp_all add: paired_def)
  moreover have "gr_sent (gr_run L (acts @ [Stream Raw_None]))
      = gr_sent (gr_run L acts) @ map (\<lambda>w. (w, Raw_None)) (rev (gr_waiters (gr_run L acts)))"
    using assms by (simp add: gr_run_snoc gr_step_def on_raw_event_def drain_waiters_def)
  ultimately show ?thesis using gr_run_bounds [of L acts] by simp
qed

theorem receiver_is_fifo_witness:
  "gr_sent (gr_run demo_dht_lib ([Next 1, Next 2, Stream (Raw_Ok (Ev_Received ''a'' ''p''))] @ [Stream Raw_None]))
     = [(1, Raw_Ok (Ev_Received ''a'' ''p'')), (2, Raw_None)]"
proof -
  let ?acts = "[Next 1, Next 2, Stream (Raw_Ok (Ev_Received ''a'' ''p''))]"
  have "gr_running (gr_run demo_dht_lib ?acts)"
    by (simp add: gr_run_def gr_new_def gr_step_def register_next_def on_raw_event_def serve_waiter_def pop_back_def
        waiter_send_def note_front_def)
  from receiver_is_fifo [OF this] show ?thesis
    by (simp add: requests_def stream_of_def List.map_filter_simps)
qed

text \<open>Message hashes are recorded only for events that had to wait. A consumer that asks for the next
  event before it arrives leaves the hash window empty however many messages it receives, so it
  advertises no hashes.\<close>

lemma prompt_consumer_records_no_hashes:
  "gr_hashes (gr_run L (concat (map (\<lambda>(w, e). [Next w, Stream (Raw_Ok e)]) wes))) = []"
proof -
  have "gr_hashes (foldl (gr_step L) s (concat (map (\<lambda>(w, e). [Next w, Stream (Raw_Ok e)]) wes))) = []"
    if "gr_hashes s = []" "gr_queue s = []" "gr_waiters s = []" for s
    using that
  proof (induction wes arbitrary: s)
    case (Cons we wes)
    obtain w e where we: "we = (w, e)" by force
    let ?t = "gr_step L (gr_step L s (Next w)) (Stream (Raw_Ok e))"
    have "gr_hashes ?t = [] \<and> gr_queue ?t = [] \<and> gr_waiters ?t = []"
      using Cons.prems
      by (simp add: gr_step_def register_next_def on_raw_event_def serve_waiter_def pop_back_def waiter_send_def note_front_def)
    then show ?case using Cons.IH [of ?t] by (simp add: we)
  qed simp
  then show ?thesis by (simp add: gr_run_def gr_new_def)
qed

end
