(* ===== verification/Dht_Topic.thy ===== *)
theory Dht_Topic
  imports Dht_Receiver
begin

text \<open>
  Joining a topic through the DHT (\<^verbatim>\<open>dtt-fork/src/gossip/topic\<close>, \<^verbatim>\<open>dtt-fork/src/gossip/merge\<close>): the bootstrap
  loop that looks for records, joins their nodes and publishes a record of its own, the publisher that
  advertises neighbours and message hashes, and the two merge tasks that heal partitions. Each loop
  is a turn on a state; the answers of the DHT, of the gossip layer and of the clock are the
  environment of the turn. Endpoint ids are their 32 bytes and \<open>ep_ok\<close> is the parser of iroh. A hash set
  is iterated in the order that the environment names.
\<close>

section \<open>Advertised content\<close>

record gossip_content =
  gc_active_peers :: "string list"
  gc_last_message_hashes :: "string list"

definition zero32 :: string where
  "zero32 = replicate 32 (char_of (0 :: nat))"

definition empty_content :: gossip_content where
  "empty_content = \<lparr>gc_active_peers = replicate 5 zero32, gc_last_message_hashes = replicate 5 zero32\<rparr>"

definition pad5 :: "string list \<Rightarrow> string list" where
  "pad5 xs = take 5 xs @ replicate (5 - length xs) zero32"

text \<open>\<open>neighbors\<close> is the neighbour set in its order of iteration.\<close>

definition publisher_publish :: "gossip_content dht_lib \<Rightarrow> record_publisher \<Rightarrow> publish_env \<Rightarrow> int \<Rightarrow> string list \<Rightarrow> string list
    \<Rightarrow> (mutable_item list \<times> (string + unit)) outcome" where
  "publisher_publish L P E now neighbors raw_hashes =
     (let content = \<lparr>gc_active_peers = pad5 (filter (\<lambda>k. length k = 32) neighbors), gc_last_message_hashes = pad5 raw_hashes\<rparr>
      in case new_record L P (unix_minute now 0) content of
           None \<Rightarrow> Ret ([], Err ''serialize'')
         | Some r \<Rightarrow> publish_record L P E r)"

section \<open>Bootstrap\<close>

definition fetch_records :: "'c dht_lib \<Rightarrow> record_publisher \<Rightarrow> dht_answer \<Rightarrow> u64 \<Rightarrow> d_record set outcome" where
  "fetch_records L P answer m =
     bind_outcome (get_records L P answer (m - 1)) (\<lambda>R1.
     bind_outcome (get_records L P answer m) (\<lambda>R2. Ret (R1 \<union> R2)))"

definition record_nodes :: "gossip_content dht_lib \<Rightarrow> d_record \<Rightarrow> string list" where
  "record_nodes L r =
     d_pub_key r # (case record_content L r of
                      Some c \<Rightarrow> filter (\<lambda>p. p \<noteq> zero32) (gc_active_peers c)
                    | None \<Rightarrow> [])"

definition bootstrap_nodes :: "gossip_content dht_lib \<Rightarrow> (string \<Rightarrow> bool) \<Rightarrow> d_record set \<Rightarrow> string set" where
  "bootstrap_nodes L ep_ok R = {n \<in> \<Union> ((\<lambda>r. set (record_nodes L r)) ` R). ep_ok n}"

datatype boot_status = Booting | Joined | Boot_Panicked

record boot_state =
  bs_last_published :: u64
  bs_joins :: "string list"
  bs_published :: "d_record list"
  bs_status :: boot_status

definition boot_start :: boot_state where
  "boot_start = \<lparr>bs_last_published = 0, bs_joins = [], bs_published = [], bs_status = Booting\<rparr>"

text \<open>The answers of \<^verbatim>\<open>is_joined\<close> at the start of the turn, after the lookup, after the i-th join and at
  the end, the results of the joins, the clock, the DHT and the order of the node set.\<close>

record boot_env =
  bo_joined_first :: bool
  bo_joined_lookup :: bool
  bo_joined_after :: "nat \<Rightarrow> bool"
  bo_joined_last :: bool
  bo_join_ok :: "nat \<Rightarrow> bool"
  bo_now :: int
  bo_answer :: dht_answer
  bo_order :: "string set \<Rightarrow> string list"

definition boot_publish :: "gossip_content dht_lib \<Rightarrow> record_publisher \<Rightarrow> u64 \<Rightarrow> boot_state \<Rightarrow> boot_state" where
  "boot_publish L P m s =
     (if m \<noteq> bs_last_published s then
        s\<lparr>bs_last_published := m,
          bs_published := bs_published s
            @ (case record_sign L (rp_topic P) m (rp_pub_key P) empty_content (rp_signing_key P) of
                 Some r \<Rightarrow> [r] | None \<Rightarrow> [])\<rparr>
      else s)"

fun join_loop :: "(nat \<Rightarrow> bool) \<Rightarrow> (nat \<Rightarrow> bool) \<Rightarrow> nat \<Rightarrow> string list \<Rightarrow> string list" where
  "join_loop ok joined i [] = []"
| "join_loop ok joined i (n # ns) = n # (if ok i \<and> joined i then [] else join_loop ok joined (Suc i) ns)"

definition boot_minute :: "int \<Rightarrow> boot_state \<Rightarrow> u64" where
  "boot_minute now s = unix_minute now (if bs_last_published s = 0 then - 1 else 0)"

definition bootstrap_turn :: "gossip_content dht_lib \<Rightarrow> (string \<Rightarrow> bool) \<Rightarrow> record_publisher \<Rightarrow> boot_env \<Rightarrow> boot_state \<Rightarrow> boot_state" where
  "bootstrap_turn L ep_ok P E s =
     (if bs_status s \<noteq> Booting then s
      else if bo_joined_first E then s\<lparr>bs_status := Joined\<rparr>
      else
        let m = boot_minute (bo_now E) s
        in case fetch_records L P (bo_answer E) m of
             Panic \<Rightarrow> s\<lparr>bs_status := Boot_Panicked\<rparr>
           | Ret records \<Rightarrow>
               if records = {} then boot_publish L P m s
               else if bo_joined_lookup E then s\<lparr>bs_status := Joined\<rparr>
               else
                 let tried = join_loop (bo_join_ok E) (bo_joined_after E) 0 (bo_order E (bootstrap_nodes L ep_ok records));
                     s1 = s\<lparr>bs_joins := bs_joins s @ tried\<rparr>
                 in if bo_joined_last E then s1\<lparr>bs_status := Joined\<rparr> else boot_publish L P m s1)"

definition bootstrap_run :: "gossip_content dht_lib \<Rightarrow> (string \<Rightarrow> bool) \<Rightarrow> record_publisher \<Rightarrow> boot_env list \<Rightarrow> boot_state \<Rightarrow> boot_state" where
  "bootstrap_run L ep_ok P Es s = foldl (\<lambda>s E. bootstrap_turn L ep_ok P E s) s Es"

section \<open>Merging\<close>

definition MAX_JOIN_PEERS_COUNT :: nat where
  "MAX_JOIN_PEERS_COUNT = 5"

definition bubble_targets :: "gossip_content dht_lib \<Rightarrow> (string \<Rightarrow> bool) \<Rightarrow> record_publisher \<Rightarrow> string set \<Rightarrow> d_record \<Rightarrow> string list" where
  "bubble_targets L ep_ok P neighbors r =
     (case record_content L r of
        Some c \<Rightarrow> filter (\<lambda>p. \<not> (p = zero32 \<or> p \<in> neighbors \<or> p = d_pub_key r \<or> p = rp_pub_key P) \<and> ep_ok p) (gc_active_peers c)
      | None \<Rightarrow> [])
     @ (if ep_ok (d_pub_key r) \<and> d_pub_key r \<noteq> rp_pub_key P then [d_pub_key r] else [])"

record merge_env =
  me_now :: int
  me_answer :: dht_answer
  me_order :: "string set \<Rightarrow> string list"
  me_shuffle :: "string list \<Rightarrow> string list"
  me_result :: call_result

text \<open>The result is the list handed to the gossip layer, if any, and the error of the join.\<close>

definition bubble_merge :: "gossip_content dht_lib \<Rightarrow> (string \<Rightarrow> bool) \<Rightarrow> record_publisher \<Rightarrow> merge_env \<Rightarrow> string set
    \<Rightarrow> (string list \<times> (string + unit)) outcome" where
  "bubble_merge L ep_ok P E neighbors =
     bind_outcome (fetch_records L P (me_answer E) (unix_minute (me_now E) 0)) (\<lambda>records.
       if card neighbors < 4 \<and> records \<noteq> {} then
         let node_ids = \<Union> ((\<lambda>r. set (bubble_targets L ep_ok P neighbors r)) ` records)
         in if node_ids \<noteq> {}
            then Ret (sender_join_peers (me_shuffle E) (me_result E) (me_order E node_ids) (Some MAX_JOIN_PEERS_COUNT))
            else Ret ([], Ok ())
       else Ret ([], Ok ()))"

definition overlaps :: "gossip_content dht_lib \<Rightarrow> string list \<Rightarrow> d_record \<Rightarrow> bool" where
  "overlaps L local_hashes r =
     (case record_content L r of
        Some c \<Rightarrow> list_ex (\<lambda>h. h \<noteq> zero32 \<and> h \<in> set local_hashes) (gc_last_message_hashes c)
      | None \<Rightarrow> False)"

definition overlap_merge :: "gossip_content dht_lib \<Rightarrow> (string \<Rightarrow> bool) \<Rightarrow> record_publisher \<Rightarrow> merge_env \<Rightarrow> string list
    \<Rightarrow> (string list \<times> (string + unit)) outcome" where
  "overlap_merge L ep_ok P E local_hashes =
     bind_outcome (fetch_records L P (me_answer E) (unix_minute (me_now E) 0)) (\<lambda>records.
       if local_hashes \<noteq> [] then
         let peers_to_join = {r \<in> records. overlaps L local_hashes r}
         in if peers_to_join \<noteq> {}
            then Ret (sender_join_peers (me_shuffle E) (me_result E)
                   (me_order E (bootstrap_nodes L ep_ok peers_to_join)) (Some MAX_JOIN_PEERS_COUNT))
            else Ret ([], Ok ())
       else Ret ([], Ok ()))"

section \<open>Lemmas\<close>

lemma join_loop_subset: "set (join_loop ok joined i ns) \<subseteq> set ns"
  by (induction ns arbitrary: i) auto

lemma join_loop_all: "(\<And>k. \<not> (ok k \<and> joined k)) \<Longrightarrow> join_loop ok joined i ns = ns"
  by (induction ns arbitrary: i) auto

lemma get_records_finite: "get_records L P answer m = Ret R \<Longrightarrow> finite R"
  by (auto simp: get_records_def bind_outcome_Ret_iff Let_def)

lemma fetch_records_Ret:
  "fetch_records L P answer m = Ret R \<longleftrightarrow>
     (\<exists>R1 R2. get_records L P answer (m - 1) = Ret R1 \<and> get_records L P answer m = Ret R2 \<and> R = R1 \<union> R2)"
  by (auto simp: fetch_records_def bind_outcome_Ret_iff)

text \<open>
  A node id that a lookup of minute \<open>m\<close> vouches for: among the values the DHT answered for \<open>m\<close> or the
  minute before is one that decrypts with the key of the minute to a record of this topic, of just
  that minute and of another publisher, with that publisher's signature over all of it, and the id is
  the record's publisher or one of the peers it lists.
\<close>

definition vouched :: "gossip_content dht_lib \<Rightarrow> record_publisher \<Rightarrow> dht_answer \<Rightarrow> u64 \<Rightarrow> string \<Rightarrow> bool" where
  "vouched L P answer m n \<longleftrightarrow> (\<exists>m' raws raw e r. (m' = m \<or> m' = m - 1)
     \<and> answer (sk_public L (signing_keypair L (rp_topic P) m')) (salt L (rp_topic P) m') = Ok raws \<and> raw \<in> set raws
     \<and> encrypted_from_bytes raw = Ret e \<and> encrypted_decrypt L (rp_encryption_key L P m') e = Ret (Ok r)
     \<and> d_topic r = rp_topic P \<and> d_unix_minute r = m' \<and> d_pub_key r \<noteq> rp_pub_key P
     \<and> vk_verify L (d_pub_key r) (signature_data (rp_topic P) m' (d_pub_key r) (d_content r)) (d_signature r)
     \<and> n \<in> set (record_nodes L r))"

lemma fetched_vouched:
  assumes "fetch_records L P answer m = Ret R" and "r \<in> R" and "n \<in> set (record_nodes L r)"
  shows "vouched L P answer m n"
proof -
  from assms(1,2) obtain m' R' where m': "m' = m \<or> m' = m - 1" and R': "get_records L P answer m' = Ret R'" "r \<in> R'"
    by (auto simp: fetch_records_Ret)
  from get_records_answered [OF R'] get_records_verified [OF R'] m' assms(3) show ?thesis
    unfolding vouched_def by blast
qed

lemma bootstrap_nodes_vouched:
  assumes "fetch_records L P answer m = Ret R" and "S \<subseteq> R" and "n \<in> bootstrap_nodes L ep_ok S"
  shows "ep_ok n \<and> vouched L P answer m n"
  using assms fetched_vouched [OF assms(1)] by (auto simp: bootstrap_nodes_def)

lemma boot_publish_fields [simp]:
  "bs_joins (boot_publish L P m s) = bs_joins s" "bs_status (boot_publish L P m s) = bs_status s"
  by (simp_all add: boot_publish_def)

lemma bootstrap_turn_joins:
  assumes "\<And>S. set (bo_order E S) \<subseteq> S" and "n \<in> set (bs_joins (bootstrap_turn L ep_ok P E s))"
  shows "n \<in> set (bs_joins s) \<or> ep_ok n \<and> vouched L P (bo_answer E) (boot_minute (bo_now E) s) n"
proof (cases "n \<in> set (bs_joins s)")
  case False
  obtain R where R: "fetch_records L P (bo_answer E) (boot_minute (bo_now E) s) = Ret R"
    "n \<in> set (join_loop (bo_join_ok E) (bo_joined_after E) 0 (bo_order E (bootstrap_nodes L ep_ok R)))"
    using assms(2) False
    by (simp add: bootstrap_turn_def Let_def split: outcome.split_asm if_split_asm)
  then have "n \<in> bootstrap_nodes L ep_ok R" using join_loop_subset assms(1) by blast
  with bootstrap_nodes_vouched [OF R(1) subset_refl] show ?thesis by blast
qed simp

lemma bootstrap_run_snoc: "bootstrap_run L ep_ok P (Es @ [E]) s = bootstrap_turn L ep_ok P E (bootstrap_run L ep_ok P Es s)"
  by (simp add: bootstrap_run_def)

lemma bootstrap_run_Nil [simp]: "bootstrap_run L ep_ok P [] s = s"
  by (simp add: bootstrap_run_def)

lemma bootstrap_turn_stopped: "bs_status s \<noteq> Booting \<Longrightarrow> bootstrap_turn L ep_ok P E s = s"
  by (simp add: bootstrap_turn_def)

lemma bootstrap_run_stopped: "bs_status s \<noteq> Booting \<Longrightarrow> bootstrap_run L ep_ok P Es s = s"
  by (induction Es rule: rev_induct) (simp_all add: bootstrap_run_snoc bootstrap_turn_stopped)

section \<open>The minutes of the published records\<close>

definition clock_ok :: "int \<Rightarrow> bool" where
  "clock_ok now \<longleftrightarrow> 120 \<le> now \<and> now < 60 * 2 ^ 63"

lemma uint_unix_minute:
  assumes "clock_ok now" and "d = 0 \<or> d = - 1"
  shows "uint (unix_minute now d) = now div 60 + d"
proof -
  have "0 \<le> now div 60 + d" "now div 60 + d < 2 ^ 64" using assms by (auto simp: clock_ok_def)
  then show ?thesis by (simp only: unix_minute_def uint_word_of_int_eq) (simp add: take_bit_int_eq_self)
qed

definition boot_inv :: "int \<Rightarrow> boot_state \<Rightarrow> bool" where
  "boot_inv now s \<longleftrightarrow> (bs_last_published s = 0 \<longrightarrow> bs_published s = [])
     \<and> sorted_wrt (<) (map d_unix_minute (bs_published s))
     \<and> (\<forall>r \<in> set (bs_published s). d_unix_minute r \<le> bs_last_published s)
     \<and> uint (bs_last_published s) \<le> now div 60"

lemma boot_inv_later: "boot_inv now s \<Longrightarrow> now \<le> now' \<Longrightarrow> boot_inv now' s"
  unfolding boot_inv_def by (meson order_trans zdiv_mono1 zero_less_numeral)

lemma boot_publish_inv:
  assumes "boot_inv now s" and "clock_ok now"
  shows "boot_inv now (boot_publish L P (boot_minute now s) s)"
proof (cases "boot_minute now s = bs_last_published s")
  case True
  with assms show ?thesis by (simp add: boot_publish_def)
next
  case False
  let ?m = "boot_minute now s"
  have u: "uint ?m = now div 60 + (if bs_last_published s = 0 then - 1 else 0)"
    using assms(2) by (simp add: boot_minute_def uint_unix_minute)
  have pos: "2 \<le> now div 60" using assms(2) unfolding clock_ok_def by presburger
  have less: "d_unix_minute r < ?m" if "r \<in> set (bs_published s)" for r
  proof -
    have "bs_last_published s \<noteq> 0" "d_unix_minute r \<le> bs_last_published s"
      using assms(1) that by (auto simp: boot_inv_def)
    moreover from this(1) have "bs_last_published s \<le> ?m" using assms(1) u by (simp add: boot_inv_def word_le_def)
    ultimately show ?thesis using False by simp
  qed
  let ?new = "case record_sign L (rp_topic P) ?m (rp_pub_key P) empty_content (rp_signing_key P) of Some r \<Rightarrow> [r] | None \<Rightarrow> []"
  have "\<forall>r \<in> set ?new. d_unix_minute r = ?m" "length ?new \<le> 1"
    by (auto simp: record_sign_def split: option.splits)
  then have "sorted_wrt (<) (map d_unix_minute (bs_published s @ ?new))"
    using assms(1) less by (auto simp: boot_inv_def sorted_wrt_append record_sign_def split: option.splits)
  moreover have "\<forall>r \<in> set (bs_published s @ ?new). d_unix_minute r \<le> ?m"
    using less \<open>\<forall>r \<in> set ?new. d_unix_minute r = ?m\<close> by (auto simp: order.strict_implies_order)
  moreover have "?m \<noteq> 0" using u pos by (auto split: if_splits)
  moreover have "uint ?m \<le> now div 60" using u by simp
  ultimately show ?thesis using False by (simp add: boot_publish_def boot_inv_def)
qed

lemma bootstrap_turn_inv:
  assumes "boot_inv (bo_now E) s" and "clock_ok (bo_now E)"
  shows "boot_inv (bo_now E) (bootstrap_turn L ep_ok P E s)"
proof -
  have same: "boot_inv (bo_now E) (s\<lparr>bs_status := x\<rparr>)" "boot_inv (bo_now E) (s\<lparr>bs_joins := js\<rparr>)"
    "boot_inv (bo_now E) (s\<lparr>bs_joins := js, bs_status := x\<rparr>)" for x js
    using assms(1) by (simp_all add: boot_inv_def)
  have "boot_minute now (s\<lparr>bs_joins := js\<rparr>) = boot_minute now s" for now js by (simp add: boot_minute_def)
  then have "boot_inv (bo_now E) (boot_publish L P (boot_minute (bo_now E) s) (s\<lparr>bs_joins := js\<rparr>))" for js
    using boot_publish_inv [OF same(2) assms(2)] by simp
  with same boot_publish_inv [OF assms] assms(1) show ?thesis
    by (simp add: bootstrap_turn_def Let_def split: outcome.split)
qed

lemma bootstrap_run_inv:
  assumes "boot_inv now s" and "sorted (now # map bo_now Es)" and "list_all (\<lambda>E. clock_ok (bo_now E)) Es"
  shows "\<exists>t. boot_inv t (bootstrap_run L ep_ok P Es s)"
  using assms
proof (induction Es arbitrary: now s)
  case (Cons E Es)
  then have "boot_inv (bo_now E) (bootstrap_turn L ep_ok P E s)"
    by (auto intro!: bootstrap_turn_inv intro: boot_inv_later [OF Cons.prems(1)])
  moreover have "sorted (bo_now E # map bo_now Es)" "list_all (\<lambda>E. clock_ok (bo_now E)) Es" using Cons.prems by simp_all
  ultimately have "\<exists>t. boot_inv t (bootstrap_run L ep_ok P Es (bootstrap_turn L ep_ok P E s))" by (rule Cons.IH)
  then show ?case by (simp add: bootstrap_run_def)
qed auto

text \<open>A newcomer that shares topic, secret and rotation with a member finds the record of the member.\<close>

lemma newcomer_tries:
  assumes "dht_lib_ok L" and "rp_topic Q = rp_topic P" and "rp_rotation Q = rp_rotation P"
    and "rp_initial_secret_hash Q = rp_initial_secret_hash P" and "rp_pub_key Q \<noteq> rp_pub_key P"
    and "length (rp_topic P) = 32" and "length (rp_signing_key P) = 32"
    and "rp_pub_key P = sk_public L (rp_signing_key P)"
    and "length (rp_encryption_key L P m) = 32" and "length (pu_one_time_key X) = 32"
    and "new_record L P m c = Some r" and "publish_record L P X r = Ret (items, res)"
    and "it \<in> set items" and "length (mi_value it) < 2 ^ 32"
    and "bo_answer E (mi_key it) (mi_salt it) = Ok [mi_value it]"
    and "boot_minute (bo_now E) s = m \<and> get_records L Q (bo_answer E) (m - 1) = Ret R
       \<or> boot_minute (bo_now E) s = m + 1 \<and> get_records L Q (bo_answer E) (m + 1) = Ret R"
    and "bs_status s = Booting" and "\<not> bo_joined_first E" and "\<not> bo_joined_lookup E"
    and "\<And>k. \<not> (bo_join_ok E k \<and> bo_joined_after E k)"
    and "\<And>S. finite S \<Longrightarrow> set (bo_order E S) = S" and "ep_ok (rp_pub_key P)"
  shows "rp_pub_key P \<in> set (bs_joins (bootstrap_turn L ep_ok Q E s))"
proof -
  have "get_records L Q (bo_answer E) m = Ret {r}"
    using publish_get_records [of L Q P m X c r items res it "bo_answer E"] assms(1-15) by blast
  moreover have "d_pub_key r = rp_pub_key P" using new_record_verifies [OF assms(1,11,6,7,8)] by simp
  ultimately obtain R' where R': "fetch_records L Q (bo_answer E) (boot_minute (bo_now E) s) = Ret R'" "r \<in> R'"
    using assms(16) by (auto simp: fetch_records_Ret)
  have "finite R'" using R'(1) by (auto simp: fetch_records_Ret dest: get_records_finite)
  then have "set (bo_order E (bootstrap_nodes L ep_ok R')) = bootstrap_nodes L ep_ok R'"
    by (intro assms(21)) (auto simp: bootstrap_nodes_def)
  moreover have "rp_pub_key P \<in> bootstrap_nodes L ep_ok R'"
    using R'(2) \<open>d_pub_key r = rp_pub_key P\<close> assms(22) by (auto simp: bootstrap_nodes_def record_nodes_def intro!: bexI [of _ r])
  ultimately show ?thesis
    using R' assms(17-19) join_loop_all [OF assms(20)] by (auto simp: bootstrap_turn_def Let_def)
qed

section \<open>An instance for the witnesses\<close>

definition demo_topic_lib :: "gossip_content dht_lib" where
  "demo_topic_lib = \<lparr>sha512 = (\<lambda>m. take 64 (m @ replicate 64 (CHR ''0''))), sk_public = id,
     sk_sign = (\<lambda>k m. replicate 64 (CHR ''s'')), vk_ok = (\<lambda>_. True), vk_verify = (\<lambda>k m s. True),
     hpke_encrypt = (\<lambda>r k m. Some m), hpke_decrypt = (\<lambda>k c. Some c),
     pc_encode = (\<lambda>c. if c = empty_content then Some ''e'' else None),
     pc_decode = (\<lambda>b. if b = ''e'' then Some empty_content else None)\<rparr>"

lemma demo_topic_lib_ok: "dht_lib_ok demo_topic_lib"
  by (auto simp: dht_lib_ok_def demo_topic_lib_def)

lemma demo_topic_hash: "hash32 demo_topic_lib = hash32 demo_dht_lib"
  by (simp add: fun_eq_iff hash32_def demo_topic_lib_def demo_dht_lib_def)

lemma demo_topic_keys:
  "length (rp_encryption_key demo_topic_lib (demo_publisher ch) m) = 32"
  by (simp add: rp_encryption_key_def encryption_keypair_def default_derive_def demo_publisher_keys
      hash32_length [OF demo_topic_lib_ok])

definition demo_t_record :: d_record where
  "demo_t_record = demo_record\<lparr>d_content := ''e''\<rparr>"

definition demo_t_value :: string where
  "demo_t_value = encrypted_to_bytes \<lparr>e_record = record_to_bytes demo_t_record, e_decryption_key = replicate 32 (CHR ''o'')\<rparr>"

definition demo_t_item :: mutable_item where
  "demo_t_item = \<lparr>mi_key = signing_keypair demo_topic_lib (record_topic_from_str demo_dht_lib TOPIC_STRING) 7,
     mi_salt = salt demo_topic_lib (record_topic_from_str demo_dht_lib TOPIC_STRING) 7, mi_value = demo_t_value, mi_seq = 5\<rparr>"

lemma demo_t_record_wf: "record_wf demo_t_record"
  by (simp add: record_wf_def demo_t_record_def demo_record_def demo_publisher_keys)

lemma demo_t_new_record: "new_record demo_topic_lib (demo_publisher (CHR ''p'')) 7 empty_content = Some demo_t_record"
  by (simp add: new_record_def record_sign_def demo_publisher_keys demo_record_def demo_t_record_def) (simp add: demo_topic_lib_def)

lemma demo_t_bytes: "length (record_to_bytes demo_t_record) = 137"
  by (simp add: record_to_bytes_def demo_t_record_def demo_record_def demo_publisher_keys)

lemma demo_t_publish:
  "publish_record demo_topic_lib (demo_publisher (CHR ''p'')) demo_publish_env demo_t_record = Ret ([demo_t_item, demo_t_item], Ok ())"
proof -
  let ?P = "demo_publisher (CHR ''p'')"
  have "get_records demo_topic_lib ?P (pu_answer demo_publish_env) 7 = Ret {}"
    by (simp add: get_records_def demo_publish_env_def List.map_filter_simps)
  moreover have "record_encrypt demo_topic_lib (pu_one_time_key demo_publish_env) a b k demo_t_record
      = Ret \<lparr>e_record = record_to_bytes demo_t_record, e_decryption_key = replicate 32 (CHR ''o'')\<rparr>" for a b k
    by (simp add: record_encrypt_def demo_topic_lib_def demo_publish_env_def)
  moreover have "d_unix_minute demo_t_record = 7" by (simp add: demo_t_record_def demo_record_def)
  ultimately show ?thesis
    by (simp add: publish_record_def MAX_BOOTSTRAP_RECORDS_def put_mutable_def put_loop.simps demo_publish_env_def
        demo_t_item_def demo_t_value_def demo_publisher_keys Let_def)
      (simp add: demo_topic_lib_def)
qed

lemma demo_t_get_records:
  "get_records demo_topic_lib (demo_publisher (CHR ''q'')) (\<lambda>k s. Ok [demo_t_value]) m = Ret (if m = 7 then {demo_t_record} else {})"
proof -
  let ?e = "\<lparr>e_record = record_to_bytes demo_t_record, e_decryption_key = replicate 32 (CHR ''o'')\<rparr>"
  have "encrypted_from_bytes demo_t_value = Ret ?e"
    unfolding demo_t_value_def by (rule encrypted_from_to_bytes) (simp add: demo_t_bytes)
  moreover have "encrypted_decrypt demo_topic_lib k ?e = Ret (Ok demo_t_record)" for k
    using record_from_to_bytes [OF demo_t_record_wf] by (simp add: encrypted_decrypt_def) (simp add: demo_topic_lib_def)
  moreover have "record_verify demo_topic_lib (record_topic_from_str demo_dht_lib TOPIC_STRING) m demo_t_record
      = (if m = 7 then Ok () else Err ''unix minute mismatch'')"
    by (simp add: record_verify_def demo_t_record_def demo_record_def Let_def) (simp add: demo_topic_lib_def)
  ultimately show ?thesis
    by (simp add: get_records_def verified_record_def demo_publisher_keys List.map_filter_simps)
      (simp add: demo_record_def demo_t_record_def)
qed

definition demo_boot_env :: "string list \<Rightarrow> int \<Rightarrow> boot_env" where
  "demo_boot_env raws now = \<lparr>bo_joined_first = False, bo_joined_lookup = False, bo_joined_after = (\<lambda>_. False), bo_joined_last = True,
     bo_join_ok = (\<lambda>_. True), bo_now = now, bo_answer = (\<lambda>_ _. Ok raws),
     bo_order = (\<lambda>S. if finite S then sorted_list_of_set S else [])\<rparr>"

lemma demo_boot_minute: "boot_minute 480 boot_start = 7"
  by (simp add: boot_minute_def unix_minute_def boot_start_def)

lemma demo_boot_joins:
  "bs_joins (bootstrap_turn demo_topic_lib (\<lambda>_. True) (demo_publisher (CHR ''q'')) (demo_boot_env [demo_t_value] 480) boot_start)
     = [replicate 32 (CHR ''p'')]"
proof -
  have "record_content demo_topic_lib demo_t_record = Some empty_content"
    by (simp add: record_content_def demo_t_record_def) (simp add: demo_topic_lib_def)
  then have "record_nodes demo_topic_lib demo_t_record = [replicate 32 (CHR ''p'')]"
    by (simp add: record_nodes_def empty_content_def) (simp add: demo_t_record_def demo_record_def)
  then have "bootstrap_nodes demo_topic_lib (\<lambda>_. True) {demo_t_record} = {replicate 32 (CHR ''p'')}"
    by (simp add: bootstrap_nodes_def)
  moreover have "fetch_records demo_topic_lib (demo_publisher (CHR ''q'')) (\<lambda>k s. Ok [demo_t_value]) 7 = Ret {demo_t_record}"
    by (simp add: fetch_records_def demo_t_get_records)
  ultimately show ?thesis
    by (simp add: bootstrap_turn_def demo_boot_env_def demo_boot_minute Let_def) (simp add: boot_start_def)
qed

section \<open>Properties\<close>

text \<open>C24. Bootstrap joins only nodes that are vouched for: every node id it tries parses as an endpoint, and
  in one of the turns of the run the DHT answered, for one of the two minutes looked up then, a
  value that decrypts to a record of this topic and just that minute by another publisher, correctly
  signed, and the id is that publisher or one of the peers the record lists.\<close>

theorem bootstrap_joins_only_vouched:
  assumes "\<And>E S. E \<in> set Es \<Longrightarrow> set (bo_order E S) \<subseteq> S"
    and "n \<in> set (bs_joins (bootstrap_run L ep_ok P Es boot_start))"
  shows "ep_ok n \<and> (\<exists>Es1 E Es2. Es = Es1 @ E # Es2
    \<and> vouched L P (bo_answer E) (boot_minute (bo_now E) (bootstrap_run L ep_ok P Es1 boot_start)) n)"
  using assms
proof (induction Es rule: rev_induct)
  case Nil
  then show ?case by (simp add: boot_start_def)
next
  case (snoc E Es)
  let ?s = "bootstrap_run L ep_ok P Es boot_start"
  have "n \<in> set (bs_joins ?s) \<or> ep_ok n \<and> vouched L P (bo_answer E) (boot_minute (bo_now E) ?s) n"
    using snoc.prems by (intro bootstrap_turn_joins [of E]) (simp_all add: bootstrap_run_snoc)
  then show ?case
  proof
    assume "n \<in> set (bs_joins ?s)"
    with snoc show ?thesis by fastforce
  qed blast
qed

theorem bootstrap_joins_only_vouched_witness:
  "vouched demo_topic_lib (demo_publisher (CHR ''q'')) (\<lambda>_ _. Ok [demo_t_value]) 7 (replicate 32 (CHR ''p''))"
proof -
  let ?E = "demo_boot_env [demo_t_value] 480"
  have sub: "set (bo_order E S) \<subseteq> S" if "E \<in> set [?E]" for E S using that by (auto simp: demo_boot_env_def)
  have joined: "replicate 32 (CHR ''p'') \<in> set (bs_joins (bootstrap_run demo_topic_lib (\<lambda>_. True) (demo_publisher (CHR ''q'')) [?E] boot_start))"
    using demo_boot_joins by (simp add: bootstrap_run_def)
  from bootstrap_joins_only_vouched [OF sub joined] obtain Es1 E Es2 where E: "[?E] = Es1 @ E # Es2" and v: "vouched demo_topic_lib (demo_publisher (CHR ''q'')) (bo_answer E)
      (boot_minute (bo_now E) (bootstrap_run demo_topic_lib (\<lambda>_. True) (demo_publisher (CHR ''q'')) Es1 boot_start)) (replicate 32 (CHR ''p''))"
    by blast
  from E have at: "Es1 = []" "E = ?E" by (auto simp: Cons_eq_append_conv)
  have "bo_now ?E = 480" "bo_answer ?E = (\<lambda>_ _. Ok [demo_t_value])" by (simp_all add: demo_boot_env_def)
  with v show ?thesis by (simp only: at bootstrap_run_Nil demo_boot_minute)
qed

text \<open>Bootstrap is a good citizen of the DHT: while the clock does not run backwards, the minutes of the
  records it publishes are strictly increasing, at most one record a minute.\<close>

theorem bootstrap_publishes_once_per_minute:
  assumes "sorted (map bo_now Es)" and "list_all (\<lambda>E. clock_ok (bo_now E)) Es"
  shows "sorted_wrt (<) (map d_unix_minute (bs_published (bootstrap_run L ep_ok P Es boot_start)))"
proof -
  have "boot_inv 0 boot_start" by (simp add: boot_inv_def boot_start_def)
  moreover have "sorted (0 # map bo_now Es)" using assms by (auto simp: list_all_iff clock_ok_def)
  ultimately obtain t where "boot_inv t (bootstrap_run L ep_ok P Es boot_start)"
    using bootstrap_run_inv assms(2) by blast
  then show ?thesis by (simp add: boot_inv_def)
qed

theorem bootstrap_publishes_once_per_minute_witness:
  "sorted_wrt (<) (map d_unix_minute (bs_published (bootstrap_run demo_topic_lib (\<lambda>_. True) (demo_publisher (CHR ''q''))
     [(demo_boot_env [] 480), (demo_boot_env [] 481), (demo_boot_env [] 545)] boot_start)))"
  by (rule bootstrap_publishes_once_per_minute) (simp_all add: demo_boot_env_def clock_ok_def)

text \<open>C40. One malformed value in the DHT ends the bootstrap: when the lookup of a turn finds a value of fewer
  than four bytes, the task panics, and in whatever turns follow it joins nobody and publishes
  nothing.\<close>

theorem malformed_value_stops_bootstrap:
  assumes "bo_answer E (sk_public L (signing_keypair L (rp_topic P) m)) (salt L (rp_topic P) m) = Ok raws"
    and "raw \<in> set raws" and "length raw < 4" and "m = boot_minute (bo_now E) s"
    and "bs_status s = Booting" and "\<not> bo_joined_first E"
  shows "bootstrap_run L ep_ok P (E # Es) s = s\<lparr>bs_status := Boot_Panicked\<rparr>"
proof -
  have "get_records L P (bo_answer E) m = Panic" using get_records_Panic [of "bo_answer E", OF assms(1)] assms(2,3) by auto
  then have "fetch_records L P (bo_answer E) m = Panic"
    by (cases "get_records L P (bo_answer E) (m - 1)") (simp_all add: fetch_records_def)
  then have "bootstrap_turn L ep_ok P E s = s\<lparr>bs_status := Boot_Panicked\<rparr>"
    using assms(4-6) by (simp add: bootstrap_turn_def Let_def)
  moreover have "bootstrap_run L ep_ok P (E # Es) s = bootstrap_run L ep_ok P Es (bootstrap_turn L ep_ok P E s)"
    by (simp add: bootstrap_run_def)
  ultimately show ?thesis by (simp add: bootstrap_run_stopped)
qed

theorem malformed_value_stops_bootstrap_witness:
  "bs_published (bootstrap_run demo_topic_lib (\<lambda>_. True) (demo_publisher (CHR ''q''))
     [(demo_boot_env [''abc''] 480), (demo_boot_env [] 540)] boot_start) = []"
proof -
  let ?E = "demo_boot_env [''abc''] 480" and ?P = "demo_publisher (CHR ''q'')"
  have "bootstrap_run demo_topic_lib (\<lambda>_. True) ?P [?E, demo_boot_env [] 540] boot_start = boot_start\<lparr>bs_status := Boot_Panicked\<rparr>"
    by (rule malformed_value_stops_bootstrap [where raws = "[''abc'']" and raw = "''abc''"])
      (simp_all add: demo_boot_env_def boot_start_def)
  then show ?thesis by (simp add: boot_start_def)
qed


definition demo_merge_env :: merge_env where
  "demo_merge_env = \<lparr>me_now = 420, me_answer = (\<lambda>_ _. Ok [demo_t_value]), me_order = (\<lambda>S. if finite S then sorted_list_of_set S else []),
     me_shuffle = rev, me_result = Call_Ok\<rparr>"


text \<open>Split-brain detection is blind on a node whose consumer keeps up: after any number of messages, each
  asked for before it arrived, the overlap merge has no local hash to compare and joins nobody,
  whatever the DHT answers.\<close>

theorem prompt_consumer_never_merges:
  "overlap_merge L ep_ok P E
     (gr_hashes (gr_run L (concat (map (\<lambda>(w, e). [Next w, Stream (Raw_Ok e)]) wes)))) \<in> {Ret ([], Ok ()), Panic}"
proof -
  have "overlap_merge L ep_ok P E [] \<in> {Ret ([], Ok ()), Panic}"
    by (cases "fetch_records L P (me_answer E) (unix_minute (me_now E) 0)") (simp_all add: overlap_merge_def)
  then show ?thesis by (simp only: prompt_consumer_records_no_hashes)
qed

end
