(* ===== verification/Topic_Tasks.thy ===== *)
theory Topic_Tasks
  imports Dht_Topic
begin

text \<open>
  The actors behind a joined topic (\<^verbatim>\<open>dtt-fork/src/gossip/topic/topic.rs\<close>, the run loops of
  \<^verbatim>\<open>publisher.rs\<close>, \<^verbatim>\<open>bubble.rs\<close> and \<^verbatim>\<open>message_overlap.rs\<close>, the client actor of \<^verbatim>\<open>dht.rs\<close>). A periodic actor
  waits for its interval, runs its job and resets the interval to a random wait after the end of the
  job; the first tick is due at once. Times are milliseconds. The pace such an actor keeps is the
  locale \<open>paced_actor\<close>.
\<close>

section \<open>Interface: a paced actor\<close>

locale paced_actor =
  fixes turn :: "'e \<Rightarrow> 's \<Rightarrow> 's"
    and due :: "'s \<Rightarrow> nat"
    and fired :: "'s \<Rightarrow> nat list"
    and now :: "'e \<Rightarrow> nat"
    and env_ok :: "'e \<Rightarrow> bool"
    and gap :: nat
  assumes turn_cases: "env_ok e \<Longrightarrow> (due (turn e s) = due s \<and> fired (turn e s) = fired s)
      \<or> (fired (turn e s) = fired s @ [now e] \<and> due s \<le> now e \<and> now e + gap \<le> due (turn e s))"
begin

definition kept :: "'s \<Rightarrow> bool" where
  "kept s \<longleftrightarrow> successively (\<lambda>a b. a + gap \<le> b) (fired s) \<and> (fired s \<noteq> [] \<longrightarrow> last (fired s) + gap \<le> due s)"

lemma kept_turn: "env_ok e \<Longrightarrow> kept s \<Longrightarrow> kept (turn e s)"
  using turn_cases [of e s] by (auto simp: kept_def successively_append_iff)

lemma kept_turns: "list_all env_ok es \<Longrightarrow> kept s \<Longrightarrow> kept (turns turn es s)"
  by (induction es arbitrary: s) (simp_all add: kept_turn)

lemma paced: "list_all env_ok es \<Longrightarrow> fired s = [] \<Longrightarrow> successively (\<lambda>a b. a + gap \<le> b) (fired (turns turn es s))"
  using kept_turns [of es s] by (simp add: kept_def)

end

section \<open>Intervals\<close>

record ticker =
  tk_due :: nat
  tk_fired :: "nat list"
  tk_dead :: bool

text \<open>When the tick is served, when its job ends, and the random number drawn then.\<close>

record ticker_env =
  te_now :: nat
  te_done :: nat
  te_rand :: u64

definition env_in_order :: "('z) ticker_env_scheme \<Rightarrow> bool" where
  "env_in_order E \<longleftrightarrow> te_now E \<le> te_done E"

definition reset_after :: "(u64 \<Rightarrow> u64) \<Rightarrow> 'e ticker_env_scheme \<Rightarrow> 'z ticker_scheme \<Rightarrow> 'z ticker_scheme" where
  "reset_after wait E s =
     s\<lparr>tk_due := te_done E + 1000 * unat (wait (te_rand E)), tk_fired := tk_fired s @ [te_now E]\<rparr>"

definition publisher_wait :: "u64 \<Rightarrow> u64" where
  "publisher_wait r = r mod 50"

definition merge_wait :: "u64 \<Rightarrow> u64" where
  "merge_wait r = 60 + r mod 120"

section \<open>The publisher actor\<close>

record publisher_actor = ticker +
  pa_records :: "(u64 \<times> mutable_item list \<times> (string + unit)) list"

record publisher_env = ticker_env +
  pn_publish :: publish_env
  pn_neighbors :: "string list"
  pn_hashes :: "string list"

definition seconds :: "nat \<Rightarrow> int" where
  "seconds t = int (t div 1000)"

definition publisher_turn :: "gossip_content dht_lib \<Rightarrow> record_publisher \<Rightarrow> publisher_env \<Rightarrow> publisher_actor \<Rightarrow> publisher_actor" where
  "publisher_turn L P E s =
     (if tk_dead s \<or> te_now E < tk_due s then s
      else (case publisher_publish L P (pn_publish E) (seconds (te_now E)) (pn_neighbors E) (pn_hashes E) of
              Panic \<Rightarrow> s\<lparr>tk_dead := True\<rparr>
            | Ret (items, res) \<Rightarrow>
                (reset_after publisher_wait E s)\<lparr>pa_records := pa_records s @ [(unix_minute (seconds (te_now E)) 0, items, res)]\<rparr>))"

definition publisher_new :: "nat \<Rightarrow> publisher_actor" where
  "publisher_new t = \<lparr>tk_due = t, tk_fired = [], tk_dead = False, pa_records = []\<rparr>"

section \<open>The merge actors\<close>

text \<open>What each merge handed to the gossip layer.\<close>

record merge_actor = ticker +
  ma_joins :: "(string list \<times> (string + unit)) list"

record merge_turn_env = ticker_env +
  mt_env :: merge_env
  mt_neighbors :: "string set"
  mt_hashes :: "string list"

definition merge_turn :: "(merge_turn_env \<Rightarrow> (string list \<times> (string + unit)) outcome) \<Rightarrow> merge_turn_env \<Rightarrow> merge_actor \<Rightarrow> merge_actor" where
  "merge_turn job E s =
     (if tk_dead s \<or> te_now E < tk_due s then s
      else (case job E of
              Panic \<Rightarrow> s\<lparr>tk_dead := True\<rparr>
            | Ret r \<Rightarrow> (reset_after merge_wait E s)\<lparr>ma_joins := ma_joins s @ [r]\<rparr>))"

definition bubble_turn :: "gossip_content dht_lib \<Rightarrow> (string \<Rightarrow> bool) \<Rightarrow> record_publisher \<Rightarrow> merge_turn_env \<Rightarrow> merge_actor \<Rightarrow> merge_actor" where
  "bubble_turn L ep_ok P =
     merge_turn (\<lambda>E. bubble_merge L ep_ok P ((mt_env E)\<lparr>me_now := seconds (te_now E)\<rparr>) (mt_neighbors E))"

definition overlap_turn :: "gossip_content dht_lib \<Rightarrow> (string \<Rightarrow> bool) \<Rightarrow> record_publisher \<Rightarrow> merge_turn_env \<Rightarrow> merge_actor \<Rightarrow> merge_actor" where
  "overlap_turn L ep_ok P =
     merge_turn (\<lambda>E. overlap_merge L ep_ok P ((mt_env E)\<lparr>me_now := seconds (te_now E)\<rparr>) (mt_hashes E))"

definition merge_new :: "nat \<Rightarrow> merge_actor" where
  "merge_new t = \<lparr>tk_due = t, tk_fired = [], tk_dead = False, ma_joins = []\<rparr>"

section \<open>The topic actor\<close>

record topic_actor =
  ta_publisher :: "publisher_actor option"
  ta_bubble_merge :: "merge_actor option"
  ta_message_overlap_merge :: "merge_actor option"

text \<open>\<open>alive\<close>: the bootstrap actor, asked for its sender and receiver, answers.\<close>

definition start_publishing :: "bool \<Rightarrow> nat \<Rightarrow> topic_actor \<Rightarrow> topic_actor \<times> (string + unit)" where
  "start_publishing alive t a = (if alive then (a\<lparr>ta_publisher := Some (publisher_new t)\<rparr>, Ok ()) else (a, Err ''bootstrap''))"

definition start_bubble_merge :: "bool \<Rightarrow> nat \<Rightarrow> topic_actor \<Rightarrow> topic_actor \<times> (string + unit)" where
  "start_bubble_merge alive t a = (if alive then (a\<lparr>ta_bubble_merge := Some (merge_new t)\<rparr>, Ok ()) else (a, Err ''bootstrap''))"

definition start_message_overlap_merge :: "bool \<Rightarrow> nat \<Rightarrow> topic_actor \<Rightarrow> topic_actor \<times> (string + unit)" where
  "start_message_overlap_merge alive t a =
     (if alive then (a\<lparr>ta_message_overlap_merge := Some (merge_new t)\<rparr>, Ok ()) else (a, Err ''bootstrap''))"

text \<open>The results of the subscription, of starting the bootstrap and of its completion signal, whether the
  bootstrap actor answers afterwards, and the time when the tasks start.\<close>

record topic_env =
  to_subscribed :: bool
  to_started :: bool
  to_done :: bool
  to_alive :: bool
  to_time :: nat

definition topic_new :: "topic_env \<Rightarrow> bool \<Rightarrow> bool \<Rightarrow> string + topic_actor" where
  "topic_new T async_bootstrap skip_merge_actors =
     (if \<not> to_subscribed T then Err ''subscribe''
      else if \<not> to_started T then Err ''bootstrap''
      else if \<not> async_bootstrap \<and> \<not> to_done T then Err ''channel closed''
      else
        let a0 = \<lparr>ta_publisher = None, ta_bubble_merge = None, ta_message_overlap_merge = None\<rparr>;
            a1 = fst (start_publishing (to_alive T) (to_time T) a0)
        in if skip_merge_actors then Ok a1
           else Ok (fst (start_message_overlap_merge (to_alive T) (to_time T)
                     (fst (start_bubble_merge (to_alive T) (to_time T) a1)))))"

definition subscribe_and_join_with_auto_discovery :: "topic_env \<Rightarrow> string + topic_actor" where
  "subscribe_and_join_with_auto_discovery T = topic_new T False False"

definition subscribe_and_join_with_auto_discovery_no_wait :: "topic_env \<Rightarrow> string + topic_actor" where
  "subscribe_and_join_with_auto_discovery_no_wait T = topic_new T True False"

definition subscribe_and_join_bootstrap_only :: "topic_env \<Rightarrow> string + topic_actor" where
  "subscribe_and_join_bootstrap_only T = topic_new T True True"

text \<open>\<^verbatim>\<open>split\<close>: the sender and the receiver of the bootstrap actor.\<close>

definition topic_split :: "bool \<Rightarrow> string + unit" where
  "topic_split alive = (if alive then Ok () else Err ''actor stopped'')"

section \<open>The DHT client actor\<close>

text \<open>Whether there is a client; \<open>built\<close> is the result of building one, \<open>answer\<close> that of the lookup
  (\<open>None\<close> for a timeout).\<close>

definition dht_reset :: "bool \<Rightarrow> bool \<Rightarrow> bool \<times> (string + unit)" where
  "dht_reset built up = (if built then (True, Ok ()) else (up, Err ''build''))"

definition dht_get :: "bool \<Rightarrow> string list option \<Rightarrow> bool \<Rightarrow> bool \<times> (string + string list)" where
  "dht_get built answer up =
     (let (up1, r) = (if up then (up, Ok ()) else dht_reset built up)
      in case r of
           Inl e \<Rightarrow> (up1, Err e)
         | Inr _ \<Rightarrow> (up1, case answer of None \<Rightarrow> Err ''timeout'' | Some items \<Rightarrow> Ok items))"

section \<open>Pace\<close>

lemma publisher_wait_bound: "unat (publisher_wait r) \<le> 49"
proof -
  have "unat (publisher_wait r) = unat r mod 50" by (simp add: publisher_wait_def unat_mod)
  then show ?thesis by simp
qed

lemma merge_wait_bounds: "60 \<le> unat (merge_wait r) \<and> unat (merge_wait r) < 180"
proof -
  have "unat (r mod 120) < 120" by (simp add: unat_mod)
  then have "unat (merge_wait r) = 60 + unat (r mod 120)" by (simp add: merge_wait_def unat_word_ariths)
  with \<open>unat (r mod 120) < 120\<close> show ?thesis by simp
qed

interpretation publishing: paced_actor "publisher_turn L P" tk_due tk_fired te_now env_in_order 0 for L P
proof
  fix e :: publisher_env and s :: publisher_actor
  assume "env_in_order e"
  then show "(tk_due (publisher_turn L P e s) = tk_due s \<and> tk_fired (publisher_turn L P e s) = tk_fired s)
    \<or> (tk_fired (publisher_turn L P e s) = tk_fired s @ [te_now e] \<and> tk_due s \<le> te_now e
        \<and> te_now e + 0 \<le> tk_due (publisher_turn L P e s))"
    by (simp add: publisher_turn_def reset_after_def env_in_order_def split: outcome.split)
qed

interpretation merging: paced_actor "merge_turn job" tk_due tk_fired te_now env_in_order 60000
  for job :: "merge_turn_env \<Rightarrow> (string list \<times> (string + unit)) outcome"
proof
  fix e :: merge_turn_env and s :: merge_actor
  assume "env_in_order e"
  then have "te_now e + 60000 \<le> te_done e + 1000 * unat (merge_wait (te_rand e))"
    using merge_wait_bounds [of "te_rand e"] by (simp add: env_in_order_def)
  then show "(tk_due (merge_turn job e s) = tk_due s \<and> tk_fired (merge_turn job e s) = tk_fired s)
    \<or> (tk_fired (merge_turn job e s) = tk_fired s @ [te_now e] \<and> tk_due s \<le> te_now e
        \<and> te_now e + 60000 \<le> tk_due (merge_turn job e s))"
    by (simp add: merge_turn_def reset_after_def split: outcome.split)
qed

lemma merge_turns_joins:
  assumes "\<And>E r. job E = Ret r \<Longrightarrow> Q r" and "list_all Q (ma_joins s)"
  shows "list_all Q (ma_joins (turns (merge_turn job) Es s))"
  using assms(2)
proof (induction Es arbitrary: s)
  case (Cons E Es)
  have "list_all Q (ma_joins (merge_turn job E s))"
    using Cons.prems assms(1) by (simp add: merge_turn_def reset_after_def split: outcome.split)
  with Cons.IH show ?case by simp
qed simp

lemma length_join_peers: "length (fst (sender_join_peers f r ids (Some n))) \<le> n"
  by (simp add: sender_join_peers_def chosen_peers_def Let_def)

lemma merges_join_few:
  "bubble_merge L ep_ok P E ns = Ret (ids, res) \<Longrightarrow> length ids \<le> 5"
  "overlap_merge L ep_ok P E hs = Ret (ids, res) \<Longrightarrow> length ids \<le> 5"
proof -
  have few: "sender_join_peers f r xs (Some MAX_JOIN_PEERS_COUNT) = (ids, res) \<Longrightarrow> length ids \<le> 5" for f r xs
    using length_join_peers [of f r xs MAX_JOIN_PEERS_COUNT] by (simp add: MAX_JOIN_PEERS_COUNT_def)
  show "bubble_merge L ep_ok P E ns = Ret (ids, res) \<Longrightarrow> length ids \<le> 5"
    using few by (auto simp: bubble_merge_def bind_outcome_Ret_iff Let_def split: if_split_asm)
  show "overlap_merge L ep_ok P E hs = Ret (ids, res) \<Longrightarrow> length ids \<le> 5"
    using few by (auto simp: overlap_merge_def bind_outcome_Ret_iff Let_def split: if_split_asm)
qed

text \<open>The publisher's ticks are served when due and its jobs take at most \<open>d\<close> milliseconds.\<close>

fun on_time :: "nat \<Rightarrow> nat \<Rightarrow> publisher_env list \<Rightarrow> bool" where
  "on_time d due [] = True"
| "on_time d due (E # Es) \<longleftrightarrow>
     te_now E = due \<and> te_now E \<le> te_done E \<and> te_done E \<le> te_now E + d
     \<and> on_time d (te_done E + 1000 * unat (publisher_wait (te_rand E))) Es"

lemma publisher_turns_dead: "tk_dead s \<Longrightarrow> turns (publisher_turn L P) Es s = s"
  by (induction Es) (simp_all add: publisher_turn_def)

lemma publisher_turn_keeps: "set (pa_records s) \<subseteq> set (pa_records (publisher_turn L P E s))"
  by (auto simp: publisher_turn_def reset_after_def split: outcome.split)

lemma publisher_turns_keep: "set (pa_records s) \<subseteq> set (pa_records (turns (publisher_turn L P) Es s))"
proof (induction Es arbitrary: s)
  case (Cons E Es)
  show ?case using publisher_turn_keeps [of s L P E] Cons.IH [of "publisher_turn L P E s"] by simp
qed simp

lemma on_time_publishes:
  assumes "on_time d (tk_due s) Es" and "\<not> tk_dead (turns (publisher_turn L P) Es s)" and "E \<in> set Es"
  shows "\<exists>items res. publisher_publish L P (pn_publish E) (seconds (te_now E)) (pn_neighbors E) (pn_hashes E) = Ret (items, res)
    \<and> (unix_minute (seconds (te_now E)) 0, items, res) \<in> set (pa_records (turns (publisher_turn L P) Es s))"
  using assms
proof (induction Es arbitrary: s)
  case (Cons F Es)
  let ?s = "publisher_turn L P F s"
  have "\<not> tk_dead ?s" using Cons.prems(2) publisher_turns_dead [of ?s L P Es] by auto
  moreover from this have "\<not> tk_dead s" by (auto simp: publisher_turn_def)
  ultimately obtain items res where F: "publisher_publish L P (pn_publish F) (seconds (te_now F)) (pn_neighbors F) (pn_hashes F) = Ret (items, res)"
    "?s = (reset_after publisher_wait F s)\<lparr>pa_records := pa_records s @ [(unix_minute (seconds (te_now F)) 0, items, res)]\<rparr>"
    using Cons.prems(1) by (auto simp: publisher_turn_def split: outcome.split_asm)
  show ?case
  proof (cases "E = F")
    case True
    have "(unix_minute (seconds (te_now F)) 0, items, res) \<in> set (pa_records ?s)" by (simp add: F(2))
    then have "(unix_minute (seconds (te_now F)) 0, items, res) \<in> set (pa_records (turns (publisher_turn L P) Es ?s))"
      using publisher_turns_keep by blast
    with True F(1) show ?thesis by auto
  next
    case False
    have "on_time d (tk_due ?s) Es" using Cons.prems(1) by (simp add: F(2) reset_after_def)
    with Cons.IH [of ?s] Cons.prems(2,3) False show ?thesis by auto
  qed
qed simp

lemma on_time_cover:
  assumes "on_time d due Es" and "Es \<noteq> []" and "te_done (hd Es) \<le> T" and "T \<le> te_done (last Es)"
  shows "\<exists>E \<in> set Es. te_now E \<le> T \<and> te_done E \<le> T \<and> T \<le> te_now E + 2 * d + 49000"
  using assms
proof (induction Es arbitrary: due)
  case (Cons E Es)
  show ?case
  proof (cases "Es = [] \<or> T < te_done (hd Es)")
    case True
    then have "T \<le> te_now E + 2 * d + 49000"
      using Cons.prems publisher_wait_bound [of "te_rand E"] by (cases Es) auto
    with Cons.prems show ?thesis by auto
  next
    case False
    then have "on_time d (te_done E + 1000 * unat (publisher_wait (te_rand E))) Es" "te_done (hd Es) \<le> T" "T \<le> te_done (last Es)"
      using Cons.prems by auto
    from Cons.IH [OF this(1) _ this(2,3)] False show ?thesis by auto
  qed
qed simp

lemma seconds_minute: "seconds t div 60 = int (t div 60000)"
  by (simp add: seconds_def zdiv_int div_mult2_eq [symmetric])

lemma minute_after:
  assumes "a \<le> T" and "T \<le> a + 60000"
  shows "unix_minute (seconds T) 0 \<in> {unix_minute (seconds a) 0, unix_minute (seconds a) 0 + 1}"
proof -
  have "a div 60000 \<le> T div 60000" using assms(1) by (rule div_le_mono)
  moreover have "T div 60000 \<le> (a + 60000) div 60000" using assms(2) by (rule div_le_mono)
  ultimately have "T div 60000 = a div 60000 \<or> T div 60000 = a div 60000 + 1" by simp linarith
  then show ?thesis by (auto simp: unix_minute_def seconds_minute)
qed

section \<open>Properties\<close>

text \<open>Merging is gentle: each of the two merge actors waits at least a minute from one merge to the next,
  whatever numbers it draws and however late its ticks are served, and asks for at most five joins
  each time.\<close>

theorem merges_are_paced:
  assumes "list_all env_in_order Es"
  shows "successively (\<lambda>x y. x + 60000 \<le> y) (tk_fired (turns (bubble_turn L ep_ok P) Es (merge_new t)))
    \<and> successively (\<lambda>x y. x + 60000 \<le> y) (tk_fired (turns (overlap_turn L ep_ok P) Es (merge_new t)))
    \<and> list_all (\<lambda>(ids, res). length ids \<le> 5) (ma_joins (turns (bubble_turn L ep_ok P) Es (merge_new t)))
    \<and> list_all (\<lambda>(ids, res). length ids \<le> 5) (ma_joins (turns (overlap_turn L ep_ok P) Es (merge_new t)))"
proof -
  have new: "tk_fired (merge_new t) = []" "list_all (\<lambda>(ids, res). length ids \<le> 5) (ma_joins (merge_new t))"
    by (simp_all add: merge_new_def)
  show ?thesis
    unfolding bubble_turn_def overlap_turn_def
    by (intro conjI merging.paced [OF assms new(1)] merge_turns_joins [OF _ new(2)]) (auto dest: merges_join_few)
qed

definition demo_merge_turns :: "merge_turn_env list" where
  "demo_merge_turns = map (\<lambda>(now, done, r). \<lparr>te_now = now, te_done = done, te_rand = r,
     mt_env = \<lparr>me_now = 0, me_answer = (\<lambda>_ _. Ok []), me_order = (\<lambda>_. []), me_shuffle = id, me_result = Call_Ok\<rparr>, mt_neighbors = {}, mt_hashes = []\<rparr>)
     [(0, 50, 7), (40000, 40000, 7), (70000, 70900, 9)]"

theorem merges_are_paced_witness:
  "successively (\<lambda>x y. x + 60000 \<le> y)
     (tk_fired (turns (bubble_turn demo_topic_lib (\<lambda>_. True) (demo_publisher (CHR ''q''))) demo_merge_turns (merge_new 0)))"
  by (rule merges_are_paced [THEN conjunct1]) (simp add: demo_merge_turns_def env_in_order_def)

lemma published_ok:
  assumes "publisher_publish L P E now ns hs = Ret (items, Ok ())"
  shows "items \<noteq> [] \<and> pe_put (pu_put E) (length items - 1)
      \<and> (\<forall>it \<in> set items. mi_key it = sk_public L (signing_keypair L (rp_topic P) (unix_minute now 0))
           \<and> mi_salt it = salt L (rp_topic P) (unix_minute now 0))
    \<or> (\<exists>R. get_records L P (pu_answer E) (unix_minute now 0) = Ret R \<and> MAX_BOOTSTRAP_RECORDS \<le> card R)"
proof -
  let ?m = "unix_minute now 0"
  obtain c r where r: "new_record L P ?m c = Some r" "publish_record L P E r = Ret (items, Ok ())"
    using assms by (auto simp: publisher_publish_def Let_def split: option.splits)
  have m: "d_unix_minute r = ?m" using r(1) by (auto simp: new_record_def record_sign_def split: option.splits)
  consider R where "get_records L P (pu_answer E) ?m = Ret R" "MAX_BOOTSTRAP_RECORDS \<le> card R"
    | e where "put_mutable L (pu_put E) (pu_up E) (signing_keypair L (rp_topic P) ?m) (salt L (rp_topic P) ?m) (encrypted_to_bytes e) (Some 3) = (items, Ok ())"
    using r(2) unfolding publish_record_def m bind_outcome_Ret_iff by (auto simp: bind_outcome_Ret_iff split: if_split_asm)
  then show ?thesis
  proof cases
    case (2 e)
    let ?mk = "\<lambda>q. \<lparr>mi_key = sk_public L (signing_keypair L (rp_topic P) ?m), mi_salt = salt L (rp_topic P) ?m, mi_value = encrypted_to_bytes e, mi_seq = q\<rparr>"
    have "put_loop (pu_put E) ?mk 3 0 = (items, Ok ())" using 2 by (auto simp: put_mutable_def split: if_split_asm)
    from put_loop_spec [OF this] have p: "puts_ok (pu_put E) ?mk 0 items" "items \<noteq> []" "pe_put (pu_put E) (length items - 1)" by simp_all
    have "\<exists>q. it = ?mk q" if "it \<in> set items" for it using p(1) that by (auto simp: puts_ok_def in_set_conv_nth)
    with p(2,3) show ?thesis by fastforce
  qed blast
qed

lemma publisher_turns_alive:
  assumes "\<forall>E \<in> set Es. publisher_publish L P (pn_publish E) (seconds (te_now E)) (pn_neighbors E) (pn_hashes E) \<noteq> Panic" and "\<not> tk_dead s"
  shows "\<not> tk_dead (turns (publisher_turn L P) Es s)"
  using assms
proof (induction Es arbitrary: s)
  case (Cons E Es)
  then have "\<not> tk_dead (publisher_turn L P E s)" by (auto simp: publisher_turn_def reset_after_def split: outcome.split)
  with Cons show ?case by simp
qed simp

lemma minute_before: "60000 \<le> T \<Longrightarrow> unix_minute (seconds T) (- 1) = unix_minute (seconds (T - 60000)) 0"
  by (simp add: unix_minute_def seconds_minute of_nat_diff le_div_geq [of 60000 T])

text \<open>C21. A member stays discoverable: let the publisher's ticks be served when due, no publication take more
  than five seconds, and every publication succeed. At any time between its first and its last
  publication, and for the first lookup of a newcomer from a minute after the first one, there is a
  publication, finished before, whose minute \<open>m\<close> is one of the two that the bootstrap of a newcomer
  looks up then, and in which a record was accepted by the DHT under the key and the salt that are
  looked up for \<open>m\<close>, unless the DHT already answered the bootstrap records of enough other members for
  that minute.\<close>

theorem publisher_is_discoverable:
  assumes "on_time 5000 (tk_due s) Es" and "\<not> tk_dead s"
    and "\<forall>E \<in> set Es. \<exists>items. publisher_publish L P (pn_publish E) (seconds (te_now E)) (pn_neighbors E) (pn_hashes E) = Ret (items, Ok ())"
    and "Es \<noteq> []" and "te_done (hd Es) + (if bs_last_published b = 0 then 60000 else 0) \<le> T" and "T \<le> te_done (last Es)"
  shows "\<exists>E \<in> set Es. \<exists>m items. te_done E \<le> T \<and> m = unix_minute (seconds (te_now E)) 0
    \<and> (m = boot_minute (seconds T) b \<or> m = boot_minute (seconds T) b - 1)
    \<and> (m, items, Ok ()) \<in> set (pa_records (turns (publisher_turn L P) Es s))
    \<and> (items \<noteq> [] \<and> pe_put (pu_put (pn_publish E)) (length items - 1)
         \<and> (\<forall>it \<in> set items. mi_key it = sk_public L (signing_keypair L (rp_topic P) m) \<and> mi_salt it = salt L (rp_topic P) m)
       \<or> (\<exists>R. get_records L P (pu_answer (pn_publish E)) m = Ret R \<and> MAX_BOOTSTRAP_RECORDS \<le> card R))"
proof -
  let ?T = "if bs_last_published b = 0 then T - 60000 else T"
  have T: "te_done (hd Es) \<le> ?T" "?T \<le> te_done (last Es)" "?T \<le> T" using assms(5,6) by (auto split: if_splits)
  have alive: "\<not> tk_dead (turns (publisher_turn L P) Es s)"
    using assms(3) by (intro publisher_turns_alive [OF _ assms(2)]) fastforce
  obtain E where E: "E \<in> set Es" "te_now E \<le> ?T" "te_done E \<le> ?T" "?T \<le> te_now E + 60000"
    using on_time_cover [OF assms(1,4) T(1,2)] by fastforce
  let ?m = "unix_minute (seconds (te_now E)) 0"
  have "boot_minute (seconds T) b = unix_minute (seconds ?T) 0"
    using assms(5) minute_before [of T] by (cases "bs_last_published b = 0") (auto simp: boot_minute_def)
  then have m: "?m = boot_minute (seconds T) b \<or> ?m = boot_minute (seconds T) b - 1"
    using minute_after [OF E(2,4)] by auto
  obtain items where items: "publisher_publish L P (pn_publish E) (seconds (te_now E)) (pn_neighbors E) (pn_hashes E) = Ret (items, Ok ())"
    using assms(3) E(1) by blast
  then have "(?m, items, Ok ()) \<in> set (pa_records (turns (publisher_turn L P) Es s))"
    using on_time_publishes [OF assms(1) alive E(1)] by auto
  moreover have "te_done E \<le> T" using E(3) T(3) by linarith
  ultimately show ?thesis using E(1) m published_ok [OF items] by blast
qed

definition demo_publisher_turns :: "publisher_env list" where
  "demo_publisher_turns = map (\<lambda>(now, done, r). \<lparr>te_now = now, te_done = done, te_rand = r,
     pn_publish = demo_publish_env, pn_neighbors = [], pn_hashes = []\<rparr>) [(420000, 420000, 49), (469000, 470000, 9), (479000, 484000, 3)]"

lemma demo_publisher_publishes:
  "publisher_publish demo_topic_lib (demo_publisher (CHR ''p'')) demo_publish_env (seconds t) [] [] = Ret ([demo_t_item, demo_t_item], Ok ())"
  if "t div 60000 = 7"
proof -
  have "unix_minute (seconds t) 0 = 7" using that by (simp add: unix_minute_def seconds_minute)
  moreover have "pad5 [] = replicate 5 zero32" by (simp add: pad5_def)
  ultimately show ?thesis
    using demo_t_new_record demo_t_publish by (simp add: publisher_publish_def empty_content_def [symmetric])
qed

theorem publisher_is_discoverable_witness:
  "(\<exists>E \<in> set demo_publisher_turns. te_done E \<le> 481000
      \<and> unix_minute (seconds (te_now E)) 0 \<in> {boot_minute (seconds 481000) boot_start, boot_minute (seconds 481000) boot_start - 1})
   \<and> boot_minute (seconds 481000) boot_start = 7"
proof -
  let ?P = "demo_publisher (CHR ''p'')"
  have "\<forall>E \<in> set demo_publisher_turns. \<exists>items. publisher_publish demo_topic_lib ?P (pn_publish E) (seconds (te_now E)) (pn_neighbors E) (pn_hashes E)
      = Ret (items, Ok ())"
    using demo_publisher_publishes by (simp add: demo_publisher_turns_def)
  moreover have "boot_minute (seconds 481000) boot_start = 7"
    by (simp add: boot_minute_def unix_minute_def seconds_minute boot_start_def)
  ultimately show ?thesis
    using publisher_is_discoverable [of "publisher_new 420000" demo_publisher_turns demo_topic_lib ?P boot_start 481000]
    by (simp add: demo_publisher_turns_def publisher_new_def publisher_wait_def boot_start_def) blast
qed

end
