(* ===== verification/Network.thy ===== *)
theory Network
  imports Topic_Tasks
begin

text \<open>
  How the gossip programs join the network: the part of \<^verbatim>\<open>main\<close> in \<^verbatim>\<open>gossip-writer/src/main.rs\<close>,
  \<^verbatim>\<open>gossip-listener/src/main.rs\<close> and \<^verbatim>\<open>gossip-monitor/src/main.rs\<close> from the endpoint to the joined
  topic. Binding the endpoint is a crate call that may fail; the
  subscription is the one of \<open>Topic_Tasks\<close>, and the record publisher it runs with is built from the
  node key and the configured secret.
\<close>

section \<open>Definitions\<close>

definition gossip_publisher :: "gossip_content dht_lib \<Rightarrow> string \<Rightarrow> string \<Rightarrow> record_publisher" where
  "gossip_publisher L node_key dht_secret =
     record_publisher_new L (record_topic_from_str L TOPIC_STRING) (sk_public L node_key) node_key None dht_secret"

definition join_topic :: "topic_env \<Rightarrow> string + topic_actor" where
  "join_topic T =
     (case subscribe_and_join_bootstrap_only T of
        Inl e \<Rightarrow> Err e
      | Inr a \<Rightarrow> (case topic_split (to_alive T) of Inl e \<Rightarrow> Err e | Inr _ \<Rightarrow> Ok a))"

definition network_start :: "bool \<Rightarrow> topic_env \<Rightarrow> string + topic_actor" where
  "network_start bound T = (if \<not> bound then Err ''bind'' else join_topic T)"

section \<open>Lemmas\<close>

lemma join_topic_Ok_iff:
  "join_topic T = Ok a \<longleftrightarrow> to_subscribed T \<and> to_started T \<and> to_alive T
     \<and> a = \<lparr>ta_publisher = Some (publisher_new (to_time T)), ta_bubble_merge = None, ta_message_overlap_merge = None\<rparr>"
  by (auto simp: join_topic_def subscribe_and_join_bootstrap_only_def topic_new_def start_publishing_def topic_split_def Let_def
      split: if_splits)

lemma network_start_Ok_iff:
  "network_start bound T = Ok a \<longleftrightarrow> bound \<and> join_topic T = Ok a"
  by (simp add: network_start_def)

lemma gossip_publisher_sel [simp]:
  "rp_topic (gossip_publisher L k s) = record_topic_from_str L TOPIC_STRING"
  "rp_rotation (gossip_publisher L k s) = None"
  "rp_initial_secret_hash (gossip_publisher L k s) = hash32 L s"
  "rp_pub_key (gossip_publisher L k s) = sk_public L k"
  "rp_signing_key (gossip_publisher L k s) = k"
  by (simp_all add: gossip_publisher_def record_publisher_new_def)

lemma gossip_publisher_lengths:
  assumes "dht_lib_ok L"
  shows "length (rp_topic (gossip_publisher L k s)) = 32" "length (rp_encryption_key L (gossip_publisher L k s) m) = 32"
  using hash32_length [OF assms]
  by (simp_all add: record_topic_from_str_def rp_encryption_key_def encryption_keypair_def default_derive_def)

section \<open>Properties\<close>

text \<open>C20. Two gossip programs configured with the same secret find each other: when one has published its record
  and the other runs a bootstrap turn in that minute or the next, the DHT serves what was put there,
  the lookup of the other minute succeeds and no join makes it a member earlier, then it tries to
  join the first.\<close>

theorem gossip_programs_meet:
  assumes "dht_lib_ok L" and "length k = 32" and "sk_public L k' \<noteq> sk_public L k" and "length (pu_one_time_key X) = 32"
    and "publisher_publish L (gossip_publisher L k s) X now ns hs = Ret (items, res)"
    and "it \<in> set items" and "length (mi_value it) < 2 ^ 32"
    and "bo_answer E (mi_key it) (mi_salt it) = Ok [mi_value it]" and "m = unix_minute now 0"
    and "boot_minute (bo_now E) b = m \<and> get_records L (gossip_publisher L k' s) (bo_answer E) (m - 1) = Ret R
       \<or> boot_minute (bo_now E) b = m + 1 \<and> get_records L (gossip_publisher L k' s) (bo_answer E) (m + 1) = Ret R"
    and "bs_status b = Booting" and "\<not> bo_joined_first E" and "\<not> bo_joined_lookup E"
    and "\<And>j. \<not> (bo_join_ok E j \<and> bo_joined_after E j)"
    and "\<And>S. finite S \<Longrightarrow> set (bo_order E S) = S" and "ep_ok (sk_public L k)"
  shows "sk_public L k \<in> set (bs_joins (bootstrap_turn L ep_ok (gossip_publisher L k' s) E b))"
proof -
  obtain c r where "new_record L (gossip_publisher L k s) m c = Some r"
    "publish_record L (gossip_publisher L k s) X r = Ret (items, res)"
    using assms(5,6,9) by (auto simp: publisher_publish_def Let_def split: option.split_asm)
  then show ?thesis
    using newcomer_tries [of L "gossip_publisher L k' s" "gossip_publisher L k s" m X c r items res it E b R ep_ok]
      assms gossip_publisher_lengths [OF assms(1)] by simp
qed

lemma demo_gossip_publisher:
  "gossip_publisher demo_topic_lib (replicate 32 ch) ''podping_gossip_default_secret'' = demo_publisher ch"
  by (simp add: gossip_publisher_def demo_publisher_def record_publisher_new_def record_topic_from_str_def demo_topic_hash)
    (simp add: demo_topic_lib_def)

theorem gossip_programs_meet_witness:
  "replicate 32 (CHR ''p'') \<in> set (bs_joins (bootstrap_turn demo_topic_lib (\<lambda>_. True)
     (gossip_publisher demo_topic_lib (replicate 32 (CHR ''q'')) ''podping_gossip_default_secret'')
     (demo_boot_env [demo_t_value] 480) boot_start))"
proof -
  let ?E = "demo_boot_env [demo_t_value] 480"
  have "length (mi_value demo_t_item) < 2 ^ 32" by (simp add: demo_t_item_def demo_t_value_def encrypted_to_bytes_def demo_t_bytes)
  moreover have "bo_answer ?E (mi_key demo_t_item) (mi_salt demo_t_item) = Ok [mi_value demo_t_item]"
    by (simp add: demo_boot_env_def demo_t_item_def)
  moreover have "sk_public demo_topic_lib x = x" for x by (simp add: demo_topic_lib_def)
  moreover have "boot_minute (bo_now ?E) boot_start = 7
      \<and> get_records demo_topic_lib (demo_publisher (CHR ''q'')) (bo_answer ?E) (7 - 1) = Ret {}"
    using demo_t_get_records [of 6] by (simp add: demo_boot_env_def demo_boot_minute)
  moreover have "length (pu_one_time_key demo_publish_env) = 32" by (simp add: demo_publish_env_def)
  moreover have "\<And>S. finite S \<Longrightarrow> set (bo_order ?E S) = S" by (simp add: demo_boot_env_def)
  moreover have "bs_status boot_start = Booting" by (simp add: boot_start_def)
  moreover have "\<not> bo_joined_first ?E" "\<not> bo_joined_lookup ?E" "\<And>k. \<not> (bo_join_ok ?E k \<and> bo_joined_after ?E k)"
    by (simp_all add: demo_boot_env_def)
  moreover have "unix_minute (seconds 420000) 0 = 7" by (simp add: unix_minute_def seconds_def)
  ultimately show ?thesis
    using gossip_programs_meet [of demo_topic_lib "replicate 32 (CHR ''p'')" "replicate 32 (CHR ''q'')" demo_publish_env
        "''podping_gossip_default_secret''" "seconds 420000" "[]" "[]" "[demo_t_item, demo_t_item]" "Ok ()" demo_t_item
        ?E 7 boot_start "{}" "\<lambda>_. True"]
      demo_topic_lib_ok demo_publisher_publishes [of 420000] by (simp add: demo_gossip_publisher)
qed

end
