(* ===== verification/Startup.thy ===== *)
theory Startup
  imports Listener_Sync Network
begin

text \<open>
  Starting the gossip programs: the configuration that \<^verbatim>\<open>gossip-writer/src/main.rs\<close>,
  \<^verbatim>\<open>gossip-listener/src/main.rs\<close> and \<^verbatim>\<open>gossip-monitor/src/main.rs\<close> read from the environment, the shared
  counters at their initial values, and the state in which the writer's and the listener's receive
  tasks begin. The environment is a map (a variable that is unset or not unicode is missing), and so
  are the files. Joining the network is the start of \<open>Network\<close>.
\<close>

section \<open>Reading variables\<close>

type_synonym env_vars = "string \<rightharpoonup> string"

definition env_or :: "string \<Rightarrow> string \<Rightarrow> env_vars \<Rightarrow> string" where
  "env_or k d V = (case V k of Some v \<Rightarrow> v | None \<Rightarrow> d)"

definition env_flag :: "string \<Rightarrow> env_vars \<Rightarrow> bool" where
  "env_flag k V = (case V k of Some v \<Rightarrow> to_lowercase v \<in> {''1'', ''true'', ''yes''} | None \<Rightarrow> False)"

definition env_u64 :: "string \<Rightarrow> u64 \<Rightarrow> env_vars \<Rightarrow> u64" where
  "env_u64 k d V = (case Option.bind (V k) parse_u64 of Some n \<Rightarrow> of_nat n | None \<Rightarrow> d)"

definition friendly_name :: "env_vars \<Rightarrow> string option" where
  "friendly_name V =
     (case V ''NODE_FRIENDLY_NAME'' of
        None \<Rightarrow> None
      | Some v \<Rightarrow>
          let s = trim v
          in if s = [] then None
             else Some (if 64 < length s then concat (take 64 (chars s)) else s))"

section \<open>Configurations\<close>

record w_settings =
  ws_zmq_bind :: string
  ws_key_file :: string
  ws_node_key_file :: string
  ws_archive_path :: string
  ws_peers_file :: string
  ws_bootstrap :: string
  ws_announce_interval :: u64
  ws_dht_secret :: string
  ws_trusted_file :: string
  ws_endorse_interval :: u64
  ws_auto_trust :: bool
  ws_archive_enabled :: bool
  ws_friendly_name :: "string option"
  ws_monitors_file :: string

definition writer_settings :: "env_vars \<Rightarrow> w_settings" where
  "writer_settings V =
     \<lparr>ws_zmq_bind = env_or ''ZMQ_BIND_ADDR'' ''tcp://0.0.0.0:9998'' V,
      ws_key_file = env_or ''IROH_SECRET_FILE'' ''/data/gossip/iroh.key'' V,
      ws_node_key_file = env_or ''IROH_NODE_KEY_FILE'' ''/data/gossip/iroh_node.key'' V,
      ws_archive_path = env_or ''ARCHIVE_PATH'' ''/data/gossip/archive.db'' V,
      ws_peers_file = env_or ''KNOWN_PEERS_FILE'' ''/data/gossip/known_peers.txt'' V,
      ws_bootstrap = env_or ''BOOTSTRAP_PEER_IDS'' '''' V,
      ws_announce_interval = env_u64 ''PEER_ANNOUNCE_INTERVAL'' 300 V,
      ws_dht_secret = env_or ''DHT_INITIAL_SECRET'' ''podping_gossip_default_secret'' V,
      ws_trusted_file = env_or ''TRUSTED_PUBLISHERS_FILE'' ''/data/gossip/trusted_publishers.txt'' V,
      ws_endorse_interval = env_u64 ''PEER_ENDORSE_INTERVAL'' 600 V,
      ws_auto_trust = env_flag ''AUTO_TRUST_ENDORSEMENTS'' V,
      ws_archive_enabled = env_flag ''ARCHIVE_ENABLED'' V,
      ws_friendly_name = friendly_name V,
      ws_monitors_file = env_or ''TRUSTED_MONITORS_FILE'' ''trusted_monitors.txt'' V\<rparr>"

record l_settings =
  ls_bootstrap :: string
  ls_node_key_file :: string
  ls_peers_file :: string
  ls_dht_secret :: string
  ls_trusted_file :: string
  ls_endorse_interval :: u64
  ls_archive_enabled :: bool
  ls_archive_path :: string
  ls_monitors_file :: string
  ls_catchup_enabled :: bool
  ls_sse_enabled :: bool
  ls_sse_addr :: string
  ls_sse_buffer :: u64
  ls_friendly_name :: "string option"
  ls_announce_interval :: u64

text \<open>\<open>addr_ok\<close> is the parser of socket addresses.\<close>

definition listener_settings :: "(string \<Rightarrow> bool) \<Rightarrow> env_vars \<Rightarrow> l_settings" where
  "listener_settings addr_ok V =
     (let addr = env_or ''SSE_BIND_ADDR'' ''0.0.0.0:8089'' V in
     \<lparr>ls_bootstrap = env_or ''BOOTSTRAP_PEER_IDS'' '''' V,
      ls_node_key_file = env_or ''IROH_NODE_KEY_FILE'' ''gossip_listener_node.key'' V,
      ls_peers_file = env_or ''KNOWN_PEERS_FILE'' ''gossip_listener_known_peers.txt'' V,
      ls_dht_secret = env_or ''DHT_INITIAL_SECRET'' ''podping_gossip_default_secret'' V,
      ls_trusted_file = env_or ''TRUSTED_PUBLISHERS_FILE'' ''trusted_publishers.txt'' V,
      ls_endorse_interval = env_u64 ''PEER_ENDORSE_INTERVAL'' 45 V,
      ls_archive_enabled = env_flag ''ARCHIVE_ENABLED'' V,
      ls_archive_path = env_or ''ARCHIVE_PATH'' ''listener_archive.db'' V,
      ls_monitors_file = env_or ''TRUSTED_MONITORS_FILE'' ''trusted_monitors.txt'' V,
      ls_catchup_enabled = env_flag ''CATCHUP_ENABLED'' V,
      ls_sse_enabled = env_flag ''SSE_ENABLED'' V,
      ls_sse_addr = (if addr_ok addr then addr else ''0.0.0.0:8089''),
      ls_sse_buffer = env_u64 ''SSE_BUFFER_SIZE'' 1000 V,
      ls_friendly_name = friendly_name V,
      ls_announce_interval = env_u64 ''PEER_ANNOUNCE_INTERVAL'' 300 V\<rparr>)"

record m_settings =
  ms_node_key_file :: string
  ms_peers_file :: string
  ms_dht_secret :: string
  ms_web_addr :: string
  ms_bootstrap :: string

definition monitor_settings :: "(string \<Rightarrow> bool) \<Rightarrow> env_vars \<Rightarrow> m_settings outcome" where
  "monitor_settings addr_ok V =
     (let addr = env_or ''WEB_BIND_ADDR'' ''0.0.0.0:8090'' V
      in if \<not> addr_ok addr then Panic
         else Ret \<lparr>ms_node_key_file = env_or ''IROH_NODE_KEY_FILE'' ''gossip_monitor_node.key'' V,
                   ms_peers_file = env_or ''KNOWN_PEERS_FILE'' ''gossip_monitor_known_peers.txt'' V,
                   ms_dht_secret = env_or ''DHT_INITIAL_SECRET'' ''podping_gossip_default_secret'' V,
                   ms_web_addr = addr, ms_bootstrap = env_or ''BOOTSTRAP_PEER_IDS'' '''' V\<rparr>)"

section \<open>Starting\<close>

text \<open>The shared counters and the locals of the resilience tasks, with the clock and the instant of the
  start; the receive task runs with generation one.\<close>

definition ctl_start :: "u64 \<Rightarrow> nat \<Rightarrow> ctl" where
  "ctl_start now inst =
     \<lparr>c_shutdown = False, c_failures = 0, c_requested = False, c_force_reset = False, c_notify = False,
      c_last_notif = now, c_notifs = 0, c_sent = 0, c_failed = 0, c_last_ok = now, c_generation = 1,
      c_neighbor_count = 0, c_neighbor_ids = {}, c_sources = {}, c_reconnects = 0, c_last_reconnect = inst,
      c_consecutive = 0, c_endpoint = 0, c_sender = 0, c_up = True, c_stall = 0, c_last_reset = inst,
      c_prev_a = 0, c_prev_b = 0\<rparr>"

record start_env =
  st_now :: u64
  st_inst :: nat
  st_conn_ok :: bool
  st_batch_ok :: bool
  st_archive :: "archive option"
  st_channel_ok :: "u64 \<Rightarrow> bool"
  st_sign_key :: "string + string"
  st_node_key :: "string + string"
  st_bound :: bool
  st_topic :: topic_env

type_synonym files = "string \<rightharpoonup> string"

text \<open>The bounded join of the known peers is the first entry of the joins, when there is any peer.\<close>

definition first_joins :: "(string \<Rightarrow> 'id option) \<Rightarrow> string \<Rightarrow> string option \<Rightarrow> 'id list list" where
  "first_joins parse_id boot file = (let ps = bootstrap_peers parse_id boot file in if ps = [] then [] else [ps])"

definition writer_start :: "(string \<Rightarrow> 'id option) \<Rightarrow> env_vars \<Rightarrow> files \<Rightarrow> start_env \<Rightarrow> string + 'id recv \<times> archive option" where
  "writer_start parse_id V fs S =
     (let cfg = writer_settings V; opened = archive_open (st_conn_ok S) (st_batch_ok S) (st_archive S)
      in case st_sign_key S of
           Inl e \<Rightarrow> Err e
         | Inr _ \<Rightarrow>
             if ws_archive_enabled cfg \<and> snd opened \<noteq> Ok () then Err ''archive''
             else case st_node_key S of
                Inl e \<Rightarrow> Err e
              | Inr _ \<Rightarrow>
                  case network_start (st_bound S) (st_topic S) of
                    Inl e \<Rightarrow> Err e
                  | Inr _ \<Rightarrow> Ok (\<lparr>r_ctl = ctl_start (st_now S) (st_inst S), r_status = Running,
                            r_trusted = load_trusted_publishers (fs (ws_trusted_file cfg)), r_trusted_poisoned = False,
                            r_trusted_file = fs (ws_trusted_file cfg), r_peers_file = fs (ws_peers_file cfg),
                            r_names = Map.empty,
                            r_joins = first_joins parse_id (ws_bootstrap cfg) (fs (ws_peers_file cfg))\<rparr>,
                           if ws_archive_enabled cfg then fst opened else None))"

definition sse_start :: "(u64 \<Rightarrow> bool) \<Rightarrow> l_settings \<Rightarrow> string list option outcome" where
  "sse_start channel_ok cfg =
     (if \<not> ls_sse_enabled cfg then Ret None
      else if channel_ok (ls_sse_buffer cfg) then Ret (Some []) else Panic)"

definition listener_initial :: "(string \<Rightarrow> 'id option) \<Rightarrow> l_settings \<Rightarrow> files \<Rightarrow> start_env \<Rightarrow> string list option \<Rightarrow> archive option
    \<Rightarrow> 'id lrecv" where
  "listener_initial parse_id cfg fs S sse db =
     \<lparr>r_ctl = ctl_start (st_now S) (st_inst S), r_status = Running,
      r_trusted = l_load_trusted_publishers (fs (ls_trusted_file cfg)), r_trusted_poisoned = False,
      r_trusted_file = fs (ls_trusted_file cfg), r_peers_file = fs (ls_peers_file cfg), r_names = Map.empty,
      r_joins = first_joins parse_id (ls_bootstrap cfg) (fs (ls_peers_file cfg)),
      l_names_poisoned = False, l_last_seq = Map.empty, l_seq_poisoned = False, l_gaps = [],
      l_db = db, l_db_poisoned = False, l_sse = sse, l_neighbor_tx = ls_catchup_enabled cfg, l_catchup_peers = []\<rparr>"

definition listener_start :: "(string \<Rightarrow> bool) \<Rightarrow> (string \<Rightarrow> 'id option) \<Rightarrow> env_vars \<Rightarrow> files \<Rightarrow> start_env
    \<Rightarrow> (string + 'id lrecv) outcome" where
  "listener_start addr_ok parse_id V fs S =
     (let cfg = listener_settings addr_ok V;
          opened = l_archive_open (st_conn_ok S) (st_batch_ok S) (st_archive S);
          db = (if ls_archive_enabled cfg \<and> snd opened = Ok () then fst opened else None)
      in bind_outcome (sse_start (st_channel_ok S) cfg) (\<lambda>sse.
         case st_node_key S of
           Inl e \<Rightarrow> Ret (Err e)
         | Inr _ \<Rightarrow>
             (case network_start (st_bound S) (st_topic S) of
                Inl e \<Rightarrow> Ret (Err e)
              | Inr _ \<Rightarrow> Ret (Ok (listener_initial parse_id cfg fs S sse db)))))"

text \<open>The time from which catch-up asks a peer: the newest archived payload, or a day ago.\<close>

definition catchup_since :: "bool \<Rightarrow> u64 \<Rightarrow> archive option \<Rightarrow> u64" where
  "catchup_since query_ok now db =
     (case db of
        Some a \<Rightarrow> (case latest_timestamp query_ok a of Inr (Some t) \<Rightarrow> t | _ \<Rightarrow> now - 86400)
      | None \<Rightarrow> now - 86400)"

section \<open>Lemmas\<close>

interpretation u64_text: codec "\<lambda>w. dec (unat (w :: u64))" "\<lambda>s. map_option of_nat (parse_u64 s)" "\<lambda>_. True"
proof
  fix w :: u64
  have "unat w < 2 ^ 64" by (rule order_less_le_trans [OF unsigned_less]) simp
  then show "map_option of_nat (parse_u64 (dec (unat w))) = Some w" by (simp add: parse_u64_dec)
qed

lemma friendly_name_bound: "friendly_name V = Some x \<Longrightarrow> length x \<le> 256"
proof -
  assume a: "friendly_name V = Some x"
  have "length (concat (take 64 (chars s))) \<le> 4 * length (take 64 (chars s))" for s
    by (rule length_concat_bound) (auto dest!: in_set_takeD intro: length_chars_piece)
  moreover have "4 * length (take 64 (chars s)) \<le> 256" for s by simp
  ultimately have "length (concat (take 64 (chars s))) \<le> 256" for s using le_trans by blast
  with a show ?thesis by (auto simp: friendly_name_def Let_def split: option.splits if_splits)
qed

lemma l_archive_open_ok: "snd (l_archive_open c b f) = Ok () \<longleftrightarrow> c \<and> b"
  by (auto simp: l_archive_open_def split: option.split)

lemma l_archive_opened: "c \<Longrightarrow> b \<Longrightarrow> \<exists>a. fst (l_archive_open c b f) = Some a"
  by (auto simp: l_archive_open_def split: option.split)

lemma listener_settings_sel:
  "ls_archive_enabled (listener_settings addr_ok V) = env_flag ''ARCHIVE_ENABLED'' V"
  "ls_sse_enabled (listener_settings addr_ok V) = env_flag ''SSE_ENABLED'' V"
  "ls_sse_buffer (listener_settings addr_ok V) = env_u64 ''SSE_BUFFER_SIZE'' 1000 V"
  by (simp_all add: listener_settings_def Let_def)

lemma listener_start_Ok:
  assumes "listener_start addr_ok parse_id V fs S = Ret (Ok s)"
  obtains sse where "sse_start (st_channel_ok S) (listener_settings addr_ok V) = Ret sse"
    "s = listener_initial parse_id (listener_settings addr_ok V) fs S sse
       (if env_flag ''ARCHIVE_ENABLED'' V \<and> snd (l_archive_open (st_conn_ok S) (st_batch_ok S) (st_archive S)) = Ok ()
        then fst (l_archive_open (st_conn_ok S) (st_batch_ok S) (st_archive S)) else None)"
proof -
  show thesis
    using assms that unfolding listener_start_def Let_def bind_outcome_Ret_iff listener_settings_sel
    by (cases "st_node_key S"; cases "network_start (st_bound S) (st_topic S)") (auto split: if_split_asm)
qed

lemma sse_start_Ret:
  "sse_start ok (listener_settings addr_ok V) = Ret sse \<Longrightarrow> sse = (if env_flag ''SSE_ENABLED'' V then Some [] else None)"
  by (simp add: sse_start_def listener_settings_sel split: if_split_asm)

lemma started_listener_facts:
  assumes "listener_start addr_ok parse_id V fs S = Ret (Ok s)"
  shows "r_status s = Running" "c_generation (r_ctl s) = 1"
    "\<not> r_trusted_poisoned s" "\<not> l_names_poisoned s" "\<not> l_seq_poisoned s" "\<not> l_db_poisoned s"
    "l_db s \<noteq> None \<longleftrightarrow> env_flag ''ARCHIVE_ENABLED'' V \<and> st_conn_ok S \<and> st_batch_ok S"
    "l_sse s = (if env_flag ''SSE_ENABLED'' V then Some [] else None)"
    "r_trusted s = l_load_trusted_publishers (fs (env_or ''TRUSTED_PUBLISHERS_FILE'' ''trusted_publishers.txt'' V))"
proof -
  let ?o = "l_archive_open (st_conn_ok S) (st_batch_ok S) (st_archive S)"
  obtain sse where sse: "sse = (if env_flag ''SSE_ENABLED'' V then Some [] else None)"
    and s: "s = listener_initial parse_id (listener_settings addr_ok V) fs S sse
       (if env_flag ''ARCHIVE_ENABLED'' V \<and> snd ?o = Ok () then fst ?o else None)"
    by (rule listener_start_Ok [OF assms]) (blast dest: sse_start_Ret)
  show "r_status s = Running" "\<not> r_trusted_poisoned s" "\<not> l_names_poisoned s" "\<not> l_seq_poisoned s" "\<not> l_db_poisoned s"
    unfolding s by (simp_all add: listener_initial_def)
  show "c_generation (r_ctl s) = 1" unfolding s by (simp add: listener_initial_def ctl_start_def)
  show "l_sse s = (if env_flag ''SSE_ENABLED'' V then Some [] else None)"
    unfolding s sse by (simp add: listener_initial_def)
  show "r_trusted s = l_load_trusted_publishers (fs (env_or ''TRUSTED_PUBLISHERS_FILE'' ''trusted_publishers.txt'' V))"
    unfolding s by (simp add: listener_initial_def listener_settings_def Let_def)
  have "l_db s = (if env_flag ''ARCHIVE_ENABLED'' V \<and> snd ?o = Ok () then fst ?o else None)"
    unfolding s by (simp add: listener_initial_def)
  then show "l_db s \<noteq> None \<longleftrightarrow> env_flag ''ARCHIVE_ENABLED'' V \<and> st_conn_ok S \<and> st_batch_ok S"
    using l_archive_opened [of "st_conn_ok S" "st_batch_ok S" "st_archive S"] by (simp add: l_archive_open_ok)
qed

text \<open>A zero buffer size reaches the constructor of the channel, which refuses it.\<close>

theorem zero_sse_buffer_panics:
  assumes "env_flag ''SSE_ENABLED'' V" and "V ''SSE_BUFFER_SIZE'' = Some ''0''" and "\<not> st_channel_ok S 0"
  shows "listener_start addr_ok parse_id V fs S = Panic"
proof -
  have "dec 0 = ''0''" by code_simp
  then have "parse_u64 ''0'' = Some 0" using parse_u64_dec [of 0] by simp
  then have "env_u64 ''SSE_BUFFER_SIZE'' 1000 V = 0" using assms(2) by (simp add: env_u64_def)
  then have "sse_start (st_channel_ok S) (listener_settings addr_ok V) = Panic"
    using assms(1,3) by (simp only: sse_start_def listener_settings_sel not_True_eq_False if_False)
  then show ?thesis by (simp only: listener_start_def Let_def bind_outcome.simps)
qed

section \<open>Properties\<close>

text \<open>A started listener is well formed: it runs with the first generation and no poisoned lock, it has an
  archive exactly when one is enabled and opens, a stream exactly when one is enabled, and it trusts
  exactly the trimmed non-empty lines of its file; its friendly name has at most 256 bytes.\<close>

theorem started_listener_wf:
  assumes "listener_start addr_ok parse_id V fs S = Ret (Ok s)"
  shows "r_status s = Running \<and> c_generation (r_ctl s) = 1
    \<and> \<not> r_trusted_poisoned s \<and> \<not> l_names_poisoned s \<and> \<not> l_seq_poisoned s \<and> \<not> l_db_poisoned s
    \<and> (l_db s \<noteq> None \<longleftrightarrow> env_flag ''ARCHIVE_ENABLED'' V \<and> st_conn_ok S \<and> st_batch_ok S)
    \<and> l_sse s = (if env_flag ''SSE_ENABLED'' V then Some [] else None)
    \<and> r_trusted s = (case fs (env_or ''TRUSTED_PUBLISHERS_FILE'' ''trusted_publishers.txt'' V) of
         None \<Rightarrow> {} | Some c \<Rightarrow> trim ` set (lines c) - {[]})
    \<and> (\<forall>x. friendly_name V = Some x \<longrightarrow> length x \<le> 256)"
  using started_listener_facts [OF assms] friendly_name_bound [of V] unfolding l_load_trusted_publishers_def by blast

definition demo_vars :: env_vars where
  "demo_vars = [''ARCHIVE_ENABLED'' \<mapsto> ''True'', ''SSE_ENABLED'' \<mapsto> ''1'', ''SSE_BUFFER_SIZE'' \<mapsto> ''64'']"

definition demo_start_env :: start_env where
  "demo_start_env = \<lparr>st_now = 1000, st_inst = 0, st_conn_ok = True, st_batch_ok = True, st_archive = None,
     st_channel_ok = (\<lambda>n. 0 < n \<and> n < 2 ^ 62), st_sign_key = Ok ''k'', st_node_key = Ok ''k'', st_bound = True,
     st_topic = \<lparr>to_subscribed = True, to_started = True, to_done = False, to_alive = True, to_time = 0\<rparr>\<rparr>"

lemma demo_network: "\<exists>a. network_start (st_bound demo_start_env) (st_topic demo_start_env) = Ok a"
  by (simp add: network_start_Ok_iff join_topic_Ok_iff) (simp add: demo_start_env_def)

lemma demo_flags: "env_flag ''ARCHIVE_ENABLED'' demo_vars" "env_flag ''SSE_ENABLED'' demo_vars"
  "env_u64 ''SSE_BUFFER_SIZE'' 1000 demo_vars = 64" "env_or ''TRUSTED_PUBLISHERS_FILE'' d demo_vars = d"
proof -
  have "dec 64 = ''64''" by code_simp
  then have "parse_u64 ''64'' = Some 64" using parse_u64_dec [of 64] by simp
  moreover have "to_lowercase ''True'' = ''true''" "to_lowercase ''1'' = ''1''" by code_simp+
  ultimately show "env_flag ''ARCHIVE_ENABLED'' demo_vars" "env_flag ''SSE_ENABLED'' demo_vars"
    "env_u64 ''SSE_BUFFER_SIZE'' 1000 demo_vars = 64" "env_or ''TRUSTED_PUBLISHERS_FILE'' d demo_vars = d"
    by (simp_all add: env_flag_def env_u64_def env_or_def demo_vars_def)
qed

lemma demo_listener_start:
  "\<exists>s :: string lrecv. listener_start (\<lambda>_. True) Some demo_vars Map.empty demo_start_env = Ret (Ok s)"
proof -
  have "sse_start (st_channel_ok demo_start_env) (listener_settings (\<lambda>_. True) demo_vars) = Ret (Some [])"
    unfolding sse_start_def listener_settings_sel demo_flags(3)
    by (simp add: demo_flags(2) demo_start_env_def)
  moreover have "st_node_key demo_start_env = Ok ''k''" by (simp add: demo_start_env_def)
  ultimately show ?thesis
    using demo_network unfolding listener_start_def Let_def by auto
qed

theorem started_listener_wf_witness:
  "\<exists>s :: string lrecv. listener_start (\<lambda>_. True) Some demo_vars Map.empty demo_start_env = Ret (Ok s)
     \<and> l_db s \<noteq> None \<and> l_sse s = Some [] \<and> r_trusted s = {}"
proof -
  obtain s :: "string lrecv" where s: "listener_start (\<lambda>_. True) Some demo_vars Map.empty demo_start_env = Ret (Ok s)"
    using demo_listener_start by blast
  have "st_conn_ok demo_start_env" "st_batch_ok demo_start_env" by (simp_all add: demo_start_env_def)
  with started_listener_wf [OF s] s demo_flags show ?thesis by (intro exI [of _ s]) simp
qed

text \<open>Configuration takes effect: a listener started with archive and stream enabled, whose file of trusted
  publishers is missing, empty or lists the sender's key, publishes and archives the first
  notification it receives.\<close>

theorem started_listener_publishes:
  assumes "listener_start addr_ok parse_id V fs S = Ret (Ok s)"
    and "env_flag ''ARCHIVE_ENABLED'' V" and "st_conn_ok S" and "st_batch_ok S" and "env_flag ''SSE_ENABLED'' V"
    and "rf_generation C = 1"
    and "parse_suggest (rf_lib C) raw = None" and "parse_announce (rf_lib C) raw = None"
    and "parse_notification (rf_lib C) raw = Some n" and "ascii_str (n_sender n)"
    and "l_load_trusted_publishers (fs (env_or ''TRUSTED_PUBLISHERS_FILE'' ''trusted_publishers.txt'' V)) \<in> {{}, T}"
    and "n_sender n \<in> T" and "ae_clock (li_arch E) = Some now" and "ae_messages_ok (li_arch E)"
  shows "\<exists>d a. let t = l_receive_turn C (E, Msg raw from_peer) s in
    l_sse t = Some [print_notification (rf_lib C) n d] \<and> l_db t = Some a \<and> li_hash E raw \<in> mr_hash ` set (messages a)"
proof -
  note s = started_listener_facts [OF assms(1)]
  obtain a where a: "l_db s = Some a" using s(7) assms(2-4) by blast
  have log: "l_sse s = Some []" using s(8) assms(5) by simp
  have "r_trusted s = {} \<or> n_sender n \<in> r_trusted s" using s(9) assms(11,12) by auto
  then have "\<exists>d a'. let t = l_receive_turn C (E, Msg raw from_peer) s in
      r_status t = Running \<and> l_sse t = Some ([] @ [print_notification (rf_lib C) n d])
      \<and> l_db t = Some a' \<and> li_hash E raw \<in> mr_hash ` set (messages a')"
    using assms(6-10,13,14) s(1-6) a log by (intro l_turn_accepts) simp_all
  then show ?thesis unfolding Let_def append_Nil by blast
qed

theorem started_listener_publishes_witness:
  "\<exists>s :: string lrecv. listener_start (\<lambda>_. True) Some demo_vars Map.empty demo_start_env = Ret (Ok s)
     \<and> (\<exists>log. l_sse (l_receive_turn (demo_lcfg\<lparr>rf_generation := 1\<rparr>) (demo_lenv, Msg ''N'' ''q'') s) = Some log \<and> length log = 1)"
proof -
  let ?C = "demo_lcfg\<lparr>rf_generation := 1\<rparr>"
  obtain s :: "string lrecv" where s: "listener_start (\<lambda>_. True) Some demo_vars Map.empty demo_start_env = Ret (Ok s)"
    using demo_listener_start by blast
  have "st_conn_ok demo_start_env" "st_batch_ok demo_start_env" by (simp_all add: demo_start_env_def)
  moreover have "l_load_trusted_publishers (Map.empty (env_or ''TRUSTED_PUBLISHERS_FILE'' ''trusted_publishers.txt'' demo_vars))
      \<in> {{}, {n_sender demo_short}}"
    by (simp add: l_load_trusted_publishers_def)
  moreover have "ascii_str (n_sender demo_short)" unfolding demo_short_def by code_simp
  moreover have "parse_suggest (rf_lib ?C) ''N'' = None" "parse_announce (rf_lib ?C) ''N'' = None"
    "parse_notification (rf_lib ?C) ''N'' = Some demo_short" "rf_generation ?C = 1"
    "ae_clock (li_arch demo_lenv) = Some 9" "ae_messages_ok (li_arch demo_lenv)"
    by (simp_all add: demo_listener_defs)
  ultimately obtain d where "l_sse (l_receive_turn ?C (demo_lenv, Msg ''N'' ''q'') s) = Some [print_notification (rf_lib ?C) demo_short d]"
    using started_listener_publishes [OF s demo_flags(1) _ _ demo_flags(2), of ?C "''N''" demo_short "{n_sender demo_short}" demo_lenv 9 "''q''"]
    unfolding Let_def by blast
  with s show ?thesis by auto
qed

end
