(* ===== verification/Frontend_Start.thy ===== *)
theory Frontend_Start
  imports Frontend Startup
begin

text \<open>
  Starting the front-end (\<^verbatim>\<open>main\<close> of \<^verbatim>\<open>podping/src/main.rs\<close>): the databases, the sockets of the queue
  thread, the HTTP server and the change of user; the state given to each connection; and the cached
  read of a request body. Opening a socket, binding the server and changing the user are crate calls
  that may fail.
\<close>

section \<open>Configuration\<close>

definition ZMQ_SOCKET_ADDR :: string where
  "ZMQ_SOCKET_ADDR = ''127.0.0.1:9999''"

definition GOSSIP_ZMQ_ADDR :: string where
  "GOSSIP_ZMQ_ADDR = ''127.0.0.1:9998''"

definition zmq_address :: "env_vars \<Rightarrow> string" where
  "zmq_address V = ''tcp://'' @ (case V ''ZMQ_SOCKET_ADDR'' of Some a \<Rightarrow> a | None \<Rightarrow> ZMQ_SOCKET_ADDR)"

definition gossip_writer_enabled :: "env_vars \<Rightarrow> bool" where
  "gossip_writer_enabled V =
     (let on = env_or ''GOSSIP_WRITER_ENABLED'' ''false'' V in eq_ignore_ascii_case on ''true'' \<or> on = ''1'')"

definition gossip_addr :: "env_vars \<Rightarrow> string" where
  "gossip_addr V = ''tcp://'' @ env_or ''GOSSIP_WRITER_ZMQ'' GOSSIP_ZMQ_ADDR V"

section \<open>Start\<close>

text \<open>
  What the environment decides: the two database connections, whether a socket of each kind opens,
  whether the queue thread gets to its sockets only after the panic hook is installed, whether the
  server binds and whether the user can be changed.
\<close>

record fe_start_env =
  fs_auth_env :: db_env
  fs_queue_env :: db_env
  fs_hive_socket_ok :: bool
  fs_gossip_socket_ok :: bool
  fs_hook_first :: bool
  fs_bind_ok :: bool
  fs_runas_ok :: bool

record front_end =
  fn_cfg :: fe_config
  fn_state :: fe_state
  fn_hive_addr :: string
  fn_gossip_addr :: "string option"
  fn_router :: router
  fn_user :: "string option"

definition fe_initial :: "dbs \<Rightarrow> bool \<Rightarrow> fe_state" where
  "fe_initial d up =
     \<lparr>fe_dbs = d, fe_conn = 0, hive_inbox = [], gossip_inbox = [], hive_outbox = [], gossip_outbox = [],
      total_sent = 0, fe_running = up\<rparr>"

text \<open>The sockets of the queue thread; an \<^verbatim>\<open>unwrap\<close> of a failure panics in that thread.\<close>

definition open_sockets :: "env_vars \<Rightarrow> fe_start_env \<Rightarrow> (string \<times> string option) outcome" where
  "open_sockets V S =
     (if \<not> fs_hive_socket_ok S then Panic
      else if \<not> gossip_writer_enabled V then Ret (zmq_address V, None)
      else if \<not> fs_gossip_socket_ok S then Panic
      else Ret (zmq_address V, Some (gossip_addr V)))"

definition runas :: "env_vars \<Rightarrow> fe_start_env \<Rightarrow> string option" where
  "runas V S = (case V ''PODPING_RUNAS_USER'' of Some u \<Rightarrow> if fs_runas_ok S then Some u else None | None \<Rightarrow> None)"

text \<open>
  \<open>Err\<close> is an exit with that code, \<open>Panic\<close> a panic that ends the process: one of the main thread, or one
  of the queue thread once the hook is installed. A panic of the queue thread before that only ends
  the thread.
\<close>

definition main_start :: "string list \<Rightarrow> fe_start_env \<Rightarrow> dbs \<Rightarrow> dbs \<times> (nat + bool)" where
  "main_start args S d =
     (case create_databases (fs_auth_env S) (fs_queue_env S) d of
        (d1, Inl _) \<Rightarrow> (d1, Err 1)
      | (d1, Inr _) \<Rightarrow> (d1, Ok (''--ephemeral'' \<in> set args)))"

definition podping_main :: "string list \<Rightarrow> env_vars \<Rightarrow> fe_start_env \<Rightarrow> dbs \<Rightarrow> (nat + front_end) outcome" where
  "podping_main args V S d =
     (case main_start args S d of
        (d1, Inl code) \<Rightarrow> Ret (Err code)
      | (d1, Inr eph) \<Rightarrow>
          let cfg = \<lparr>ephemeral = eph, gossip_enabled = gossip_writer_enabled V\<rparr>;
              up = (\<lambda>sockets running. \<lparr>fn_cfg = cfg, fn_state = fe_initial d1 running, fn_hive_addr = fst sockets,
                      fn_gossip_addr = snd sockets, fn_router = app_router, fn_user = runas V S\<rparr>)
          in if open_sockets V S = Panic \<and> fs_hook_first S then Panic
             else if \<not> fs_bind_ok S then Panic
             else (case open_sockets V S of
                     Panic \<Rightarrow> Ret (Ok (up (zmq_address V, None) False))
                   | Ret sockets \<Rightarrow> Ret (Ok (up sockets True))))"

definition connection_state :: "string \<Rightarrow> string \<Rightarrow> app_state" where
  "connection_state ver remote = \<lparr>state_thing = ''state'', remote_ip = remote, version = ver\<rparr>"

section \<open>The request body\<close>

text \<open>The body stream (what reading it gives) and the bytes kept from an earlier read. A stream that has
  been read is empty.\<close>

record body_ctx =
  bc_stream :: "string + string"
  bc_bytes :: "string option"

definition body_json :: "(string \<Rightarrow> string + 'j) \<Rightarrow> body_ctx \<Rightarrow> body_ctx \<times> (string + 'j)" where
  "body_json from_slice c =
     (case bc_bytes c of
        Some b \<Rightarrow> (c, from_slice b)
      | None \<Rightarrow>
          (case bc_stream c of
             Inl e \<Rightarrow> (c, Err e)
           | Inr b \<Rightarrow> (c\<lparr>bc_stream := Ok [], bc_bytes := Some b\<rparr>, from_slice b)))"

section \<open>Lemmas\<close>

text \<open>Reading the body again gives the same result.\<close>

lemma body_json_again: "body_json f (fst (body_json f c)) = body_json f c"
  by (simp add: body_json_def split: option.split sum.split)

lemma create_databases_tables:
  assumes "create_databases ea eq d = (d1, Ok b)"
  shows "publishers_tbl d1 = Some (case publishers_tbl d of Some rows \<Rightarrow> rows | None \<Rightarrow> [])"
    "queue_tbl d1 = Some (case queue_tbl d of Some q \<Rightarrow> q | None \<Rightarrow> [])"
  using assms by (auto simp: create_databases_def Let_def connect_to_database_def split: if_split_asm option.splits)

lemma podping_main_Ok:
  assumes "podping_main args V S d = Ret (Ok f)"
  obtains d1 b where "create_databases (fs_auth_env S) (fs_queue_env S) d = (d1, Ok b)" "fe_dbs (fn_state f) = d1"
    "fn_cfg f = \<lparr>ephemeral = (''--ephemeral'' \<in> set args), gossip_enabled = gossip_writer_enabled V\<rparr>"
    "fn_user f = runas V S" "fn_hive_addr f = zmq_address V"
    "fe_running (fn_state f) \<longleftrightarrow> open_sockets V S \<noteq> Panic"
    "fe_running (fn_state f) \<Longrightarrow> fn_gossip_addr f = (if gossip_writer_enabled V then Some (gossip_addr V) else None)"
    "fe_running (fn_state f) \<or> \<not> fs_hook_first S" "fn_router f = app_router" "total_sent (fn_state f) = 0"
proof -
  obtain d1 r where c: "create_databases (fs_auth_env S) (fs_queue_env S) d = (d1, r)" by fastforce
  with assms obtain b where b: "r = Ok b" by (cases r) (simp_all add: podping_main_def main_start_def)
  show thesis
  proof (cases "open_sockets V S")
    case (Ret sockets)
    then show thesis
      using assms c b that by (auto simp: podping_main_def main_start_def Let_def fe_initial_def open_sockets_def split: if_split_asm)
  next
    case Panic
    then show thesis
      using assms c b that by (auto simp: podping_main_def main_start_def Let_def fe_initial_def split: if_split_asm)
  qed
qed

section \<open>Properties\<close>

text \<open>A started front-end is ready, if the panic hook was in place before the queue thread opened its sockets: both
  tables exist with the rows they had, the queue is well formed when it was, nothing is counted as
  sent, the gossip socket is there exactly when the gossip writer is enabled, and the process runs as
  the requested user exactly when one is requested and the change succeeds; it is up even when that
  change fails.\<close>

theorem started_front_end_ready:
  assumes "podping_main args V S d = Ret (Ok f)" and "fs_hook_first S"
  shows "fe_running (fn_state f) \<and> total_sent (fn_state f) = 0
    \<and> publishers_tbl (fe_dbs (fn_state f)) = Some (case publishers_tbl d of Some rows \<Rightarrow> rows | None \<Rightarrow> [])
    \<and> queue_tbl (fe_dbs (fn_state f)) = Some (case queue_tbl d of Some q \<Rightarrow> q | None \<Rightarrow> [])
    \<and> (dbs_wf d \<longrightarrow> dbs_wf (fe_dbs (fn_state f)))
    \<and> (fn_gossip_addr f \<noteq> None \<longleftrightarrow> gossip_enabled (fn_cfg f)) \<and> (ephemeral (fn_cfg f) \<longleftrightarrow> ''--ephemeral'' \<in> set args)
    \<and> (\<forall>u. fn_user f = Some u \<longleftrightarrow> V ''PODPING_RUNAS_USER'' = Some u \<and> fs_runas_ok S)"
proof -
  obtain d1 b where f: "create_databases (fs_auth_env S) (fs_queue_env S) d = (d1, Ok b)" "fe_dbs (fn_state f) = d1"
    "fn_cfg f = \<lparr>ephemeral = (''--ephemeral'' \<in> set args), gossip_enabled = gossip_writer_enabled V\<rparr>"
    "fn_user f = runas V S" "fe_running (fn_state f)" "total_sent (fn_state f) = 0"
    "fn_gossip_addr f = (if gossip_writer_enabled V then Some (gossip_addr V) else None)"
    using podping_main_Ok [OF assms(1)] assms(2) by metis
  note t = create_databases_tables [OF f(1)]
  have "dbs_wf d \<longrightarrow> dbs_wf d1" by (auto simp: dbs_wf_def t queue_wf_def split: option.split)
  moreover have "\<forall>u. runas V S = Some u \<longleftrightarrow> V ''PODPING_RUNAS_USER'' = Some u \<and> fs_runas_ok S"
    by (simp add: runas_def split: option.split)
  ultimately show ?thesis using f t by simp
qed

definition demo_fs :: fe_start_env where
  "demo_fs = \<lparr>fs_auth_env = demo_env, fs_queue_env = demo_env, fs_hive_socket_ok = True, fs_gossip_socket_ok = True,
     fs_hook_first = True, fs_bind_ok = True, fs_runas_ok = False\<rparr>"

definition demo_gossip_vars :: env_vars where
  "demo_gossip_vars = [''GOSSIP_WRITER_ENABLED'' \<mapsto> ''TRUE'', ''PODPING_RUNAS_USER'' \<mapsto> ''podping'']"

lemma demo_created: "create_databases demo_env demo_env \<lparr>publishers_tbl = None, queue_tbl = None\<rparr>
    = (\<lparr>publishers_tbl = Some [], queue_tbl = Some []\<rparr>, Ok True)"
  by (simp add: create_databases_def connect_to_database_def demo_env_def)

lemma demo_gossip_flag: "gossip_writer_enabled demo_gossip_vars"
proof -
  have "eq_ignore_ascii_case ''TRUE'' ''true''" by code_simp
  then show ?thesis by (simp add: gossip_writer_enabled_def demo_gossip_vars_def env_or_def Let_def)
qed

theorem started_front_end_ready_witness:
  "\<exists>f. podping_main [''podping''] demo_gossip_vars demo_fs \<lparr>publishers_tbl = None, queue_tbl = None\<rparr> = Ret (Ok f)
     \<and> queue_tbl (fe_dbs (fn_state f)) = Some [] \<and> fn_gossip_addr f \<noteq> None \<and> fn_user f = None"
proof -
  have "open_sockets demo_gossip_vars demo_fs = Ret (zmq_address demo_gossip_vars, Some (gossip_addr demo_gossip_vars))"
    using demo_gossip_flag by (simp add: open_sockets_def demo_fs_def)
  then obtain f where f: "podping_main [''podping''] demo_gossip_vars demo_fs \<lparr>publishers_tbl = None, queue_tbl = None\<rparr> = Ret (Ok f)"
    using demo_created by (simp add: podping_main_def main_start_def demo_fs_def Let_def)
  have "fs_hook_first demo_fs" "\<not> fs_runas_ok demo_fs" by (simp_all add: demo_fs_def)
  with started_front_end_ready [OF f] f show ?thesis
    by (intro exI [of _ f]) (auto simp: demo_gossip_flag podping_main_def main_start_def demo_fs_def demo_created open_sockets_def Let_def)
qed

text \<open>A hook too late: the panic hook is meant to end the process when the queue thread panics, but it is
  installed after that thread is spawned; when a socket cannot be opened before that, the process
  stays up, answers requests and never sends a ping.\<close>

theorem early_panic_leaves_dead_queue:
  assumes "podping_main args V S d = Ret (Ok f)" and "\<not> fs_hive_socket_ok S"
  shows "\<not> fe_running (fn_state f) \<and> fn_router f = app_router \<and> queue_loop C cfg Xs (fn_state f) = fn_state f"
proof -
  have "open_sockets V S = Panic" using assms(2) by (simp add: open_sockets_def)
  then have "\<not> fe_running (fn_state f) \<and> fn_router f = app_router" using podping_main_Ok [OF assms(1)] by metis
  moreover from this have "queue_loop C cfg Xs (fn_state f) = fn_state f" by (cases Xs) simp_all
  ultimately show ?thesis by blast
qed

theorem early_panic_leaves_dead_queue_witness:
  "\<exists>f. podping_main [''podping''] Map.empty (demo_fs\<lparr>fs_hook_first := False, fs_hive_socket_ok := False\<rparr>)
       \<lparr>publishers_tbl = None, queue_tbl = None\<rparr> = Ret (Ok f) \<and> \<not> fe_running (fn_state f)"
proof -
  let ?S = "demo_fs\<lparr>fs_hook_first := False, fs_hive_socket_ok := False\<rparr>"
  have "open_sockets Map.empty ?S = Panic" by (simp add: open_sockets_def)
  then obtain f where f: "podping_main [''podping''] Map.empty ?S \<lparr>publishers_tbl = None, queue_tbl = None\<rparr> = Ret (Ok f)"
    using demo_created by (simp add: podping_main_def main_start_def demo_fs_def Let_def)
  with early_panic_leaves_dead_queue [OF f] show ?thesis by (simp add: demo_fs_def)
qed

end
