(* ===== verification/Stresser.thy ===== *)
theory Stresser
  imports Handler
begin

text \<open>
  The load generator \<^verbatim>\<open>stresser/src/main.rs\<close>: the urls it makes up, the requests it sends and how it
  treats its arguments; and what the front-end does with such a load. The random generator is the
  parameter \<open>rng\<close> (url and position to index), the HTTP client that turns a url and headers into a
  request is the parameter \<open>client\<close>; at most fifty requests are under way at a time, so they arrive in
  an order that the parameter of the last section leaves open.
\<close>

section \<open>Constants\<close>

definition AUTH_HEADER_TOKEN :: string where
  "AUTH_HEADER_TOKEN = ''Blahblah^^12345678''"

definition REASONS :: "string list" where
  "REASONS = [''update'', ''live'', ''liveEnd'']"

definition MEDIUMS :: "string list" where
  "MEDIUMS = [''podcast'', ''podcastl'', ''music'', ''musicl'', ''video'', ''videol'', ''film'', ''filml'',
     ''audiobook'', ''audiobookl'', ''newsletter'', ''newsletterl'', ''blog'', ''blogl'']"

definition CHARSET :: string where
  "CHARSET = ''ABCDEFGHIJKLMNOPQRSTUVWXYZabcdefghijklmnopqrstuvwxyz0123456789''"

definition URL_LEN :: nat where
  "URL_LEN = 30"

section \<open>The program\<close>

definition build_url_list :: "(nat \<Rightarrow> nat \<Rightarrow> nat) \<Rightarrow> nat \<Rightarrow> string list" where
  "build_url_list rng num =
     map (\<lambda>i. ''https://example.com/'' @ map (\<lambda>j. CHARSET ! rng i j) [0..<URL_LEN] @ ''/rss'') [0..<num]"

text \<open>What follows the host in the url of a request.\<close>

definition stress_query :: "string \<Rightarrow> string" where
  "stress_query path = ''url='' @ path @ ''&medium='' @ hd MEDIUMS @ ''&reason='' @ hd REASONS"

definition pp_get_url :: "string \<Rightarrow> string \<Rightarrow> string" where
  "pp_get_url hostname path = ''http://'' @ hostname @ ''/?'' @ stress_query path"

definition stress_headers :: "(string \<times> string) list" where
  "stress_headers = [(''authorization'', AUTH_HEADER_TOKEN), (''user-agent'', ''Stresser'')]"

text \<open>
  The end of the program: an exit with a code, or the urls and headers it sent, in the order they were
  started. The arguments include the program name.
\<close>

datatype stress_end = Exited nat | Sent_all "(string \<times> (string \<times> string) list) list"

definition stress_main :: "(nat \<Rightarrow> nat \<Rightarrow> nat) \<Rightarrow> string list \<Rightarrow> stress_end outcome" where
  "stress_main rng args =
     (if length args \<le> 1 then Ret (Exited 1)
      else if length args \<le> 2 then Panic
      else
        let hostname = args ! 1;
            url_count = (case parse_u64 (args ! 2) of Some n \<Rightarrow> n | None \<Rightarrow> 5);
            paths = build_url_list rng url_count
        in Ret (Sent_all (map (\<lambda>path. (pp_get_url hostname path, stress_headers)) (take url_count paths))))"

section \<open>The front-end under load\<close>

text \<open>The front-end serves requests one after the other, each with the environment of its turn.\<close>

fun serve_all :: "recognizer \<Rightarrow> http_lib \<Rightarrow> req_env list \<Rightarrow> app_state \<Rightarrow> http_req list \<Rightarrow> dbs \<Rightarrow> (dbs \<times> response list) outcome" where
  "serve_all recognize L (E # Es) st (r # rs) d =
     bind_outcome (route recognize L E st r d) (\<lambda>(d1, resp).
     bind_outcome (serve_all recognize L Es st rs d1) (\<lambda>(d2, resps). Ret (d2, resp # resps)))"
| "serve_all recognize L Es st rs d = Ret (d, [])"

section \<open>Lemmas\<close>

lemma build_url_length: "u \<in> set (build_url_list rng n) \<Longrightarrow> length u = 54"
  by (auto simp: build_url_list_def URL_LEN_def)

lemma length_build_url_list [simp]: "length (build_url_list rng n) = n"
  by (simp add: build_url_list_def)

lemma build_url_http: "u \<in> set (build_url_list rng n) \<Longrightarrow> starts_with (to_lowercase u) ''http''"
  by (auto simp: build_url_list_def to_lowercase_def to_ascii_lower_def byte_def)

lemma CHARSET_alnum: "c \<in> set CHARSET \<Longrightarrow> is_digit c \<or> (65 \<le> byte c \<and> byte c \<le> 90) \<or> (97 \<le> byte c \<and> byte c \<le> 122)"
  by (auto simp: CHARSET_def is_digit_def byte_def)

lemma stress_words: "reason_from_str (hd REASONS) = Some Update" "medium_from_str (hd MEDIUMS) = Some Podcast"
  by code_simp+

lemma stress_token: "ascii_str AUTH_HEADER_TOKEN" "length AUTH_HEADER_TOKEN = 18"
  by code_simp+

text \<open>What the crates do with the request for one url: the client sends the path, the query and the headers,
  the router recognises the path, the header and query parsers return what was sent.\<close>

definition request_of :: "string \<Rightarrow> http_req" where
  "request_of path = \<lparr>req_method = ''GET'', req_path = ''/'', req_query = Some (stress_query path), req_headers = stress_headers\<rparr>"

definition crates_ok :: "recognizer \<Rightarrow> http_lib \<Rightarrow> string list \<Rightarrow> bool" where
  "crates_ok recognize L paths \<longleftrightarrow>
     router_route recognize app_router ''/'' ''GET'' = (PingH, [])
     \<and> header_to_str L AUTH_HEADER_TOKEN = Some AUTH_HEADER_TOKEN \<and> header_to_str L ''Stresser'' = Some ''Stresser''
     \<and> (\<forall>p \<in> set paths. form_parse L (stress_query p) = [(''url'', p), (''medium'', hd MEDIUMS), (''reason'', hd REASONS)])"

definition turn_ok :: "req_env \<Rightarrow> bool" where
  "turn_ok E \<longleftrightarrow> (\<exists>now. clock_secs E = Some now \<and> uint now < 2 ^ 63)
     \<and> can_open (auth_env E) \<and> stmt_ok (auth_env E) \<and> step_ok (auth_env E)
     \<and> can_open (insert_env E) \<and> stmt_ok (insert_env E) \<and> can_open (update_env E) \<and> stmt_ok (update_env E)"

lemma request_sel: "req_path (request_of p) = ''/''" "req_method (request_of p) = ''GET''"
  by (simp_all add: request_of_def)

lemma request_header:
  "header (request_of p) ''authorization'' = Some AUTH_HEADER_TOKEN" "header (request_of p) ''user-agent'' = Some ''Stresser''"
  "header (request_of p) ''cf-connecting-ip'' = None"
  by (simp_all add: header_def request_of_def stress_headers_def)

lemma request_params:
  "crates_ok recognize L [p] \<Longrightarrow>
   query_params L (request_of p) = [(''reason'', hd REASONS), (''medium'', hd MEDIUMS), (''url'', p)]"
  by (simp add: query_params_def request_of_def crates_ok_def)

lemma stress_request_stored:
  assumes "crates_ok recognize L [p]" and "starts_with (to_lowercase p) ''http''" and "clock_secs E = Some now"
    and "check_auth (auth_env E) AUTH_HEADER_TOKEN d = Ret (Ok n)"
  shows "route recognize L E st (request_of p) d
    = Ret (store_ping E \<lparr>ping_url = p, ping_time = now, ping_reason = Update, ping_medium = Podcast\<rparr> d)"
proof -
  have "authorize L E (request_of p) d = Ret (Ok ())"
    using assms(1,4) by (auto simp: authorize_ok crates_ok_def request_header)
  moreover have "check_url (query_params L (request_of p)) = Ok p"
    using assms(2) by (simp add: check_url_ok request_params [OF assms(1)])
  ultimately show ?thesis
    using assms(1,3) stress_words
    by (simp add: route_def request_sel ping_handler_def log_header_def or_return_def check_user_agent_def set_reason_def
        set_medium_def request_params [OF assms(1)] request_header crates_ok_def Let_def)
qed

lemma add_ping_publishers [simp]: "publishers_tbl (fst (add_ping_to_queue e e2 p d)) = publishers_tbl d"
  by (simp add: add_ping_to_queue_def connect_to_database_def execute_queue_def update_ping_in_queue_def
      split: option.split reason.split)

lemma add_ping_has_queue: "queue_tbl d \<noteq> None \<Longrightarrow> queue_tbl (fst (add_ping_to_queue e e2 p d)) \<noteq> None"
  by (auto simp: add_ping_to_queue_def connect_to_database_def execute_queue_def update_ping_in_queue_def
      split: option.split reason.split)

lemma add_ping_wf: "dbs_wf d \<Longrightarrow> dbs_wf (fst (add_ping_to_queue e e2 p d))"
  using apply_op_wf [of "AddPing e e2 p" d] by simp

lemma add_ping_other: "dbs_wf d \<Longrightarrow> u \<noteq> ping_url p \<Longrightarrow> status (fst (add_ping_to_queue e e2 p d)) u = status d u"
  using apply_op_life [of d "AddPing e e2 p" u] by (auto elim!: life_AddPingE)

lemma check_auth_cong: "publishers_tbl d = publishers_tbl d' \<Longrightarrow> check_auth e t d = check_auth e t d'"
  by (simp add: check_auth_def lookup_auth_def split: sum.split)

lemma crates_ok_mem: "crates_ok recognize L ps \<Longrightarrow> p \<in> set ps \<Longrightarrow> crates_ok recognize L [p]"
  by (simp add: crates_ok_def)

definition accepts :: "req_env \<Rightarrow> dbs \<Rightarrow> bool" where
  "accepts E d \<longleftrightarrow> turn_ok E \<and> (\<exists>n. check_auth (auth_env E) AUTH_HEADER_TOKEN d = Ret (Ok n))"

lemma serve_one:
  assumes "crates_ok recognize L [p]" and "starts_with (to_lowercase p) ''http''" and "accepts E d"
    and "dbs_wf d" and "queue_tbl d \<noteq> None"
  obtains d1 resp where "route recognize L E st (request_of p) d = Ret (d1, resp)" "status_code resp = 200"
    "dbs_wf d1" "queue_tbl d1 \<noteq> None" "publishers_tbl d1 = publishers_tbl d"
    "status d1 p = (if status d p = Absent then Queued (reason_to_string Update) else status d p)"
    "\<And>u. u \<noteq> p \<Longrightarrow> status d1 u = status d u"
proof -
  obtain now n where E: "clock_secs E = Some now" "uint now < 2 ^ 63" "check_auth (auth_env E) AUTH_HEADER_TOKEN d = Ret (Ok n)"
    "can_open (insert_env E)" "stmt_ok (insert_env E)" "can_open (update_env E)" "stmt_ok (update_env E)"
    using assms(3) by (auto simp: accepts_def turn_ok_def)
  obtain q where q: "queue_tbl d = Some q" using assms(5) by blast
  let ?p = "\<lparr>ping_url = p, ping_time = now, ping_reason = Update, ping_medium = Podcast\<rparr>"
  let ?d = "fst (add_ping_to_queue (insert_env E) (update_env E) ?p d)"
  have "route recognize L E st (request_of p) d = Ret (?d, respond 200 ''Success!'')"
    using stress_request_stored [OF assms(1,2) E(1,3)] by (simp add: store_ping_eq)
  moreover have "status ?d p = (if status d p = Absent then Queued (reason_to_string Update) else status d p)"
    using add_ping_status [OF q E(4-7), of ?p] E(2) by simp
  moreover have "status ?d u = status d u" if "u \<noteq> p" for u
    using add_ping_other [OF assms(4), of u ?p] that by simp
  ultimately show thesis
    using that add_ping_wf [OF assms(4)] add_ping_has_queue [OF assms(5)] by (simp add: respond_def)
qed

lemma serve_paths:
  assumes "\<And>p. p \<in> set ps \<Longrightarrow> crates_ok recognize L [p] \<and> starts_with (to_lowercase p) ''http''"
    and "length Es = length ps" and "list_all (\<lambda>E. accepts E d) Es" and "dbs_wf d" and "queue_tbl d \<noteq> None"
  shows "\<exists>d' resps. serve_all recognize L Es st (map request_of ps) d = Ret (d', resps) \<and> length resps = length ps
    \<and> list_all (\<lambda>r. status_code r = 200) resps
    \<and> (\<forall>u. status d' u = (if u \<in> set ps \<and> status d u = Absent then Queued (reason_to_string Update) else status d u))"
  using assms
proof (induction ps arbitrary: Es d)
  case Nil
  then show ?case by simp
next
  case (Cons p ps)
  then obtain E Fs where Es: "Es = E # Fs" by (cases Es) auto
  obtain d1 resp where one: "route recognize L E st (request_of p) d = Ret (d1, resp)" "status_code resp = 200"
    "dbs_wf d1" "queue_tbl d1 \<noteq> None" "publishers_tbl d1 = publishers_tbl d"
    "status d1 p = (if status d p = Absent then Queued (reason_to_string Update) else status d p)"
    "\<And>u. u \<noteq> p \<Longrightarrow> status d1 u = status d u"
    using serve_one [of recognize L p E d] Cons.prems Es by auto
  have "list_all (\<lambda>E. accepts E d1) Fs"
    using Cons.prems(3) check_auth_cong [OF one(5)] by (simp add: Es accepts_def)
  then obtain d' resps where rest: "serve_all recognize L Fs st (map request_of ps) d1 = Ret (d', resps)" "length resps = length ps"
    "list_all (\<lambda>r. status_code r = 200) resps"
    "\<forall>u. status d' u = (if u \<in> set ps \<and> status d1 u = Absent then Queued (reason_to_string Update) else status d1 u)"
    using Cons.IH [of Fs d1] Cons.prems(1,2) one(3,4) Es by auto
  have "status d' u = (if u \<in> set (p # ps) \<and> status d u = Absent then Queued (reason_to_string Update) else status d u)" for u
    using rest(4) one(6,7) by (cases "u = p") auto
  with one(1,2) rest(1-3) show ?case by (intro exI [of _ d'] exI [of _ "resp # resps"]) (simp add: Es)
qed

section \<open>Properties\<close>

text \<open>The front-end takes the whole load: when the stresser's token is accepted, the requests for its urls,
  in whatever order they arrive, are all answered 200; afterwards every url that was not in the queue
  is queued as an update, and nothing else in the queue has changed.\<close>

theorem load_is_queued:
  assumes "mset ps = mset (build_url_list rng n)" and "crates_ok recognize L (build_url_list rng n)"
    and "length Es = n" and "list_all (\<lambda>E. accepts E d) Es" and "dbs_wf d" and "queue_tbl d \<noteq> None"
  shows "\<exists>d' resps. serve_all recognize L Es st (map request_of ps) d = Ret (d', resps) \<and> length resps = n
    \<and> list_all (\<lambda>r. status_code r = 200) resps
    \<and> (\<forall>u. status d' u = (if u \<in> set (build_url_list rng n) \<and> status d u = Absent
                          then Queued (reason_to_string Update) else status d u))"
proof -
  have s: "set ps = set (build_url_list rng n)" using assms(1) by (metis set_mset_mset)
  have l: "length ps = n" using assms(1) by (metis size_mset length_build_url_list)
  have "\<exists>d' resps. serve_all recognize L Es st (map request_of ps) d = Ret (d', resps) \<and> length resps = length ps
    \<and> list_all (\<lambda>r. status_code r = 200) resps
    \<and> (\<forall>u. status d' u = (if u \<in> set ps \<and> status d u = Absent then Queued (reason_to_string Update) else status d u))"
    using assms(3-6) s l crates_ok_mem [OF assms(2)] build_url_http by (intro serve_paths) auto
  then show ?thesis by (simp only: s l)
qed

definition demo_stress_lib :: http_lib where
  "demo_stress_lib = \<lparr>header_to_str = Some,
     form_parse = (\<lambda>s. [(''url'', take 54 (drop 4 s)), (''medium'', hd MEDIUMS), (''reason'', hd REASONS)]),
     render_template = (\<lambda>doc v. Some doc)\<rparr>"

definition demo_stress_dbs :: dbs where
  "demo_stress_dbs = demo_dbs\<lparr>publishers_tbl := Some [\<lparr>pub_name = Some ''load'', pub_authval = Some AUTH_HEADER_TOKEN\<rparr>]\<rparr>"

lemma demo_crates_ok: "crates_ok demo_recognize demo_stress_lib (build_url_list rng n)"
  using build_url_length [of _ rng n]
  by (auto simp: crates_ok_def demo_http_route demo_stress_lib_def stress_query_def)

lemma demo_stress_auth: "check_auth demo_env AUTH_HEADER_TOKEN demo_stress_dbs = Ret (Ok ''load'')"
  by code_simp

theorem load_is_queued_witness:
  "\<exists>d' resps. serve_all demo_recognize demo_stress_lib [demo_req_env, demo_req_env] demo_app
       (map request_of (rev (build_url_list (\<lambda>i j. i) 2))) demo_stress_dbs = Ret (d', resps)
     \<and> length resps = 2 \<and> list_all (\<lambda>r. status_code r = 200) resps"
proof -
  have "accepts demo_req_env demo_stress_dbs"
    using demo_stress_auth by (auto simp: accepts_def turn_ok_def demo_req_env_def demo_env_def)
  moreover have "dbs_wf demo_stress_dbs" "queue_tbl demo_stress_dbs \<noteq> None"
    using demo_dbs_wf by (simp_all add: dbs_wf_def demo_stress_dbs_def demo_sels)
  ultimately show ?thesis
    using load_is_queued [of "rev (build_url_list (\<lambda>i j. i) 2)" "\<lambda>i j. i" 2 demo_recognize demo_stress_lib
        "[demo_req_env, demo_req_env]" demo_stress_dbs demo_app] demo_crates_ok by auto
qed

text \<open>The stresser can stop the front-end: its token has 18 characters, so when it is not registered the
  first request makes the token check slice past the end, and the handler panics.\<close>

theorem unregistered_stresser_stops_front_end:
  assumes "crates_ok recognize L [p]"
    and "check_auth (auth_env E) AUTH_HEADER_TOKEN d = Ret (Err err)" and "can_open (hybrid_env E)"
  shows "route recognize L E st (request_of p) d = Panic"
proof -
  have "slice_to AUTH_HEADER_TOKEN 22 = Panic" by (simp add: slice_to_ascii stress_token)
  then have "check_auth_hybrid (hybrid_env E) AUTH_HEADER_TOKEN d = Panic"
    using assms(3) by (simp add: check_auth_hybrid_def connect_to_database_def)
  then have "authorize L E (request_of p) d = Panic"
    using assms(1,2) by (simp add: authorize_def request_header crates_ok_def)
  moreover have "query_params L (request_of p) \<noteq> []" using assms(1) by (simp add: request_params)
  ultimately show ?thesis
    using assms(1)
    by (cases "clock_secs E") (simp_all add: route_def request_sel ping_handler_def Let_def or_return_def log_header_def
        request_header crates_ok_def)
qed

lemma demo_stress_no_auth: "\<exists>err. check_auth demo_env AUTH_HEADER_TOKEN demo_dbs = Ret (Err err)"
proof -
  have "(case check_auth demo_env AUTH_HEADER_TOKEN demo_dbs of Ret (Inl _) \<Rightarrow> True | _ \<Rightarrow> False)" by code_simp
  then show ?thesis by (auto split: outcome.splits sum.splits)
qed

theorem unregistered_stresser_stops_front_end_witness:
  "route demo_recognize demo_stress_lib demo_req_env demo_app (request_of (hd (build_url_list (\<lambda>i j. 0) 1))) demo_dbs = Panic"
proof -
  obtain err where "check_auth demo_env AUTH_HEADER_TOKEN demo_dbs = Ret (Err err)" using demo_stress_no_auth by blast
  moreover have "crates_ok demo_recognize demo_stress_lib [hd (build_url_list (\<lambda>i j. 0) 1)]"
    using demo_crates_ok [of "\<lambda>i j. 0" 1] by (rule crates_ok_mem) (simp add: build_url_list_def)
  ultimately show ?thesis
    using unregistered_stresser_stops_front_end [of demo_recognize demo_stress_lib "hd (build_url_list (\<lambda>i j. 0) 1)"
        demo_req_env demo_dbs err demo_app] by (simp add: demo_req_env_def demo_env_def)
qed

text \<open>Without a url count the program panics on its arguments, although the count has a default; a count
  that is no number means five urls; every url it makes up has 54 characters.\<close>

theorem stress_arguments:
  "stress_main rng [prog, host] = Panic \<and> stress_main rng [prog] = Ret (Exited 1)
   \<and> (parse_u64 x = None \<longrightarrow> (\<exists>sent. stress_main rng [prog, host, x] = Ret (Sent_all sent) \<and> length sent = 5
        \<and> list_all (\<lambda>(u, h). \<exists>p. u = pp_get_url host p \<and> length p = 54) sent))"
  using build_url_length [of _ rng 5] by (auto simp: stress_main_def list_all_iff)

end
