(* ===== verification/Process_Metrics.thy ===== *)
theory Process_Metrics
  imports Reconnect
begin

text \<open>
  What the gossip programs read about their own process from \<^verbatim>\<open>/proc\<close>: \<^verbatim>\<open>gather_metrics\<close> of an
  announcement and the resident size that the health task compares with its ceiling. The files are
  text; the arithmetic and parsing of \<^verbatim>\<open>f64\<close> are the record \<open>cpu_ops\<close>.
\<close>

section \<open>Splitting on white space\<close>

text \<open>\<^verbatim>\<open>str::split_whitespace\<close>; \<open>acc\<close> is the piece being read, reversed.\<close>

function split_ws :: "string \<Rightarrow> string \<Rightarrow> string list" where
  "split_ws acc [] = (if acc = [] then [] else [rev acc])"
| "split_ws acc (c # cs) =
     (if ws_lead (c # cs) = 0 then split_ws (c # acc) cs
      else (if acc = [] then [] else [rev acc]) @ split_ws [] (drop (ws_lead (c # cs)) (c # cs)))"
  by pat_completeness auto
termination
  by (relation "measure (\<lambda>(acc, s). length s)") auto

definition split_whitespace :: "string \<Rightarrow> string list" where
  "split_whitespace s = split_ws [] s"

definition nth_opt :: "'a list \<Rightarrow> nat \<Rightarrow> 'a option" where
  "nth_opt xs n = (if n < length xs then Some (xs ! n) else None)"

section \<open>Metrics\<close>

text \<open>The files; \<^verbatim>\<open>status\<close> is read twice. A file that cannot be read as text is missing.\<close>

record proc_files =
  pf_status1 :: "string option"
  pf_status2 :: "string option"
  pf_stat :: "string option"
  pf_uptime :: "string option"
  pf_statm :: "string option"

record 'f cpu_ops =
  cp_parse :: "string \<Rightarrow> 'f option"
  cp_of_u64 :: "u64 \<Rightarrow> 'f"
  cp_sub :: "'f \<Rightarrow> 'f \<Rightarrow> 'f"
  cp_div :: "'f \<Rightarrow> 'f \<Rightarrow> 'f"
  cp_mul :: "'f \<Rightarrow> 'f \<Rightarrow> 'f"
  cp_pos :: "'f \<Rightarrow> bool"
  cp_hundred :: 'f
  cp_to_f32 :: "'f \<Rightarrow> u32"

definition parse_u32 :: "string \<Rightarrow> u32 option" where
  "parse_u32 s = (case parse_u64 s of Some n \<Rightarrow> if n < 2 ^ 32 then Some (of_nat n) else None | None \<Rightarrow> None)"

definition parse_w64 :: "string \<Rightarrow> u64 option" where
  "parse_w64 s = map_option of_nat (parse_u64 s)"

text \<open>The second word of the first line of a status file that starts with a key.\<close>

definition status_field :: "string \<Rightarrow> string \<Rightarrow> string option" where
  "status_field key s =
     Option.bind (find (\<lambda>l. starts_with l key) (lines s)) (\<lambda>l. nth_opt (split_whitespace l) 1)"

definition thread_count :: "string option \<Rightarrow> u32 option" where
  "thread_count file = Option.bind file (\<lambda>s. Option.bind (status_field ''Threads:'' s) parse_u32)"

definition memory_mb :: "string option \<Rightarrow> u64 option" where
  "memory_mb file =
     map_option (\<lambda>kb. kb div 1024) (Option.bind file (\<lambda>s. Option.bind (status_field ''VmRSS:'' s) parse_w64))"

text \<open>The fields of a stat line after the last closing parenthesis, which ends the command name.\<close>

definition stat_fields :: "string \<Rightarrow> string list" where
  "stat_fields stat = split_whitespace (last (split_on (CHR '')'') stat))"

definition stat_number :: "string \<Rightarrow> nat \<Rightarrow> u64 option" where
  "stat_number stat i = Option.bind (nth_opt (stat_fields stat) i) parse_w64"

definition cpu_percent :: "'f cpu_ops \<Rightarrow> string option \<Rightarrow> string option \<Rightarrow> u32 option" where
  "cpu_percent F stat uptime =
     Option.bind stat (\<lambda>st.
     Option.bind (stat_number st 11) (\<lambda>utime.
     Option.bind (stat_number st 12) (\<lambda>stime.
     Option.bind uptime (\<lambda>up.
     Option.bind (nth_opt (split_whitespace up) 0) (\<lambda>word.
     Option.bind (cp_parse F word) (\<lambda>uptime_secs.
     Option.bind (stat_number st 19) (\<lambda>start_time.
       let ticks_per_sec = cp_of_u64 F 100;
           process_secs = cp_sub F uptime_secs (cp_div F (cp_of_u64 F start_time) ticks_per_sec)
       in if cp_pos F process_secs
          then Some (cp_to_f32 F (cp_mul F (cp_div F (cp_div F (cp_of_u64 F (utime + stime)) ticks_per_sec) process_secs) (cp_hundred F)))
          else None)))))))"

definition gather_metrics :: "'f cpu_ops \<Rightarrow> proc_files \<Rightarrow> u32 option \<times> u64 option \<times> u32 option" where
  "gather_metrics F P =
     (cpu_percent F (pf_stat P) (pf_uptime P), memory_mb (pf_status2 P), thread_count (pf_status1 P))"

definition read_rss_bytes :: "bool \<Rightarrow> proc_files \<Rightarrow> u64" where
  "read_rss_bytes linux P =
     (if \<not> linux then 0
      else (case pf_statm P of
              None \<Rightarrow> 0
            | Some s \<Rightarrow>
                (case Option.bind (nth_opt (split_whitespace s) 1) parse_w64 of
                   Some pages \<Rightarrow> pages * 4096
                 | None \<Rightarrow> 0)))"

text \<open>The copies of the listener and the monitor.\<close>

definition l_gather_metrics :: "'f cpu_ops \<Rightarrow> proc_files \<Rightarrow> u32 option \<times> u64 option \<times> u32 option" where
  "l_gather_metrics F P =
     (let threads = thread_count (pf_status1 P); mem = memory_mb (pf_status2 P); cpu = cpu_percent F (pf_stat P) (pf_uptime P)
      in (cpu, mem, threads))"

definition l_read_rss_bytes :: "bool \<Rightarrow> proc_files \<Rightarrow> u64" where
  "l_read_rss_bytes linux P =
     (case (if linux then Option.bind (pf_statm P) (\<lambda>s. Option.bind (nth_opt (split_whitespace s) 1) parse_w64) else None) of
        Some pages \<Rightarrow> pages * 4096
      | None \<Rightarrow> 0)"

definition m_read_rss_bytes :: "bool \<Rightarrow> proc_files \<Rightarrow> u64" where
  "m_read_rss_bytes linux P =
     (case (if linux then Option.bind (pf_statm P) (\<lambda>s. Option.bind (nth_opt (split_whitespace s) 1) parse_w64) else None) of
        Some pages \<Rightarrow> pages * 4096
      | None \<Rightarrow> 0)"

section \<open>Lemmas\<close>

lemma metrics_copies_agree:
  "l_gather_metrics F P = gather_metrics F P" "l_read_rss_bytes linux P = read_rss_bytes linux P"
  "m_read_rss_bytes linux P = read_rss_bytes linux P"
  by (simp_all add: l_gather_metrics_def gather_metrics_def l_read_rss_bytes_def m_read_rss_bytes_def read_rss_bytes_def
      split: option.split)

text \<open>ASCII characters that are not white space.\<close>

definition solid :: "char \<Rightarrow> bool" where
  "solid c \<longleftrightarrow> byte c < 128 \<and> \<not> ascii_ws c"

lemma ws_lead_solid: "solid c \<Longrightarrow> ws_lead (c # cs) = 0"
  by (cases cs rule: remdups_adj.cases) (auto simp: solid_def ws2_def)

lemma ws_lead_ascii_ws: "ascii_ws c \<Longrightarrow> ws_lead (c # cs) = Suc 0"
  by (cases cs rule: remdups_adj.cases) auto

lemma split_ws_solid: "list_all solid t \<Longrightarrow> split_ws acc (t @ r) = split_ws (rev t @ acc) r"
  by (induction t arbitrary: acc) (simp_all add: ws_lead_solid)

lemma split_ws_gap: "ascii_ws c \<Longrightarrow> split_ws acc (c # r) = (if acc = [] then [] else [rev acc]) @ split_ws [] r"
  by (simp add: ws_lead_ascii_ws)

text \<open>Words, each after one blank.\<close>

definition spaced_words :: "string list \<Rightarrow> string" where
  "spaced_words ts = concat (map (\<lambda>t. CHR '' '' # t) ts)"

lemma ascii_ws_chars: "ascii_ws (CHR '' '')" "ascii_ws (CHR 0x09)" "ascii_ws (CHR 0x0A)"
  by (simp_all add: ascii_ws_def byte_def)

lemma split_ws_words:
  "list_all (\<lambda>t. t \<noteq> [] \<and> list_all solid t) ts \<Longrightarrow>
   split_ws acc (spaced_words ts @ [CHR 0x0A]) = (if acc = [] then [] else [rev acc]) @ ts"
proof (induction ts arbitrary: acc)
  case Nil
  then show ?case using split_ws_gap [OF ascii_ws_chars(3), of acc "[]"] by (simp add: spaced_words_def)
next
  case (Cons t ts)
  have "split_ws [] (t @ spaced_words ts @ [CHR 0x0A]) = t # ts"
    using Cons by (simp add: split_ws_solid)
  then show ?case
    using split_ws_gap [OF ascii_ws_chars(1), of acc "t @ spaced_words ts @ [CHR 0x0A]"] by (simp add: spaced_words_def)
qed

lemma digit_solid: "is_digit c \<Longrightarrow> solid c"
  by (auto simp: is_digit_def solid_def ascii_ws_def)

lemma dec_solid: "list_all solid (dec n)"
  using dec_digits [of n] digit_solid by (auto simp: list_all_iff)

lemma parse_w64_dec: "n < 2 ^ 64 \<Longrightarrow> parse_w64 (dec n) = Some (of_nat n)"
  by (simp add: parse_w64_def parse_u64_dec)

lemma parse_u32_dec: "n < 2 ^ 32 \<Longrightarrow> parse_u32 (dec n) = Some (of_nat n)"
  by (simp add: parse_u32_def parse_u64_dec)

lemma nth_opt_words: "i < length ts \<Longrightarrow> nth_opt ts i = Some (ts ! i)"
  by (simp add: nth_opt_def)

lemma split_on_two: "split_on d (s @ d # t) = split_on d s @ split_on d t"
proof (induction s)
  case (Cons c s)
  then show ?case using split_on_not_Nil [of d s] by (auto split: list.splits)
qed simp

lemma last_split_on: "d \<notin> set t \<Longrightarrow> last (split_on d (s @ d # t)) = t"
  by (simp add: split_on_two split_on_no_sep)

lemma stat_fields_words:
  assumes "list_all (\<lambda>t. t \<noteq> [] \<and> list_all solid t) ts" and "\<forall>t \<in> set ts. CHR '')'' \<notin> set t"
  shows "stat_fields (before @ CHR '')'' # spaced_words ts @ [CHR 0x0A]) = ts"
proof -
  have "CHR '')'' \<notin> set (spaced_words ts @ [CHR 0x0A])" using assms(2) by (auto simp: spaced_words_def)
  then show ?thesis by (simp add: stat_fields_def last_split_on split_whitespace_def split_ws_words [OF assms(1)])
qed

lemma split_ws_blanks: "split_ws [] (replicate n (CHR '' '') @ r) = split_ws [] r"
  by (induction n) (simp_all add: split_ws_gap [OF ascii_ws_chars(1), of "[]", simplified])

lemma find_after: "(\<And>x. x \<in> set pre \<Longrightarrow> \<not> P x) \<Longrightarrow> P x \<Longrightarrow> find P (pre @ x # post) = Some x"
  by (induction pre) auto

lemma status_field_line:
  assumes ok: "list_all line_ok (pre @ (key @ CHR 0x09 # replicate k (CHR '' '') @ w @ tail) # post)"
    and first: "\<And>l. l \<in> set pre \<Longrightarrow> \<not> starts_with l key"
    and words: "list_all solid key" "key \<noteq> []" "list_all solid w" "w \<noteq> []" "tail = [] \<or> (\<exists>c r. tail = c # r \<and> ascii_ws c)"
  shows "status_field key (writelns (pre @ (key @ CHR 0x09 # replicate k (CHR '' '') @ w @ tail) # post)) = Some w"
proof -
  let ?l = "key @ CHR 0x09 # replicate k (CHR '' '') @ w @ tail"
  have "starts_with ?l key" by (auto simp: starts_with_iff)
  then have "find (\<lambda>l. starts_with l key) (pre @ ?l # post) = Some ?l" using first by (simp add: find_after)
  moreover have "split_whitespace ?l = key # split_ws [] (w @ tail)"
    using words(2) split_ws_gap [OF ascii_ws_chars(2), of "rev key" "replicate k (CHR '' '') @ w @ tail"]
    by (simp add: split_whitespace_def split_ws_solid [OF words(1)] split_ws_blanks)
  moreover have "split_ws [] (w @ tail) = w # (case tail of [] \<Rightarrow> [] | c # r \<Rightarrow> split_ws [] r)"
    using words(4,5) by (auto simp: split_ws_solid [OF words(3)] ws_lead_ascii_ws split: list.split)
  ultimately show ?thesis by (simp add: status_field_def lines_writelns [OF ok] nth_opt_def)
qed

section \<open>Properties\<close>

text \<open>The metrics are those of the process: from a status file whose first thread and memory lines say
  \<open>n\<close> threads and \<open>kb\<close> kilobytes, and a stat line with any command name, parentheses and blanks included,
  the announcement carries \<open>n\<close>, \<open>kb\<close> in whole megabytes, and the processor share computed from the
  twelfth, thirteenth and twentieth field after the name.\<close>

theorem announced_metrics_read_back:
  assumes "list_all line_ok (pre1 @ (''Threads:'' @ CHR 0x09 # dec n) # post1)" and "n < 2 ^ 32"
    and "\<forall>l \<in> set pre1. \<not> starts_with l ''Threads:''"
    and "list_all line_ok (pre2 @ (''VmRSS:'' @ CHR 0x09 # replicate k (CHR '' '') @ dec kb @ '' kB'') # post2)" and "kb < 2 ^ 64"
    and "\<forall>l \<in> set pre2. \<not> starts_with l ''VmRSS:''"
    and "list_all (\<lambda>t. t \<noteq> [] \<and> list_all solid t \<and> CHR '')'' \<notin> set t) ts" and "19 < length ts"
    and "ts ! 11 = dec utime" and "ts ! 12 = dec stime" and "ts ! 19 = dec start"
    and "utime < 2 ^ 64" and "stime < 2 ^ 64" and "start < 2 ^ 64"
    and "split_whitespace up = word # words" and "cp_parse F word = Some secs"
  shows "let P = \<lparr>pf_status1 = Some (writelns (pre1 @ (''Threads:'' @ CHR 0x09 # dec n) # post1)),
        pf_status2 = Some (writelns (pre2 @ (''VmRSS:'' @ CHR 0x09 # replicate k (CHR '' '') @ dec kb @ '' kB'') # post2)),
        pf_stat = Some (dec pid @ '' ('' @ comm @ CHR '')'' # spaced_words ts @ [CHR 0x0A]), pf_uptime = Some up, pf_statm = m\<rparr>;
      running = cp_sub F secs (cp_div F (cp_of_u64 F (of_nat start)) (cp_of_u64 F 100))
    in gather_metrics F P =
      (if cp_pos F running
       then Some (cp_to_f32 F (cp_mul F (cp_div F (cp_div F (cp_of_u64 F (of_nat (utime + stime))) (cp_of_u64 F 100)) running) (cp_hundred F)))
       else None, Some (of_nat kb div 1024), Some (of_nat n))"
proof -
  have "status_field ''Threads:'' (writelns (pre1 @ (''Threads:'' @ CHR 0x09 # dec n) # post1)) = Some (dec n)"
    using status_field_line [of pre1 "''Threads:''" 0 "dec n" "[]" post1] assms(1,3) dec_solid [of n]
    by (simp add: solid_def ascii_ws_def byte_def)
  moreover have "status_field ''VmRSS:'' (writelns (pre2 @ (''VmRSS:'' @ CHR 0x09 # replicate k (CHR '' '') @ dec kb @ '' kB'') # post2)) = Some (dec kb)"
    using status_field_line [of pre2 "''VmRSS:''" k "dec kb" "'' kB''" post2] assms(4,6) dec_solid [of kb]
    by (simp add: solid_def ascii_ws_def byte_def)
  moreover have "stat_fields (dec pid @ '' ('' @ comm @ CHR '')'' # spaced_words ts @ [CHR 0x0A]) = ts"
    using stat_fields_words [of ts "dec pid @ '' ('' @ comm"] assms(7) by (simp add: list_all_iff)
  moreover have "nth_opt (split_whitespace up) 0 = Some word" by (simp add: assms(15) nth_opt_def)
  ultimately show ?thesis
    using assms(2,5,8-14,16)
    by (simp add: gather_metrics_def thread_count_def memory_mb_def cpu_percent_def stat_number_def nth_opt_words
        parse_w64_dec parse_u32_dec Let_def)
qed

definition demo_cpu_ops :: "int cpu_ops" where
  "demo_cpu_ops = \<lparr>cp_parse = (\<lambda>s. Some (int (digits_val s))), cp_of_u64 = uint, cp_sub = (-), cp_div = (\<lambda>a b. a div b),
     cp_mul = (*), cp_pos = (\<lambda>a. 0 < a), cp_hundred = 100, cp_to_f32 = of_int\<rparr>"

definition demo_stat :: "string list" where
  "demo_stat = replicate 11 ''0'' @ [dec 700, dec 300] @ replicate 6 ''0'' @ [dec 1000]"

theorem announced_metrics_read_back_witness:
  "gather_metrics demo_cpu_ops
     \<lparr>pf_status1 = Some (writelns ([''Name: a''] @ (''Threads:'' @ CHR 0x09 # dec 7) # [])),
      pf_status2 = Some (writelns ([] @ (''VmRSS:'' @ CHR 0x09 # replicate 3 (CHR '' '') @ dec 4096 @ '' kB'') # [])),
      pf_stat = Some (dec 5 @ '' ('' @ ''a) b'' @ CHR '')'' # spaced_words demo_stat @ [CHR 0x0A]),
      pf_uptime = Some ''20 4'', pf_statm = None\<rparr> = (Some 100, Some 4, Some 7)"
proof -
  have d: "list_all (\<lambda>c. c \<noteq> CHR 0x0A \<and> c \<noteq> CHR 0x0D) (dec n)" for n
    using dec_digits [of n] by (auto simp: list_all_iff is_digit_def byte_def)
  have last: "last (dec n) \<noteq> CHR 0x0D" for n
    using d [of n] last_in_set [OF dec_nonempty [of n]] by (auto simp: list_all_iff)
  have "CHR 0x0A \<notin> set (dec n)" for n using d [of n] by (auto simp: list_all_iff)
  with last have 1: "list_all line_ok ([''Name: a''] @ (''Threads:'' @ CHR 0x09 # dec 7) # [])"
    and 2: "list_all line_ok ([] @ (''VmRSS:'' @ CHR 0x09 # replicate 3 (CHR '' '') @ dec 4096 @ '' kB'') # [])"
    by (simp_all add: line_ok_def strip_cr_def numeral_3_eq_3)
  have par: "CHR '')'' \<notin> set (dec n)" for n using dec_digits [of n] by (auto simp: list_all_iff is_digit_def byte_def)
  have 3: "list_all (\<lambda>t. t \<noteq> [] \<and> list_all solid t \<and> CHR '')'' \<notin> set t) demo_stat"
    using par dec_solid unfolding demo_stat_def by (simp add: list_all_iff solid_def ascii_ws_def byte_def)
  have 4: "19 < length demo_stat" "demo_stat ! 11 = dec 700" "demo_stat ! 12 = dec 300" "demo_stat ! 19 = dec 1000"
    by (simp_all add: demo_stat_def nth_append)
  have "split_whitespace ''20 4'' = [''20'', ''4'']"
    by (simp add: split_whitespace_def ascii_ws_def byte_def ws2_def)
  moreover have "cp_parse demo_cpu_ops ''20'' = Some 20" by (simp add: demo_cpu_ops_def digits_val_def byte_def)
  ultimately show ?thesis
    using announced_metrics_read_back [OF 1 _ _ 2 _ _ 3 4, of "''20 4''" "''20''" "[''4'']" demo_cpu_ops 20 5 "''a) b''" None]
    unfolding Let_def by (simp add: demo_cpu_ops_def)
qed

text \<open>A process that outgrows its ceiling gets a fresh endpoint: with more than 262144 resident pages of 4096
  bytes, the health turn forces a reset and the next reconnect turn of the listener and of the monitor
  replaces endpoint and subscription, without waiting for the cooldown.\<close>

theorem large_process_is_recycled:
  assumes "pf_statm P = Some (dec all_pages @ spaced_words (dec pages # rest) @ [CHR 0x0A])"
    and "list_all (\<lambda>t. t \<noteq> [] \<and> list_all solid t) rest"
    and "262144 < pages" and "pages < 2 ^ 52" and "\<not> c_shutdown s" and "rc_bind_ok e" and "rc_subscribe_ok e"
  shows "(let s' = l_reconnect_turn e (fst (l_health_turn t now (l_read_rss_bytes True P) s))
      in c_endpoint s' = Suc (c_endpoint s) \<and> c_sender s' = Suc (c_sender s) \<and> c_up s')
    \<and> (let s' = m_reconnect_turn e (fst (m_health_turn t now (m_read_rss_bytes True P) s))
      in c_endpoint s' = Suc (c_endpoint s) \<and> c_sender s' = Suc (c_sender s) \<and> c_up s')"
proof -
  have "split_whitespace (dec all_pages @ spaced_words (dec pages # rest) @ [CHR 0x0A]) = dec all_pages # dec pages # rest"
    unfolding split_whitespace_def split_ws_solid [OF dec_solid]
    using assms(2) dec_solid [of pages] by (subst split_ws_words) simp_all
  then have "read_rss_bytes True P = of_nat pages * 4096"
    using assms(1,4) by (simp add: read_rss_bytes_def nth_opt_def parse_w64_dec)
  moreover have "RSS_CEILING_BYTES < of_nat pages * (4096 :: u64)"
  proof -
    have "unat (of_nat pages * (4096 :: u64)) = pages * 4096"
      using assms(4) by (simp add: unat_word_ariths unat_of_nat)
    then show ?thesis using assms(3) by (simp add: word_less_nat_alt RSS_CEILING_BYTES_def)
  qed
  ultimately have r: "RSS_CEILING_BYTES < read_rss_bytes True P" by simp
  have "ENDPOINT_RESET_AFTER_RECONNECTS < ENDPOINT_RESET_AFTER_RECONNECTS + 1" by (simp add: ENDPOINT_RESET_AFTER_RECONNECTS_def)
  then show ?thesis
    using r assms(5-7)
    by (simp add: metrics_copies_agree l_health_turn_def m_health_turn_def recycle_def l_reconnect_turn_def m_reconnect_turn_def Let_def)
qed

theorem large_process_is_recycled_witness:
  "let P = \<lparr>pf_status1 = None, pf_status2 = None, pf_stat = None, pf_uptime = None,
        pf_statm = Some (dec 900000 @ spaced_words (dec 300000 # [''12'']) @ [CHR 0x0A])\<rparr>;
      e = \<lparr>rc_now = 0, rc_done = 0, rc_bind_ok = True, rc_subscribe_ok = True\<rparr>;
      s' = l_reconnect_turn e (fst (l_health_turn 0 7 (l_read_rss_bytes True P) demo_ctl))
    in c_endpoint s' = Suc (c_endpoint demo_ctl)"
proof -
  have "list_all (\<lambda>t. t \<noteq> [] \<and> list_all solid t) [''12'']" by (simp add: solid_def ascii_ws_def byte_def)
  moreover have "\<not> c_shutdown demo_ctl" by (simp add: demo_ctl_def)
  ultimately show ?thesis
    using large_process_is_recycled [of "\<lparr>pf_status1 = None, pf_status2 = None, pf_stat = None, pf_uptime = None,
        pf_statm = Some (dec 900000 @ spaced_words (dec 300000 # [''12'']) @ [CHR 0x0A])\<rparr>" 900000 300000 "[''12'']" demo_ctl
        "\<lparr>rc_now = 0, rc_done = 0, rc_bind_ok = True, rc_subscribe_ok = True\<rparr>" 0 7]
    by (simp add: Let_def)
qed

end
