(* ===== verification/Writer_Batch.thy ===== *)
theory Writer_Batch
  imports Json_Text Archive
begin

text \<open>
  The batching half of the gossip-writer (\<^verbatim>\<open>gossip-writer/src/main.rs\<close>): messages from the front-end
  are parsed into pending pings; every three seconds the pending pings are grouped by medium and reason,
  cut into chunks whose signed payload fits the gossip message size, signed with consecutive sequence
  numbers, archived, handed to the broadcast task through a bounded channel, and acknowledged to
  the front-end. Cap'n Proto is a parameter (record \<open>w_capnp_lib\<close>). The clock is read at each
  notification: reading \<open>i\<close> is \<open>we_clock E i\<close>. A \<^verbatim>\<open>HashMap\<close> is walked in an order the
  environment chooses.
\<close>

definition MAX_GOSSIP_PAYLOAD :: nat where
  "MAX_GOSSIP_PAYLOAD = 60000"

definition CHANNEL_CAPACITY :: nat where
  "CHANNEL_CAPACITY = 1000"

definition PODPING_WRITE_TYPE :: string where
  "PODPING_WRITE_TYPE = ''org.podcastindex.podping.hivewriter.PodpingWrite.capnp''"

definition HIVE_TX_TYPE :: string where
  "HIVE_TX_TYPE = ''org.podcastindex.podping.hivewriter.PodpingHiveTransaction.capnp''"

record pending_ping =
  pp_iri :: string
  pp_medium_str :: string
  pp_reason_str :: string
  pp_medium_raw :: nat
  pp_reason_raw :: nat

text \<open>The fields of the reply transaction that vary.\<close>

record zmq_reply =
  zr_iri :: string
  zr_medium :: nat
  zr_reason :: nat
  zr_block_num :: u64
  zr_timestamp_ns :: u64

record w_capnp_lib =
  w_read_plexo :: "string \<Rightarrow> (string \<times> string option) option"
  w_read_podping :: "string \<Rightarrow> (string \<times> nat \<times> nat) option"
  w_medium_ok :: "nat \<Rightarrow> bool"
  w_reason_ok :: "nat \<Rightarrow> bool"
  w_write_tx :: "zmq_reply \<Rightarrow> string"
  w_write_plexo :: "string \<Rightarrow> string \<Rightarrow> string"

section \<open>Parsing\<close>

definition parse_zmq_message :: "w_capnp_lib \<Rightarrow> string \<Rightarrow> string + pending_ping option" where
  "parse_zmq_message C msg =
     (case w_read_plexo C msg of
        None \<Rightarrow> Err ''capnp''
      | Some (ty, payload) \<Rightarrow>
          if ty \<noteq> PODPING_WRITE_TYPE then Ok None
          else (case payload of
                  None \<Rightarrow> Err ''capnp''
                | Some inner \<Rightarrow>
                    (case w_read_podping C inner of
                       None \<Rightarrow> Err ''capnp''
                     | Some (iri, reason_raw, medium_raw) \<Rightarrow>
                         Ok (Some \<lparr>pp_iri = iri, pp_medium_str = notif_medium_to_string medium_raw,
                               pp_reason_str = notif_reason_to_string reason_raw,
                               pp_medium_raw = medium_raw, pp_reason_raw = reason_raw\<rparr>))))"

section \<open>Splitting\<close>

definition payload_len :: "gossip_lib \<Rightarrow> string \<Rightarrow> string \<Rightarrow> string \<Rightarrow> string \<Rightarrow> u64 \<Rightarrow> u64 option \<Rightarrow> string list \<Rightarrow> nat" where
  "payload_len L k pk m r now seq iris =
     length (snd (notification_sign L k (notification_new now pk m r iris seq)))"

text \<open>
  The loop: \<open>fits i c\<close> is the size test of chunk \<open>c\<close> at clock reading \<open>i\<close>. The iri is pushed, and if
  the chunk no longer fits it is popped again, the chunk closed unless it is empty, and the iri
  starts the next one.
\<close>

fun split_loop :: "(nat \<Rightarrow> string list \<Rightarrow> bool) \<Rightarrow> nat \<Rightarrow> string list list \<Rightarrow> string list \<Rightarrow> string list \<Rightarrow> string list list" where
  "split_loop fits i chunks cur [] = (if cur = [] then chunks else chunks @ [cur])"
| "split_loop fits i chunks cur (iri # iris) =
     (if fits i (cur @ [iri]) then split_loop fits (Suc i) chunks (cur @ [iri]) iris
      else split_loop fits (Suc i) (if cur = [] then chunks else chunks @ [cur]) [iri] iris)"

text \<open>The chunks and the number of the next clock reading.\<close>

definition split_iris_to_fit :: "gossip_lib \<Rightarrow> string \<Rightarrow> string \<Rightarrow> (nat \<Rightarrow> u64) \<Rightarrow> nat \<Rightarrow> string \<Rightarrow> string \<Rightarrow>
    string list \<Rightarrow> string list list \<times> nat" where
  "split_iris_to_fit L k pk clock i m r iris =
     (let fits = (\<lambda>j c. payload_len L k pk m r (clock j) None c \<le> MAX_GOSSIP_PAYLOAD)
      in if fits i iris then ([iris], Suc i)
         else (split_loop fits (Suc i) [] [] iris, Suc i + length iris))"

section \<open>Flushing\<close>

record writer_state =
  w_pending :: "pending_ping list"
  w_seq :: u64
  w_tx :: "string list"
  w_archive :: "archive option"
  w_replies :: "string list"
  w_clk :: nat

text \<open>
  The environment of a flush: the clock, whether the broadcast task still holds the receiving end
  of the channel, whether archive statements and reply sends succeed, and the walk of the map.
\<close>

record w_env =
  we_clock :: "nat \<Rightarrow> u64"
  we_nanos :: u64
  we_rx_alive :: bool
  we_arch_ok :: "nat \<Rightarrow> bool"
  we_reply_ok :: "nat \<Rightarrow> bool"
  we_hash :: "string \<Rightarrow> string"
  we_order :: "((string \<times> string) \<times> string list) list \<Rightarrow> ((string \<times> string) \<times> string list) list"

record w_config =
  wc_key :: string
  wc_pubkey_hex :: string

datatype send_result = Sent | Full | Closed

definition try_send :: "bool \<Rightarrow> string list \<Rightarrow> string \<Rightarrow> string list \<times> send_result" where
  "try_send alive tx p =
     (if \<not> alive then (tx, Closed)
      else if CHANNEL_CAPACITY \<le> length tx then (tx, Full)
      else (tx @ [p], Sent))"

text \<open>\<^verbatim>\<open>groups.entry(..).or_default().push(..)\<close>\<close>

fun add_to_group :: "string \<times> string \<Rightarrow> string \<Rightarrow> ((string \<times> string) \<times> string list) list
    \<Rightarrow> ((string \<times> string) \<times> string list) list" where
  "add_to_group g iri [] = [(g, [iri])]"
| "add_to_group g iri ((h, iris) # gs) =
     (if h = g then (h, iris @ [iri]) # gs else (h, iris) # add_to_group g iri gs)"

definition group_pending :: "pending_ping list \<Rightarrow> ((string \<times> string) \<times> string list) list" where
  "group_pending ps = foldl (\<lambda>gs p. add_to_group (pp_medium_str p, pp_reason_str p) (pp_iri p) gs) [] ps"

text \<open>One chunk: sequence number, notification, archive, channel. The notification is returned, and
  whether the channel took it or was full.\<close>

definition send_chunk :: "gossip_lib \<Rightarrow> w_config \<Rightarrow> w_env \<Rightarrow> string \<Rightarrow> string \<Rightarrow> string list \<Rightarrow> writer_state
    \<Rightarrow> writer_state \<times> gossip_notification \<times> bool" where
  "send_chunk L cfg E m r iris s =
     (let now = we_clock E (w_clk s);
          (n, payload) = notification_sign L (wc_key cfg) (notification_new now (wc_pubkey_hex cfg) m r iris (Some (w_seq s)));
          env = \<lparr>ae_clock = Some (we_clock E (Suc (w_clk s))), ae_messages_ok = we_arch_ok E (2 * w_clk s),
                 ae_manifest_ok = we_arch_ok E (2 * w_clk s + 1)\<rparr>;
          meta = \<lparr>mm_sender = wc_pubkey_hex cfg, mm_medium = m, mm_reason = r, mm_timestamp = n_timestamp n,
                  mm_iri_count = of_nat (length iris)\<rparr>;
          arch = map_option (\<lambda>a. fst (archive_store (we_hash E) env meta payload a)) (w_archive s);
          (tx, res) = try_send (we_rx_alive E) (w_tx s) payload
      in (s\<lparr>w_seq := w_seq s + 1, w_tx := tx, w_archive := arch, w_clk := w_clk s + 2\<rparr>, n, res \<noteq> Closed))"

fun send_chunks :: "gossip_lib \<Rightarrow> w_config \<Rightarrow> w_env \<Rightarrow> string \<Rightarrow> string \<Rightarrow> string list list \<Rightarrow> writer_state
    \<Rightarrow> writer_state \<times> gossip_notification list \<times> bool" where
  "send_chunks L cfg E m r [] s = (s, [], False)"
| "send_chunks L cfg E m r (c # cs) s =
     (case send_chunk L cfg E m r c s of
        (s1, n, ok) \<Rightarrow> (case send_chunks L cfg E m r cs s1 of (s2, ns, ok2) \<Rightarrow> (s2, n # ns, ok \<or> ok2)))"

fun send_groups :: "gossip_lib \<Rightarrow> w_config \<Rightarrow> w_env \<Rightarrow> ((string \<times> string) \<times> string list) list \<Rightarrow> writer_state
    \<Rightarrow> writer_state \<times> gossip_notification list \<times> bool" where
  "send_groups L cfg E [] s = (s, [], False)"
| "send_groups L cfg E (((m, r), iris) # gs) s =
     (case split_iris_to_fit L (wc_key cfg) (wc_pubkey_hex cfg) (we_clock E) (w_clk s) m r iris of
        (chunks, i) \<Rightarrow>
          (case send_chunks L cfg E m r chunks (s\<lparr>w_clk := i\<rparr>) of
             (s1, ns, ok) \<Rightarrow> (case send_groups L cfg E gs s1 of (s2, ns2, ok2) \<Rightarrow> (s2, ns @ ns2, ok \<or> ok2))))"

text \<open>\<^verbatim>\<open>send_zmq_reply\<close>: the bytes handed to the socket.\<close>

definition zmq_reply_bytes :: "w_capnp_lib \<Rightarrow> zmq_reply \<Rightarrow> string" where
  "zmq_reply_bytes C r = w_write_plexo C HIVE_TX_TYPE (w_write_tx C r)"

definition reply_for :: "u64 \<Rightarrow> u64 \<Rightarrow> pending_ping \<Rightarrow> zmq_reply" where
  "reply_for secs ns p = \<lparr>zr_iri = pp_iri p, zr_medium = pp_medium_raw p, zr_reason = pp_reason_raw p,
     zr_block_num = secs, zr_timestamp_ns = ns\<rparr>"

fun send_replies :: "w_capnp_lib \<Rightarrow> w_env \<Rightarrow> u64 \<Rightarrow> u64 \<Rightarrow> nat \<Rightarrow> pending_ping list \<Rightarrow> string list \<Rightarrow> string list outcome" where
  "send_replies C E secs ns i [] out = Ret out"
| "send_replies C E secs ns i (p # ps) out =
     (if \<not> w_medium_ok C (pp_medium_raw p) \<or> \<not> w_reason_ok C (pp_reason_raw p) then Panic
      else send_replies C E secs ns (Suc i) ps
             (if we_reply_ok E i then out @ [zmq_reply_bytes C (reply_for secs ns p)] else out))"

definition flush_batch :: "gossip_lib \<Rightarrow> w_capnp_lib \<Rightarrow> w_config \<Rightarrow> w_env \<Rightarrow> writer_state
    \<Rightarrow> (writer_state \<times> gossip_notification list) outcome" where
  "flush_batch L C cfg E s =
     (case send_groups L cfg E (we_order E (group_pending (w_pending s))) s of
        (s1, ns, broadcast_ok) \<Rightarrow>
          if broadcast_ok then
            bind_outcome (send_replies C E (we_clock E (w_clk s1)) (we_nanos E) 0
                (w_pending s1) (w_replies s1)) (\<lambda>out.
              Ret (s1\<lparr>w_pending := [], w_replies := out, w_clk := w_clk s1 + 1\<rparr>, ns))
          else Ret (s1\<lparr>w_pending := []\<rparr>, ns))"

text \<open>What the ZMQ thread does with a received message.\<close>

definition zmq_received :: "w_capnp_lib \<Rightarrow> string option \<Rightarrow> writer_state \<Rightarrow> writer_state" where
  "zmq_received C recv s =
     (case recv of
        None \<Rightarrow> s
      | Some msg \<Rightarrow>
          (case parse_zmq_message C msg of
             Inr (Some p) \<Rightarrow> s\<lparr>w_pending := w_pending s @ [p]\<rparr>
           | Inr None \<Rightarrow> s
           | Inl _ \<Rightarrow> s))"

text \<open>One turn of the ZMQ thread: \<open>recv\<close> is the received message (\<open>None\<close> on a timeout or an error) and
  \<open>due\<close> whether three seconds passed since the last flush. The flag is whether the loop goes on.\<close>

definition zmq_turn :: "gossip_lib \<Rightarrow> w_capnp_lib \<Rightarrow> w_config \<Rightarrow> w_env \<Rightarrow> bool \<Rightarrow> string option \<Rightarrow> bool \<Rightarrow> writer_state
    \<Rightarrow> (writer_state \<times> bool) outcome" where
  "zmq_turn L C cfg E shutdown recv due s =
     (if shutdown then
        (if w_pending s \<noteq> [] then bind_outcome (flush_batch L C cfg E s) (\<lambda>(s', ns). Ret (s', False))
         else Ret (s, False))
      else
        let s1 = zmq_received C recv s
        in if due \<and> w_pending s1 \<noteq> []
           then bind_outcome (flush_batch L C cfg E s1) (\<lambda>(s', ns). Ret (s', True))
           else Ret (s1, True))"

section \<open>Lemmas on splitting\<close>

lemma split_loop_concat: "concat (split_loop fits i chunks cur iris) = concat chunks @ cur @ iris"
  by (induction fits i chunks cur iris rule: split_loop.induct) auto

text \<open>A chunk is sound when it passed the size test at some reading or is a single iri.\<close>

definition chunk_ok :: "(nat \<Rightarrow> string list \<Rightarrow> bool) \<Rightarrow> string list \<Rightarrow> bool" where
  "chunk_ok fits c \<longleftrightarrow> c \<noteq> [] \<and> ((\<exists>j. fits j c) \<or> length c = 1)"

lemma split_loop_ok:
  "list_all (chunk_ok fits) chunks \<Longrightarrow> cur = [] \<or> chunk_ok fits cur \<Longrightarrow>
   list_all (chunk_ok fits) (split_loop fits i chunks cur iris)"
proof (induction fits i chunks cur iris rule: split_loop.induct)
  case (2 fits i chunks cur iri iris)
  show ?case
  proof (cases "fits i (cur @ [iri])")
    case True
    then have "chunk_ok fits (cur @ [iri])" by (auto simp: chunk_ok_def)
    with 2 True show ?thesis by simp
  next
    case False
    have "chunk_ok fits [iri]" by (simp add: chunk_ok_def)
    with 2 False show ?thesis by auto
  qed
qed auto

lemma split_iris_concat: "concat (fst (split_iris_to_fit L k pk clock i m r iris)) = iris"
  by (simp add: split_iris_to_fit_def Let_def split_loop_concat)

lemma split_iris_nonempty: "fst (split_iris_to_fit L k pk clock i m r iris) \<noteq> [] \<or> iris = []"
  using split_iris_concat [of L k pk clock i m r iris] by auto

section \<open>Lemmas on flushing\<close>

definition notif_payload :: "gossip_lib \<Rightarrow> gossip_notification \<Rightarrow> string" where
  "notif_payload L n = to_vec L (notification_json n)"

text \<open>A notification the writer built for a chunk.\<close>

definition built :: "gossip_lib \<Rightarrow> w_config \<Rightarrow> w_env \<Rightarrow> string \<Rightarrow> string \<Rightarrow> string list \<Rightarrow> u64 \<Rightarrow> gossip_notification \<Rightarrow> bool" where
  "built L cfg E m r iris q n \<longleftrightarrow>
     (\<exists>i. n = fst (notification_sign L (wc_key cfg) (notification_new (we_clock E i) (wc_pubkey_hex cfg) m r iris (Some q))))"

lemma built_fields:
  "built L cfg E m r iris q n \<Longrightarrow> n_iris n = iris \<and> n_medium n = m \<and> n_reason n = r \<and> n_seq n = Some q"
  by (auto simp: built_def notification_sign_def notification_new_def Let_def)

text \<open>Sent under the writer's name and signed with its key.\<close>

definition signed_by :: "gossip_lib \<Rightarrow> w_config \<Rightarrow> gossip_notification \<Rightarrow> bool" where
  "signed_by L cfg n \<longleftrightarrow> n_sender n = wc_pubkey_hex cfg
     \<and> n_signature n = Some (hex_encode L (ed_sign L (wc_key cfg) (canonical_bytes L n)))"

lemma built_signed: "built L cfg E m r iris q n \<Longrightarrow> signed_by L cfg n"
  by (auto simp: built_def signed_by_def notification_sign_def notification_new_def canonical_bytes_def canonical_notification_def Let_def)

definition room :: "string list \<Rightarrow> nat" where
  "room tx = CHANNEL_CAPACITY - length tx"

lemma send_chunk_spec:
  assumes "send_chunk L cfg E m r iris s = (s', n, ok)"
  shows "built L cfg E m r iris (w_seq s) n" "w_seq s' = w_seq s + 1" "ok = we_rx_alive E"
    "w_pending s' = w_pending s" "w_replies s' = w_replies s"
    "w_tx s' = w_tx s @ (if we_rx_alive E then take (room (w_tx s)) [notif_payload L n] else [])"
  using assms
  by (auto simp: send_chunk_def Let_def built_def try_send_def room_def notif_payload_def notification_sign_def
      split: prod.splits if_splits)

lemma take_room_append:
  "(tx @ take (room tx) [p]) @ take (room (tx @ take (room tx) [p])) ps = tx @ take (room tx) (p # ps)"
proof (cases "room tx")
  case (Suc n)
  then have "room (tx @ [p]) = n" by (simp add: room_def)
  with Suc show ?thesis by simp
qed (simp add: room_def)

lemma send_chunks_spec:
  assumes "send_chunks L cfg E m r cs s = (s', ns, ok)"
  shows "list_all2 (\<lambda>c n. \<exists>q. built L cfg E m r c q n) cs ns
    \<and> map n_seq ns = map (\<lambda>i. Some (w_seq s + of_nat i)) [0..<length cs]
    \<and> w_seq s' = w_seq s + of_nat (length cs) \<and> ok = (cs \<noteq> [] \<and> we_rx_alive E)
    \<and> w_pending s' = w_pending s \<and> w_replies s' = w_replies s
    \<and> w_tx s' = w_tx s @ (if we_rx_alive E then take (room (w_tx s)) (map (notif_payload L) ns) else [])"
  using assms
proof (induction cs arbitrary: s s' ns ok)
  case (Cons c cs)
  obtain s1 n ok1 where 1: "send_chunk L cfg E m r c s = (s1, n, ok1)" using prod_cases3 by blast
  obtain s2 ns2 ok2 where 2: "send_chunks L cfg E m r cs s1 = (s2, ns2, ok2)" using prod_cases3 by blast
  have eq: "s' = s2" "ns = n # ns2" "ok = (ok1 \<or> ok2)" using Cons.prems 1 2 by auto
  note c = send_chunk_spec [OF 1] and cs = Cons.IH [OF 2]
  have seqs: "map n_seq ns = map (\<lambda>i. Some (w_seq s + of_nat i)) [0..<length (c # cs)]"
    using cs built_fields [OF c(1)] c(2)
    by (simp add: eq upt_conv_Cons map_Suc_upt [symmetric] add.assoc del: upt_Suc)
  show ?case
  proof (intro conjI)
    show "w_tx s' = w_tx s @ (if we_rx_alive E then take (room (w_tx s)) (map (notif_payload L) ns) else [])"
      using cs c(6) take_room_append [of "w_tx s" "notif_payload L n" "map (notif_payload L) ns2"]
      by (simp add: eq split: if_splits)
  qed (use seqs c cs in \<open>auto simp: eq\<close>)
qed simp

text \<open>Consecutive sequence numbers.\<close>

definition seq_from :: "u64 \<Rightarrow> nat \<Rightarrow> u64 option list" where
  "seq_from q n = map (\<lambda>i. Some (q + of_nat i)) [0..<n]"

lemma seq_from_append: "seq_from q a @ seq_from (q + of_nat a) b = seq_from q (a + b)"
proof -
  have "seq_from q (a + b) = seq_from q a @ map (\<lambda>i. Some (q + of_nat i)) [a..<a + b]"
    by (simp add: seq_from_def upt_add_eq_append [of 0 a b])
  also have "[a..<a + b] = map (\<lambda>i. i + a) [0..<b]" by (simp add: map_add_upt add.commute)
  finally show ?thesis by (simp add: seq_from_def comp_def add.assoc add.commute)
qed

lemma take_room_append2:
  "(tx @ take (room tx) ps) @ take (room (tx @ take (room tx) ps)) qs = tx @ take (room tx) (ps @ qs)"
proof (cases "length ps \<le> room tx")
  case True
  then have "room (tx @ ps) = room tx - length ps" by (simp add: room_def)
  with True show ?thesis by simp
next
  case False
  then have "room (tx @ take (room tx) ps) = 0" by (simp add: room_def)
  with False show ?thesis by simp
qed

text \<open>The pairs of iri and group a list of notifications carries.\<close>

definition tagged :: "gossip_notification list \<Rightarrow> (string \<times> string \<times> string) list" where
  "tagged ns = concat (map (\<lambda>n. map (\<lambda>i. (i, n_medium n, n_reason n)) (n_iris n)) ns)"

definition group_tagged :: "((string \<times> string) \<times> string list) list \<Rightarrow> (string \<times> string \<times> string) list" where
  "group_tagged gs = concat (map (\<lambda>((m, r), iris). map (\<lambda>i. (i, m, r)) iris) gs)"

lemma tagged_append [simp]: "tagged (a @ b) = tagged a @ tagged b"
  by (simp add: tagged_def)

lemma tagged_built:
  "list_all2 (\<lambda>c n. \<exists>q. built L cfg E m r c q n) cs ns \<Longrightarrow> tagged ns = map (\<lambda>i. (i, m, r)) (concat cs)"
  by (induction rule: list_all2_induct) (auto simp: tagged_def dest: built_fields)

lemma list_all2_length_map: "list_all2 P cs ns \<Longrightarrow> length ns = length cs"
  by (simp add: list_all2_lengthD)

text \<open>A notification whose chunk came out of the split.\<close>

definition sized :: "gossip_lib \<Rightarrow> w_config \<Rightarrow> w_env \<Rightarrow> gossip_notification \<Rightarrow> bool" where
  "sized L cfg E n \<longleftrightarrow> length (n_iris n) = 1 \<or>
     (\<exists>j. payload_len L (wc_key cfg) (wc_pubkey_hex cfg) (n_medium n) (n_reason n) (we_clock E j) None (n_iris n)
        \<le> MAX_GOSSIP_PAYLOAD)"

lemma split_iris_sized:
  assumes "list_all2 (\<lambda>c n. \<exists>q. built L cfg E m r c q n)
      (fst (split_iris_to_fit L (wc_key cfg) (wc_pubkey_hex cfg) (we_clock E) i m r iris)) ns"
  shows "list_all (\<lambda>n. sized L cfg E n \<and> (\<exists>m r c q. built L cfg E m r c q n)) ns"
proof -
  let ?fits = "\<lambda>j c. payload_len L (wc_key cfg) (wc_pubkey_hex cfg) m r (we_clock E j) None c \<le> MAX_GOSSIP_PAYLOAD"
  have ok: "list_all (\<lambda>c. length c = 1 \<or> (\<exists>j. ?fits j c))
      (fst (split_iris_to_fit L (wc_key cfg) (wc_pubkey_hex cfg) (we_clock E) i m r iris))"
    using split_loop_ok [of ?fits "[]" "[]" "Suc i" iris]
    by (auto simp: split_iris_to_fit_def Let_def chunk_ok_def list_all_iff)
  show ?thesis
    using assms ok
    by (induction rule: list_all2_induct) (auto simp: sized_def dest: built_fields)
qed

lemma send_groups_spec:
  assumes "send_groups L cfg E gs s = (s', ns, ok)"
  shows "tagged ns = group_tagged gs \<and> map n_seq ns = seq_from (w_seq s) (length ns)
    \<and> w_seq s' = w_seq s + of_nat (length ns)
    \<and> list_all (\<lambda>n. sized L cfg E n \<and> (\<exists>m r c q. built L cfg E m r c q n)) ns
    \<and> w_pending s' = w_pending s \<and> w_replies s' = w_replies s
    \<and> w_tx s' = w_tx s @ (if we_rx_alive E then take (room (w_tx s)) (map (notif_payload L) ns) else [])
    \<and> (ok \<longrightarrow> we_rx_alive E) \<and> (we_rx_alive E \<longrightarrow> (\<exists>g \<in> set gs. snd g \<noteq> []) \<longrightarrow> ok)"
  using assms
proof (induction gs arbitrary: s s' ns ok)
  case Nil
  then show ?case by (simp add: tagged_def group_tagged_def seq_from_def)
next
  case (Cons g gs)
  obtain m r iris where g: "g = ((m, r), iris)" using prod_cases3 by (metis prod.collapse)
  obtain cs i where sp: "split_iris_to_fit L (wc_key cfg) (wc_pubkey_hex cfg) (we_clock E) (w_clk s) m r iris = (cs, i)"
    by force
  obtain s1 n1 ok1 where 1: "send_chunks L cfg E m r cs (s\<lparr>w_clk := i\<rparr>) = (s1, n1, ok1)" using prod_cases3 by blast
  obtain s2 n2 ok2 where 2: "send_groups L cfg E gs s1 = (s2, n2, ok2)" using prod_cases3 by blast
  have eq: "s' = s2" "ns = n1 @ n2" "ok = (ok1 \<or> ok2)" using Cons.prems g sp 1 2 by auto
  note c = send_chunks_spec [OF 1, simplified] and IH = Cons.IH [OF 2]
  have cs: "concat cs = iris" using split_iris_concat [of L "wc_key cfg" "wc_pubkey_hex cfg" "we_clock E" "w_clk s" m r iris] sp by simp
  have len: "length n1 = length cs" using c list_all2_lengthD by fastforce
  have seqs: "map n_seq ns = seq_from (w_seq s) (length ns)"
    using c IH seq_from_append [of "w_seq s" "length cs" "length n2"] by (simp add: eq seq_from_def [of "w_seq s" "length cs"] len)
  have sz: "list_all (\<lambda>n. sized L cfg E n \<and> (\<exists>m r c q. built L cfg E m r c q n)) n1"
    using split_iris_sized [of L cfg E m r "w_clk s" iris n1] c sp by simp
  show ?case
  proof (intro conjI)
    show "tagged ns = group_tagged (g # gs)"
      using IH tagged_built [of L cfg E m r cs n1] c by (simp add: eq g group_tagged_def cs)
    show "w_tx s' = w_tx s @ (if we_rx_alive E then take (room (w_tx s)) (map (notif_payload L) ns) else [])"
      using c IH take_room_append2 [of "w_tx s" "map (notif_payload L) n1" "map (notif_payload L) n2"]
      by (simp add: eq)
    show "we_rx_alive E \<longrightarrow> (\<exists>g \<in> set (g # gs). snd g \<noteq> []) \<longrightarrow> ok"
      using c IH cs by (auto simp: eq g)
    show "w_seq s' = w_seq s + of_nat (length ns)"
      using c IH by (simp add: eq len add.assoc)
  qed (use seqs sz c IH in \<open>auto simp: eq\<close>)
qed

lemma mset_add_to_group:
  "mset (group_tagged (add_to_group g iri gs)) = add_mset (iri, g) (mset (group_tagged gs))"
  by (induction g iri gs rule: add_to_group.induct) (auto simp: group_tagged_def split: prod.splits)

lemma mset_group_pending:
  "mset (group_tagged (group_pending ps)) = mset (map (\<lambda>p. (pp_iri p, pp_medium_str p, pp_reason_str p)) ps)"
proof -
  have "mset (group_tagged (foldl (\<lambda>gs p. add_to_group (pp_medium_str p, pp_reason_str p) (pp_iri p) gs) gs ps))
      = mset (group_tagged gs) + mset (map (\<lambda>p. (pp_iri p, pp_medium_str p, pp_reason_str p)) ps)" for gs
    by (induction ps arbitrary: gs) (simp_all add: mset_add_to_group)
  then show ?thesis by (simp add: group_pending_def group_tagged_def)
qed

lemma mset_concat_map: "mset (concat (map f xs)) = sum_mset (image_mset (\<lambda>x. mset (f x)) (mset xs))"
  by (induction xs) auto

lemma mset_group_tagged: "mset gs = mset gs' \<Longrightarrow> mset (group_tagged gs) = mset (group_tagged gs')"
  by (simp add: group_tagged_def mset_concat_map)

lemma group_pending_nonempty: "ps \<noteq> [] \<Longrightarrow> \<exists>g \<in> set (group_pending ps). snd g \<noteq> []"
proof (rule ccontr)
  assume "ps \<noteq> []" and "\<not> (\<exists>g \<in> set (group_pending ps). snd g \<noteq> [])"
  then have "group_tagged (group_pending ps) = []" by (auto simp: group_tagged_def)
  with mset_group_pending [of ps] \<open>ps \<noteq> []\<close> show False by simp
qed

text \<open>The iris of one group, in order.\<close>

definition iris_of :: "string \<times> string \<Rightarrow> (string \<times> string \<times> string) list \<Rightarrow> string list" where
  "iris_of g ts = map fst (filter (\<lambda>t. snd t = g) ts)"

lemma iris_of_append [simp]: "iris_of g (a @ b) = iris_of g a @ iris_of g b"
  by (simp add: iris_of_def)

lemma iris_of_group: "iris_of g (group_tagged ((h, iris) # gs)) = (if h = g then iris else []) @ iris_of g (group_tagged gs)"
  by (cases h) (auto simp: iris_of_def group_tagged_def filter_map comp_def)

lemma iris_of_Nil [simp]: "iris_of g (group_tagged []) = []"
  by (simp add: iris_of_def group_tagged_def)

lemma add_to_group_keys:
  "fst ` set (add_to_group g iri gs) = insert g (fst ` set gs)"
  "distinct (map fst gs) \<Longrightarrow> distinct (map fst (add_to_group g iri gs))"
  by (induction g iri gs rule: add_to_group.induct) auto

lemma iris_of_absent: "g \<notin> fst ` set gs \<Longrightarrow> iris_of g (group_tagged gs) = []"
  by (induction gs) (auto simp: iris_of_group)

lemma iris_of_add:
  "distinct (map fst gs) \<Longrightarrow> iris_of h (group_tagged (add_to_group g iri gs)) = iris_of h (group_tagged gs) @ (if g = h then [iri] else [])"
  by (induction g iri gs rule: add_to_group.induct) (auto simp: iris_of_group iris_of_absent)

lemma group_pending_order:
  "distinct (map fst (group_pending ps))
   \<and> iris_of g (group_tagged (group_pending ps)) = map pp_iri (filter (\<lambda>p. (pp_medium_str p, pp_reason_str p) = g) ps)"
proof (induction ps rule: rev_induct)
  case (snoc p ps)
  have "group_pending (ps @ [p]) = add_to_group (pp_medium_str p, pp_reason_str p) (pp_iri p) (group_pending ps)"
    by (simp add: group_pending_def)
  with snoc show ?case by (simp add: add_to_group_keys iris_of_add)
qed (simp add: group_pending_def)

lemma iris_of_present: "distinct (map fst gs) \<Longrightarrow> (g, iris) \<in> set gs \<Longrightarrow> iris_of g (group_tagged gs) = iris"
  by (induction gs) (force simp: iris_of_group iris_of_absent)+

text \<open>Walking the groups in another order keeps the order inside each.\<close>

lemma iris_of_walk:
  assumes "mset gs' = mset gs" and "distinct (map fst gs)"
  shows "iris_of g (group_tagged gs') = iris_of g (group_tagged gs)"
proof -
  have "distinct (map fst gs')" using assms by (metis mset_eq_imp_distinct_iff mset_map)
  moreover have set: "set gs' = set gs" using assms(1) by (rule mset_eq_setD)
  ultimately show ?thesis
  proof (cases "g \<in> fst ` set gs")
    case True
    then obtain iris where "(g, iris) \<in> set gs" by auto
    with set show ?thesis using iris_of_present assms(2) \<open>distinct (map fst gs')\<close> by metis
  next
    case False
    with set show ?thesis by (simp add: iris_of_absent)
  qed
qed

text \<open>The replies that the socket accepts, in the order of the pings.\<close>

definition replies_to :: "w_capnp_lib \<Rightarrow> w_env \<Rightarrow> u64 \<Rightarrow> pending_ping list \<Rightarrow> string list" where
  "replies_to C E secs ps =
     map (\<lambda>(i, p). zmq_reply_bytes C (reply_for secs (we_nanos E) p)) (filter (\<lambda>(i, p). we_reply_ok E i) (enumerate 0 ps))"

lemma send_replies_Ret:
  "send_replies C E secs ns i ps out = Ret out' \<Longrightarrow>
     out' = out @ map (\<lambda>(i, p). zmq_reply_bytes C (reply_for secs ns p)) (filter (\<lambda>(i, p). we_reply_ok E i) (enumerate i ps))"
proof (induction ps arbitrary: i out)
  case (Cons p ps)
  then have "send_replies C E secs ns (Suc i) ps (if we_reply_ok E i then out @ [zmq_reply_bytes C (reply_for secs ns p)] else out) = Ret out'"
    by (auto split: if_split_asm)
  from Cons.IH [OF this] show ?case by simp
qed simp

lemma send_replies_all:
  assumes "\<forall>p \<in> set ps. w_medium_ok C (pp_medium_raw p) \<and> w_reason_ok C (pp_reason_raw p)" and "\<forall>i. we_reply_ok E i"
  shows "send_replies C E secs ns i ps out = Ret (out @ map (\<lambda>p. zmq_reply_bytes C (reply_for secs ns p)) ps)"
  using assms by (induction ps arbitrary: i out) auto

text \<open>The state of a flush before the replies.\<close>

lemma flush_batch_spec:
  assumes "flush_batch L C cfg E s = Ret (s', ns)"
  obtains s1 ok where "send_groups L cfg E (we_order E (group_pending (w_pending s))) s = (s1, ns, ok)"
    "w_pending s' = []" "w_seq s' = w_seq s1" "w_tx s' = w_tx s1" "\<not> ok \<Longrightarrow> w_replies s' = w_replies s1"
  using assms by (auto simp: flush_batch_def bind_outcome_Ret_iff split: prod.splits if_splits)

lemma flush_answers:
  assumes "mset (we_order E (group_pending (w_pending s))) = mset (group_pending (w_pending s))"
    and "flush_batch L C cfg E s = Ret (s', ns)"
  shows "\<exists>secs. w_replies s' = w_replies s @ (if we_rx_alive E then replies_to C E secs (w_pending s) else [])"
proof -
  obtain s1 ok where g: "send_groups L cfg E (we_order E (group_pending (w_pending s))) s = (s1, ns, ok)"
    and r: "\<not> ok \<Longrightarrow> w_replies s' = w_replies s1"
    using flush_batch_spec [OF assms(2)] by metis
  note sg = send_groups_spec [OF g]
  show ?thesis
  proof (cases ok)
    case True
    then obtain out where "send_replies C E (we_clock E (w_clk s1)) (we_nanos E) 0 (w_pending s1) (w_replies s1) = Ret out" "w_replies s' = out"
      using assms(2) g by (auto simp: flush_batch_def bind_outcome_Ret_iff)
    with True sg show ?thesis by (auto simp: replies_to_def dest: send_replies_Ret)
  next
    case False
    then have "w_replies s' = w_replies s" using r sg by simp
    moreover have "w_pending s = []" if "we_rx_alive E"
      using False sg that mset_eq_setD [OF assms(1)] group_pending_nonempty [of "w_pending s"] by metis
    ultimately show ?thesis by (auto simp: replies_to_def)
  qed
qed

text \<open>What a flush with a live receiver answers.\<close>

lemma flush_replies:
  assumes "w_pending s \<noteq> []" and "we_rx_alive E" and "\<And>i. we_reply_ok E i"
    and "set (we_order E (group_pending (w_pending s))) = set (group_pending (w_pending s))"
    and "\<forall>q \<in> set (w_pending s). w_medium_ok W (pp_medium_raw q) \<and> w_reason_ok W (pp_reason_raw q)"
  shows "\<exists>s' ns i. flush_batch L W cfg E s = Ret (s', ns)
    \<and> w_replies s' = w_replies s @ map (\<lambda>q. zmq_reply_bytes W (reply_for (we_clock E i) (we_nanos E) q)) (w_pending s)"
proof -
  obtain s1 ns ok where g: "send_groups L cfg E (we_order E (group_pending (w_pending s))) s = (s1, ns, ok)"
    by (metis prod_cases3)
  from send_groups_spec [OF this] have "w_pending s1 = w_pending s" "w_replies s1 = w_replies s"
    "we_rx_alive E \<longrightarrow> (\<exists>g \<in> set (we_order E (group_pending (w_pending s))). snd g \<noteq> []) \<longrightarrow> ok" by simp_all
  moreover have "\<exists>g \<in> set (we_order E (group_pending (w_pending s))). snd g \<noteq> []"
    using group_pending_nonempty [OF assms(1)] assms(4) by simp
  ultimately have "ok" "w_pending s1 = w_pending s" "w_replies s1 = w_replies s" using assms(2) by simp_all
  with g send_replies_all [OF assms(5)] assms(3) show ?thesis by (simp add: flush_batch_def) blast
qed

lemma flush_sends_some:
  assumes "mset (we_order E (group_pending (w_pending s))) = mset (group_pending (w_pending s))"
    and "flush_batch L C cfg E s = Ret (s', ns)" and "w_pending s \<noteq> []"
  shows "ns \<noteq> []"
proof -
  obtain s1 ok where g: "send_groups L cfg E (we_order E (group_pending (w_pending s))) s = (s1, ns, ok)"
    using assms(2) by (rule flush_batch_spec)
  then have "mset (tagged ns) \<noteq> {#}"
    using send_groups_spec [OF g] mset_group_tagged [OF assms(1)] mset_group_pending [of "w_pending s"] assms(3) by simp
  then show ?thesis by (auto simp: tagged_def)
qed

text \<open>How long a signed payload is: only the digits of the time and of the sequence number vary.\<close>

lemma signed_payload_len:
  assumes "to_vec L = json_text ff" and "\<And>b. hex_encode L b = hex_text b" and "\<And>m. length (ed_sign L k m) = 64"
  shows "payload_len L k pk m r now q iris
    = length (json_text ff (JStrs iris)) + length (json_string pk) + length (json_string m) + length (json_string r) + 211
      + length (dec (unat now)) + (case q of None \<Rightarrow> 0 | Some n \<Rightarrow> 7 + length (dec (unat n)))"
proof -
  have sig: "length (json_string (hex_encode L (ed_sign L k x))) = 130" for x
    by (simp add: assms(2,3) length_hex_string)
  have int: "int_text (uint x) = dec (unat x)" for x :: u64 by (simp add: int_text_def)
  have keys: "length (json_string ''version'') = 9" "length (json_string ''1.0'') = 5" "length (json_string ''sender'') = 8"
    "length (json_string ''timestamp'') = 11" "length (json_string ''medium'') = 8" "length (json_string ''reason'') = 8"
    "length (json_string ''iris'') = 6" "length (json_string ''signature'') = 11" "length (json_string ''seq'') = 5"
    by (simp_all add: json_string_def json_escape_def byte_def)
  show ?thesis
    by (auto simp: payload_len_def notification_sign_def notification_new_def notification_json_def Let_def assms(1) length_commas
        member_text_def sig int keys JU_def split: option.split)
qed

lemma payload_len_varies:
  assumes "prints_json L" and "\<And>b. hex_encode L b = hex_text b" and "\<And>m. length (ed_sign L k m) = 64"
  shows "payload_len L k pk m r t (Some q) iris \<le> payload_len L k pk m r t' None iris + 46"
proof -
  obtain ff where ff: "to_vec L = json_text ff" using assms(1) by (auto simp: prints_json_def)
  show ?thesis using length_dec_u64 [of t] length_dec_u64 [of t'] length_dec_u64 [of q]
    by (simp add: signed_payload_len [OF ff assms(2,3)])
qed

text \<open>Small instances for the witnesses.\<close>

definition demo_wlib :: gossip_lib where
  "demo_wlib = \<lparr>to_vec = (\<lambda>_. ''x''), parse_notification = (\<lambda>_. None), parse_announce = (\<lambda>_. None),
     parse_suggest = (\<lambda>_. None), hex_encode = id, hex_decode = Some, ed_pubkey = id, ed_key_ok = (\<lambda>_. True),
     ed_sign = (\<lambda>k m. ''s''), ed_verify = (\<lambda>p m s. True)\<rparr>"

definition demo_wcapnp :: w_capnp_lib where
  "demo_wcapnp = \<lparr>w_read_plexo = (\<lambda>_. None), w_read_podping = (\<lambda>_. None), w_medium_ok = (\<lambda>m. m < 19),
     w_reason_ok = (\<lambda>r. r < 3), w_write_tx = zr_iri, w_write_plexo = (\<lambda>t p. p)\<rparr>"

definition demo_wenv :: w_env where
  "demo_wenv = \<lparr>we_clock = (\<lambda>_. 7), we_nanos = 7, we_rx_alive = True, we_arch_ok = (\<lambda>_. True),
     we_reply_ok = (\<lambda>_. True), we_hash = id, we_order = rev\<rparr>"

definition demo_pending :: "pending_ping list" where
  "demo_pending = [\<lparr>pp_iri = ''http://a'', pp_medium_str = ''podcast'', pp_reason_str = ''update'', pp_medium_raw = 1, pp_reason_raw = 0\<rparr>,
     \<lparr>pp_iri = ''http://b'', pp_medium_str = ''music'', pp_reason_str = ''live'', pp_medium_raw = 3, pp_reason_raw = 1\<rparr>,
     \<lparr>pp_iri = ''http://c'', pp_medium_str = ''podcast'', pp_reason_str = ''update'', pp_medium_raw = 1, pp_reason_raw = 0\<rparr>]"

definition demo_wstate :: "string list \<Rightarrow> writer_state" where
  "demo_wstate tx = \<lparr>w_pending = demo_pending, w_seq = 5, w_tx = tx, w_archive = None, w_replies = [], w_clk = 0\<rparr>"

definition demo_wcfg :: w_config where
  "demo_wcfg = \<lparr>wc_key = ''k'', wc_pubkey_hex = ''pk''\<rparr>"

lemma demo_payload_len: "payload_len demo_wlib k pk m r t q iris = 1"
  by (simp add: payload_len_def notification_sign_def demo_wlib_def Let_def)

lemma demo_flush:
  "\<exists>s' ns. flush_batch L demo_wcapnp demo_wcfg demo_wenv (demo_wstate tx) = Ret (s', ns)"
proof -
  have ok: "\<forall>p \<in> set demo_pending. w_medium_ok demo_wcapnp (pp_medium_raw p) \<and> w_reason_ok demo_wcapnp (pp_reason_raw p)"
    by (simp add: demo_pending_def demo_wcapnp_def)
  obtain s1 ns b where g: "send_groups L demo_wcfg demo_wenv
      (we_order demo_wenv (group_pending (w_pending (demo_wstate tx)))) (demo_wstate tx) = (s1, ns, b)"
    using prod_cases3 by blast
  have "w_pending s1 = demo_pending" using send_groups_spec [OF g] by (simp add: demo_wstate_def)
  with g show ?thesis
    using send_replies_all [OF ok, of demo_wenv] by (auto simp: flush_batch_def demo_wenv_def)
qed

section \<open>Properties\<close>

text \<open>Splitting loses and reorders nothing: the chunks, joined, are the iris given; no chunk is empty
  unless there was no iri; and each chunk is a single iri or produced a signed payload of at most
  60000 bytes when it was tested.\<close>

theorem split_iris_correct:
  "concat (fst (split_iris_to_fit L k pk clock i m r iris)) = iris
   \<and> list_all (\<lambda>c. (c \<noteq> [] \<or> iris = []) \<and>
        (length c = 1 \<or> (\<exists>j. payload_len L k pk m r (clock j) None c \<le> MAX_GOSSIP_PAYLOAD)))
      (fst (split_iris_to_fit L k pk clock i m r iris))"
proof -
  let ?fits = "\<lambda>j c. payload_len L k pk m r (clock j) None c \<le> MAX_GOSSIP_PAYLOAD"
  show ?thesis
    using split_loop_ok [of ?fits "[]" "[]" "Suc i" iris] split_loop_concat [of ?fits "Suc i" "[]" "[]" iris]
    by (auto simp: split_iris_to_fit_def Let_def chunk_ok_def list_all_iff)
qed

theorem split_iris_correct_witness:
  "concat (fst (split_iris_to_fit demo_wlib ''k'' ''pk'' (\<lambda>_. 7) 0 ''podcast'' ''update'' [''http://a'', ''http://b''])) = [''http://a'', ''http://b'']"
  using split_iris_correct [of demo_wlib "''k''" "''pk''" "\<lambda>_. 7" 0 "''podcast''" "''update''" "[''http://a'', ''http://b'']"]
  by blast

text \<open>C5. A flush sends everything once: the notifications it builds carry exactly the pending pings, as a
  multiset of iri, medium and reason, and the iris of each medium and reason in the order in which the
  pings arrived, whatever order the map is walked in; each is signed with the writer's key; their
  sequence numbers are consecutive from the counter, which advances by their number; the pending list
  is empty afterwards; the channel receives their payloads in order, up to its capacity; and unless
  the channel is closed every ping is answered, in order, as far as the socket accepts the replies.\<close>

theorem flush_sends_each_ping_once:
  assumes "mset (we_order E (group_pending (w_pending s))) = mset (group_pending (w_pending s))"
    and "flush_batch L C cfg E s = Ret (s', ns)"
  shows "mset (tagged ns) = mset (map (\<lambda>p. (pp_iri p, pp_medium_str p, pp_reason_str p)) (w_pending s))
    \<and> (\<forall>g. iris_of g (tagged ns) = map pp_iri (filter (\<lambda>p. (pp_medium_str p, pp_reason_str p) = g) (w_pending s)))
    \<and> list_all (signed_by L cfg) ns
    \<and> map n_seq ns = seq_from (w_seq s) (length ns) \<and> w_seq s' = w_seq s + of_nat (length ns)
    \<and> w_pending s' = []
    \<and> w_tx s' = w_tx s @ (if we_rx_alive E then take (room (w_tx s)) (map (notif_payload L) ns) else [])
    \<and> (\<exists>secs. w_replies s' = w_replies s @ (if we_rx_alive E then replies_to C E secs (w_pending s) else []))"
proof -
  from assms(2) obtain s1 ok where
    g: "send_groups L cfg E (we_order E (group_pending (w_pending s))) s = (s1, ns, ok)"
    and s': "w_pending s' = []" "w_seq s' = w_seq s1" "w_tx s' = w_tx s1"
    by (rule flush_batch_spec)
  note sg = send_groups_spec [OF g]
  have "list_all (signed_by L cfg) ns"
    using sg by (auto simp: list_all_iff dest: built_signed)
  moreover have "iris_of h (tagged ns) = map pp_iri (filter (\<lambda>p. (pp_medium_str p, pp_reason_str p) = h) (w_pending s))" for h
    using sg iris_of_walk [OF assms(1)] group_pending_order [of "w_pending s" h] by simp
  ultimately show ?thesis
    using sg mset_group_tagged [OF assms(1)] mset_group_pending [of "w_pending s"] s' flush_answers [OF assms]
    by simp
qed

theorem flush_sends_each_ping_once_witness:
  "\<exists>s' ns. flush_batch demo_wlib demo_wcapnp demo_wcfg demo_wenv (demo_wstate []) = Ret (s', ns)
     \<and> mset (tagged ns) = {#(''http://a'', ''podcast'', ''update''), (''http://b'', ''music'', ''live''), (''http://c'', ''podcast'', ''update'')#}
     \<and> map n_seq ns = seq_from 5 (length ns) \<and> iris_of (''podcast'', ''update'') (tagged ns) = [''http://a'', ''http://c'']
     \<and> length (w_replies s') = 3"
proof -
  from demo_flush obtain s' ns where f: "flush_batch demo_wlib demo_wcapnp demo_wcfg demo_wenv (demo_wstate []) = Ret (s', ns)"
    by blast
  have "mset (we_order demo_wenv (group_pending (w_pending (demo_wstate [])))) = mset (group_pending (w_pending (demo_wstate [])))"
    by (simp add: demo_wenv_def)
  from flush_sends_each_ping_once [OF this f] f show ?thesis
    by (auto simp: demo_wstate_def demo_pending_def replies_to_def demo_wenv_def)
qed

text \<open>C26. Messages fit the gossip layer: if the notification of each pending ping alone stays within the
  60000 bytes at which the writer splits, at some time \<open>t\<close>, then every payload a flush puts on the
  channel, and that of every notification it builds, is shorter than the maximum message size of
  65536 bytes, however the pings are grouped and split and whatever times and sequence numbers go
  into them. JSON is printed compactly, keys and signatures are printed in hexadecimal, and a
  signature has 64 bytes.\<close>

theorem flushed_payloads_fit:
  assumes "prints_json L" and "\<And>b. hex_encode L b = hex_text b" and "\<And>m. length (ed_sign L (wc_key cfg) m) = 64"
    and "\<And>p. p \<in> set (w_pending s) \<Longrightarrow>
      payload_len L (wc_key cfg) (wc_pubkey_hex cfg) (pp_medium_str p) (pp_reason_str p) t None [pp_iri p] \<le> MAX_GOSSIP_PAYLOAD"
    and "mset (we_order E (group_pending (w_pending s))) = mset (group_pending (w_pending s))"
    and "flush_batch L C cfg E s = Ret (s', ns)"
  shows "(\<forall>n \<in> set ns. length (notif_payload L n) < 65536)
    \<and> (\<exists>new. w_tx s' = w_tx s @ new \<and> (\<forall>payload \<in> set new. length payload < 65536))"
proof -
  let ?len = "payload_len L (wc_key cfg) (wc_pubkey_hex cfg)"
  from assms(6) obtain s1 ok where
    g: "send_groups L cfg E (we_order E (group_pending (w_pending s))) s = (s1, ns, ok)" and tx: "w_tx s' = w_tx s1"
    by (rule flush_batch_spec)
  note sg = send_groups_spec [OF g]
  have tags: "mset (tagged ns) = mset (map (\<lambda>p. (pp_iri p, pp_medium_str p, pp_reason_str p)) (w_pending s))"
    using sg mset_group_tagged [OF assms(5)] mset_group_pending [of "w_pending s"] by simp
  have fit: "length (notif_payload L n) < 65536" if n: "n \<in> set ns" for n
  proof -
    obtain m r c q where b: "sized L cfg E n" "built L cfg E m r c q n" using sg n by (auto simp: list_all_iff)
    then obtain i where "n = fst (notification_sign L (wc_key cfg) (notification_new (we_clock E i) (wc_pubkey_hex cfg) m r c (Some q)))"
      by (auto simp: built_def)
    then have "length (notif_payload L n) = ?len m r (we_clock E i) (Some q) c"
      by (simp add: payload_len_def notif_payload_def notification_sign_def Let_def)
    moreover obtain t' where "?len m r t' None c \<le> MAX_GOSSIP_PAYLOAD"
    proof (cases "length c = 1")
      case True
      then obtain iri where c: "c = [iri]" by (auto simp: length_Suc_conv)
      then have "(iri, m, r) \<in> set (tagged ns)"
        using n built_fields [OF b(2)] unfolding tagged_def by force
      then have "(iri, m, r) \<in> set (map (\<lambda>p. (pp_iri p, pp_medium_str p, pp_reason_str p)) (w_pending s))"
        unfolding mset_eq_setD [OF tags] .
      then show ?thesis using assms(4) that c by auto
    next
      case False
      then show ?thesis using b(1) built_fields [OF b(2)] that by (auto simp: sized_def)
    qed
    ultimately show ?thesis
      using payload_len_varies [OF assms(1-3), of "wc_pubkey_hex cfg" m r "we_clock E i" q c t'] by (simp add: MAX_GOSSIP_PAYLOAD_def)
  qed
  have "\<exists>new. w_tx s' = w_tx s @ new \<and> set new \<subseteq> notif_payload L ` set ns"
    using sg set_take_subset [of "room (w_tx s)" "map (notif_payload L) ns"] by (auto simp: tx)
  with fit show ?thesis by fastforce
qed

text \<open>A writer that prints real JSON.\<close>

definition demo_jlib :: gossip_lib where
  "demo_jlib = demo_wlib\<lparr>to_vec := json_text (\<lambda>_. ''null''), hex_encode := hex_text, ed_sign := (\<lambda>k m. replicate 64 (CHR ''s''))\<rparr>"

lemma demo_jlib_wire: "prints_json demo_jlib" "hex_encode demo_jlib b = hex_text b" "length (ed_sign demo_jlib k m) = 64"
  by (auto simp: prints_json_def demo_jlib_def)

lemma demo_jlib_single:
  "list_all (\<lambda>p. payload_len demo_jlib (wc_key demo_wcfg) (wc_pubkey_hex demo_wcfg) (pp_medium_str p) (pp_reason_str p) 7 None [pp_iri p]
     \<le> MAX_GOSSIP_PAYLOAD) demo_pending"
proof -
  have v: "to_vec demo_jlib = json_text (\<lambda>_. ''null'')" by (simp add: demo_jlib_def)
  show ?thesis
    by (simp add: signed_payload_len [OF v demo_jlib_wire(2,3)] demo_pending_def demo_wcfg_def MAX_GOSSIP_PAYLOAD_def JStrs_def
        json_string_def json_escape_def byte_def dec.simps)
qed

theorem flushed_payloads_fit_witness:
  "\<exists>s' ns. flush_batch demo_jlib demo_wcapnp demo_wcfg demo_wenv (demo_wstate []) = Ret (s', ns)
     \<and> ns \<noteq> [] \<and> (\<forall>n \<in> set ns. length (notif_payload demo_jlib n) < 65536)"
proof -
  obtain s' ns where f: "flush_batch demo_jlib demo_wcapnp demo_wcfg demo_wenv (demo_wstate []) = Ret (s', ns)"
    using demo_flush by blast
  have o: "mset (we_order demo_wenv (group_pending (w_pending (demo_wstate [])))) = mset (group_pending (w_pending (demo_wstate [])))"
    by (simp add: demo_wenv_def)
  have "payload_len demo_jlib (wc_key demo_wcfg) (wc_pubkey_hex demo_wcfg) (pp_medium_str p) (pp_reason_str p) 7 None [pp_iri p] \<le> MAX_GOSSIP_PAYLOAD"
    if "p \<in> set (w_pending (demo_wstate []))" for p
    using that demo_jlib_single by (auto simp: demo_wstate_def list_all_iff)
  from flushed_payloads_fit [OF demo_jlib_wire this o f] have "\<forall>n \<in> set ns. length (notif_payload demo_jlib n) < 65536" ..
  moreover have "ns \<noteq> []" by (rule flush_sends_some [OF o f]) (simp add: demo_wstate_def demo_pending_def)
  ultimately show ?thesis using f by blast
qed

text \<open>C38. When the broadcast channel is full, a flush puts nothing on it and still acknowledges every
  pending ping, so the front-end removes pings that were never broadcast.\<close>

theorem full_channel_acknowledges_unsent_pings:
  assumes "mset (we_order E (group_pending (w_pending s))) = mset (group_pending (w_pending s))"
    and "CHANNEL_CAPACITY \<le> length (w_tx s)" and "we_rx_alive E" and "w_pending s \<noteq> []"
    and "\<forall>p \<in> set (w_pending s). w_medium_ok C (pp_medium_raw p) \<and> w_reason_ok C (pp_reason_raw p)"
    and "\<forall>i. we_reply_ok E i"
  shows "\<exists>s' ns secs. flush_batch L C cfg E s = Ret (s', ns) \<and> w_tx s' = w_tx s
    \<and> w_replies s' = w_replies s @ map (\<lambda>p. zmq_reply_bytes C (reply_for secs (we_nanos E) p)) (w_pending s)"
proof -
  obtain s1 ns ok where g: "send_groups L cfg E (we_order E (group_pending (w_pending s))) s = (s1, ns, ok)"
    using prod_cases3 by blast
  have "set (we_order E (group_pending (w_pending s))) = set (group_pending (w_pending s))"
    using assms(1) by (rule mset_eq_setD)
  then have "ok" using send_groups_spec [OF g] group_pending_nonempty [OF assms(4)] assms(3) by auto
  moreover have "room (w_tx s) = 0" using assms(2) by (simp add: room_def)
  ultimately show ?thesis
    using send_groups_spec [OF g] send_replies_all [OF assms(5,6)] g assms(3)
    by (auto simp: flush_batch_def)
qed

theorem full_channel_acknowledges_unsent_pings_witness:
  "\<exists>s' ns. flush_batch demo_wlib demo_wcapnp demo_wcfg demo_wenv (demo_wstate (replicate 1000 ''x'')) = Ret (s', ns)
     \<and> w_tx s' = replicate 1000 ''x'' \<and> length (w_replies s') = 3"
  using full_channel_acknowledges_unsent_pings [of demo_wenv "demo_wstate (replicate 1000 ''x'')" demo_wcapnp demo_wlib demo_wcfg]
  by (auto simp: demo_wstate_def demo_wenv_def demo_pending_def demo_wcapnp_def CHANNEL_CAPACITY_def)

end
