(* ===== verification/Writer_Broadcast.thy ===== *)
theory Writer_Broadcast
  imports Reconnect Writer_Batch
begin

text \<open>
  The writer's broadcast task: it takes signed payloads from the channel that
  \<open>flush_batch\<close> fills, broadcasts each through the current gossip sender, keeps failed ones in a
  bounded retry queue and replaces the subscription after five failures or on request of the
  watchdog, the isolation check or the health report. One turn of its \<^verbatim>\<open>select!\<close> loop is a step; the
  other tasks interleave with it on the shared counters \<open>ctl\<close>. \<open>b_delivered\<close> records the successful
  broadcasts in order.
\<close>

section \<open>State and environment\<close>

definition MAX_RETRY_QUEUE :: nat where
  "MAX_RETRY_QUEUE = 500"

datatype bcast_result = Sent | Failed | Timed_out

record bcast =
  b_ctl :: ctl
  b_consecutive_failures :: u64
  b_retry_queue :: "string list"
  b_alive :: bool
  b_delivered :: "string list"

text \<open>
  What the network answers in one turn: the broadcast, the reconnect, the replays in their order, and
  the wall clock.
\<close>

record b_env =
  be_result :: bcast_result
  be_rc :: rc_env
  be_replay :: "nat \<Rightarrow> bcast_result"
  be_now :: u64

section \<open>Operations\<close>

definition fresh_endpoint :: "rc_env \<Rightarrow> ctl \<Rightarrow> ctl" where
  "fresh_endpoint e c =
     (if ENDPOINT_RESET_AFTER_RECONNECTS < c_consecutive c \<and> rc_bind_ok e
      then c\<lparr>c_endpoint := Suc (c_endpoint c)\<rparr> else c)"

text \<open>
  \<^verbatim>\<open>reconnect_gossip_topic\<close> shuts the old topic down before it subscribes again; on success the new
  sender is installed, a new receive task is spawned and the neighbour tracking starts afresh.
\<close>

definition reconnect_gossip_topic :: "rc_env \<Rightarrow> ctl \<Rightarrow> ctl + ctl" where
  "reconnect_gossip_topic e c =
     (let c1 = c\<lparr>c_up := False\<rparr>
      in if rc_subscribe_ok e
         then Ok (c1\<lparr>c_sender := Suc (c_sender c1), c_up := True, c_generation := c_generation c1 + 1,
                     c_neighbor_ids := {}, c_neighbor_count := 0\<rparr>)
         else Err c1)"

definition on_notify :: "rc_env \<Rightarrow> bcast \<Rightarrow> bcast" where
  "on_notify e s =
     (let c = b_ctl s; requested = c_requested c; forced = c_force_reset c;
          c1 = c\<lparr>c_notify := False, c_requested := False, c_force_reset := False\<rparr>
      in if \<not> requested \<and> \<not> forced then s\<lparr>b_ctl := c1\<rparr>
         else if \<not> forced \<and> elapsed e c < COOLDOWN then s\<lparr>b_ctl := c1\<rparr>
         else
           let cr = (if forced then ENDPOINT_RESET_AFTER_RECONNECTS + 1 else c_consecutive c + 1);
               c2 = fresh_endpoint e (c1\<lparr>c_consecutive := cr\<rparr>)
           in case reconnect_gossip_topic e c2 of
                Inr c3 \<Rightarrow> s\<lparr>b_ctl := c3\<lparr>c_failures := 0, c_last_reconnect := rc_done e, c_reconnects := c_reconnects c3 + 1\<rparr>,
                           b_consecutive_failures := 0\<rparr>
              | Inl c3 \<Rightarrow> s\<lparr>b_ctl := c3\<lparr>c_failures := 0\<rparr>, b_consecutive_failures := 0\<rparr>)"

text \<open>The first part of a payload turn: the broadcast and its bookkeeping.\<close>

definition note_failure :: "string \<Rightarrow> bcast \<Rightarrow> bcast" where
  "note_failure p s =
     (let n = b_consecutive_failures s + 1
      in s\<lparr>b_ctl := (b_ctl s)\<lparr>c_failed := c_failed (b_ctl s) + 1, c_failures := n\<rparr>,
           b_consecutive_failures := n,
           b_retry_queue := (if length (b_retry_queue s) < MAX_RETRY_QUEUE then b_retry_queue s @ [p] else b_retry_queue s)\<rparr>)"

definition try_broadcast :: "b_env \<Rightarrow> string \<Rightarrow> bcast \<Rightarrow> bcast" where
  "try_broadcast e p s =
     (case be_result e of
        Sent \<Rightarrow> s\<lparr>b_ctl := (b_ctl s)\<lparr>c_sent := c_sent (b_ctl s) + 1, c_last_ok := be_now e, c_consecutive := 0, c_failures := 0\<rparr>,
                 b_consecutive_failures := 0, b_delivered := b_delivered s @ [p]\<rparr>
      | Failed \<Rightarrow> note_failure p s
      | Timed_out \<Rightarrow> note_failure p s)"

text \<open>The replay pops from the front and puts the payload that fails back: what was sent, what stays.\<close>

fun replay :: "(nat \<Rightarrow> bcast_result) \<Rightarrow> nat \<Rightarrow> string list \<Rightarrow> string list \<times> string list" where
  "replay r i [] = ([], [])"
| "replay r i (p # ps) =
     (case r i of
        Sent \<Rightarrow> (let (sent, rest) = replay r (Suc i) ps in (p # sent, rest))
      | Failed \<Rightarrow> ([], p # ps)
      | Timed_out \<Rightarrow> ([], p # ps))"

definition failure_reconnect :: "b_env \<Rightarrow> bcast \<Rightarrow> bcast" where
  "failure_reconnect e s =
     (let c = (b_ctl s)\<lparr>c_failures := 0\<rparr>; s1 = s\<lparr>b_ctl := c, b_consecutive_failures := 0\<rparr>
      in if elapsed (be_rc e) c < COOLDOWN then s1
         else
           let c2 = fresh_endpoint (be_rc e) (c\<lparr>c_consecutive := c_consecutive c + 1\<rparr>)
           in case reconnect_gossip_topic (be_rc e) c2 of
                Inr c3 \<Rightarrow>
                  (let (sent, rest) = replay (be_replay e) 0 (b_retry_queue s1)
                   in s1\<lparr>b_ctl := c3\<lparr>c_sent := c_sent c3 + of_nat (length sent), c_failures := 0, c_last_ok := be_now e,
                                     c_last_reconnect := rc_done (be_rc e), c_reconnects := c_reconnects c3 + 1\<rparr>,
                         b_retry_queue := rest, b_delivered := b_delivered s1 @ sent\<rparr>)
              | Inl c3 \<Rightarrow> s1\<lparr>b_ctl := c3\<rparr>)"

definition on_payload :: "b_env \<Rightarrow> string option \<Rightarrow> bcast \<Rightarrow> bcast" where
  "on_payload e mp s =
     (case mp of
        None \<Rightarrow> s\<lparr>b_alive := False\<rparr>
      | Some p \<Rightarrow>
          if c_shutdown (b_ctl s) then s\<lparr>b_alive := False\<rparr>
          else
            let s1 = try_broadcast e p s
            in if RECONNECT_AFTER_FAILURES \<le> b_consecutive_failures s1 then failure_reconnect e s1 else s1)"

section \<open>Runs\<close>

text \<open>Turns of the broadcast task and of the tasks it shares counters with.\<close>

datatype w_event =
    Notified rc_env
  | Received b_env "string option"
  | W_watchdog "string option" u64
  | W_isolation
  | W_health nat u64 u64

fun w_turn :: "(string \<Rightarrow> 'id option) \<Rightarrow> string \<Rightarrow> w_event \<Rightarrow> bcast \<Rightarrow> bcast" where
  "w_turn pid boot (Notified e) s = (if b_alive s \<and> c_notify (b_ctl s) then on_notify e s else s)"
| "w_turn pid boot (Received e mp) s = (if b_alive s then on_payload e mp s else s)"
| "w_turn pid boot (W_watchdog f now) s = s\<lparr>b_ctl := fst (w_watchdog_turn pid boot f now (b_ctl s))\<rparr>"
| "w_turn pid boot W_isolation s = s\<lparr>b_ctl := w_isolation_turn (b_ctl s)\<rparr>"
| "w_turn pid boot (W_health t now rss) s = s\<lparr>b_ctl := fst (w_health_turn t now rss (b_alive s) (b_ctl s))\<rparr>"

text \<open>The task starts with no failures and an empty queue.\<close>

inductive w_reachable :: "(string \<Rightarrow> 'id option) \<Rightarrow> string \<Rightarrow> bcast \<Rightarrow> bool"
  for pid :: "string \<Rightarrow> 'id option" and boot :: string where
  start: "b_consecutive_failures s = 0 \<Longrightarrow> b_retry_queue s = [] \<Longrightarrow> w_reachable pid boot s"
| step: "w_reachable pid boot s \<Longrightarrow> w_reachable pid boot (w_turn pid boot ev s)"

text \<open>The payloads that a run takes from the channel and broadcasts or queues.\<close>

fun accepted :: "w_event \<Rightarrow> bcast \<Rightarrow> string list" where
  "accepted (Received e (Some p)) s = (if b_alive s \<and> \<not> c_shutdown (b_ctl s) then [p] else [])"
| "accepted _ s = []"

fun accepted_run :: "(string \<Rightarrow> 'id option) \<Rightarrow> string \<Rightarrow> w_event list \<Rightarrow> bcast \<Rightarrow> string list" where
  "accepted_run pid boot [] s = []"
| "accepted_run pid boot (ev # evs) s = accepted ev s @ accepted_run pid boot evs (w_turn pid boot ev s)"

definition w_wf :: "bcast \<Rightarrow> bool" where
  "w_wf s \<longleftrightarrow> b_consecutive_failures s < RECONNECT_AFTER_FAILURES \<and> length (b_retry_queue s) \<le> MAX_RETRY_QUEUE"

section \<open>Lemmas\<close>

lemma replay_splits: "replay r i q = (sent, rest) \<Longrightarrow> q = sent @ rest"
  by (induction r i q arbitrary: sent rest rule: replay.induct)
    (auto split: bcast_result.splits prod.splits)

lemma replay_all: "(\<And>j. i \<le> j \<Longrightarrow> j < i + length q \<Longrightarrow> r j = Sent) \<Longrightarrow> replay r i q = (q, [])"
  by (induction r i q rule: replay.induct) simp_all

lemma other_tasks_keep_ctl:
  "(\<And>e. ev \<noteq> Notified e) \<Longrightarrow> (\<And>e p. ev \<noteq> Received e p) \<Longrightarrow>
   c_sender (b_ctl (w_turn pid boot ev s)) = c_sender (b_ctl s)
   \<and> c_last_reconnect (b_ctl (w_turn pid boot ev s)) = c_last_reconnect (b_ctl s)"
  by (cases ev) (auto simp: w_watchdog_turn_def stall_step_def raise_request_def w_isolation_turn_def
      w_health_turn_def recycle_def Let_def)

lemma on_notify_keeps:
  "b_retry_queue (on_notify e s) = b_retry_queue s" "b_delivered (on_notify e s) = b_delivered s"
  "b_alive (on_notify e s) = b_alive s"
  "b_consecutive_failures (on_notify e s) = b_consecutive_failures s \<or> b_consecutive_failures (on_notify e s) = 0"
  by (simp_all add: on_notify_def reconnect_gossip_topic_def Let_def)

lemma failure_reconnect_conserves:
  "b_delivered (failure_reconnect e s) @ b_retry_queue (failure_reconnect e s) = b_delivered s @ b_retry_queue s"
proof -
  obtain sent rest where r: "replay (be_replay e) 0 (b_retry_queue s) = (sent, rest)" by fastforce
  from replay_splits [OF r] r show ?thesis
    by (simp add: failure_reconnect_def reconnect_gossip_topic_def Let_def)
qed

lemma failure_reconnect_zero: "b_consecutive_failures (failure_reconnect e s) = 0"
  by (simp add: failure_reconnect_def reconnect_gossip_topic_def Let_def split: prod.split)

lemma failure_reconnect_alive: "b_alive (failure_reconnect e s) = b_alive s"
  by (simp add: failure_reconnect_def reconnect_gossip_topic_def Let_def split: prod.split)

lemma failure_reconnect_queue: "length (b_retry_queue (failure_reconnect e s)) \<le> length (b_retry_queue s)"
proof -
  obtain sent rest where r: "replay (be_replay e) 0 (b_retry_queue s) = (sent, rest)" by fastforce
  from replay_splits [OF r] r show ?thesis
    by (simp add: failure_reconnect_def reconnect_gossip_topic_def Let_def)
qed

lemma try_broadcast_conserves:
  "mset (b_delivered (try_broadcast e p s)) + mset (b_retry_queue (try_broadcast e p s))
     \<subseteq># add_mset p (mset (b_delivered s) + mset (b_retry_queue s))"
  "length (b_retry_queue s) < MAX_RETRY_QUEUE \<Longrightarrow>
   mset (b_delivered (try_broadcast e p s)) + mset (b_retry_queue (try_broadcast e p s))
     = add_mset p (mset (b_delivered s) + mset (b_retry_queue s))"
  by (simp_all add: try_broadcast_def note_failure_def Let_def split: bcast_result.split)

lemma try_broadcast_queue:
  "length (b_retry_queue s) \<le> MAX_RETRY_QUEUE \<Longrightarrow> length (b_retry_queue (try_broadcast e p s)) \<le> MAX_RETRY_QUEUE"
  "length (b_retry_queue (try_broadcast e p s)) \<le> Suc (length (b_retry_queue s))"
  by (simp_all add: try_broadcast_def note_failure_def Let_def split: bcast_result.split)

lemma try_broadcast_failures:
  "b_consecutive_failures (try_broadcast e p s) = (if be_result e = Sent then 0 else b_consecutive_failures s + 1)"
  "b_alive (try_broadcast e p s) = b_alive s"
  "c_shutdown (b_ctl (try_broadcast e p s)) = c_shutdown (b_ctl s)"
  "c_sender (b_ctl (try_broadcast e p s)) = c_sender (b_ctl s)"
  "c_last_reconnect (b_ctl (try_broadcast e p s)) = c_last_reconnect (b_ctl s)"
  by (simp_all add: try_broadcast_def note_failure_def Let_def split: bcast_result.split)

lemma on_payload_wf: "w_wf s \<Longrightarrow> w_wf (on_payload e mp s)"
  using try_broadcast_queue(1) [of s e] failure_reconnect_queue [of e] failure_reconnect_zero [of e]
  by (auto simp: on_payload_def w_wf_def Let_def RECONNECT_AFTER_FAILURES_def not_le
      intro: order_trans split: option.split)

lemma on_notify_wf: "w_wf s \<Longrightarrow> w_wf (on_notify e s)"
  using on_notify_keeps(1,4) [of e s] by (auto simp: w_wf_def RECONNECT_AFTER_FAILURES_def)

lemma w_turn_wf [inv_intros]: "w_wf s \<Longrightarrow> w_wf (w_turn pid boot ev s)"
proof (cases ev)
  case (Received e mp)
  then show "w_wf s \<Longrightarrow> ?thesis" by (simp add: on_payload_wf)
next
  case (Notified e)
  then show "w_wf s \<Longrightarrow> ?thesis" by (simp add: on_notify_wf)
qed (simp_all add: w_wf_def)

text \<open>Conservation in one turn: nothing is made up or doubled, and nothing is lost below the cap.\<close>

definition held :: "bcast \<Rightarrow> string multiset" where
  "held s = mset (b_delivered s) + mset (b_retry_queue s)"

lemma failure_reconnect_held: "held (failure_reconnect e s) = held s"
  using failure_reconnect_conserves [of e s] by (metis held_def mset_append)

lemma on_payload_held:
  assumes "\<not> c_shutdown (b_ctl s)"
  shows "held (on_payload e (Some p) s) \<subseteq># add_mset p (held s)"
    and "length (b_retry_queue s) < MAX_RETRY_QUEUE \<Longrightarrow> held (on_payload e (Some p) s) = add_mset p (held s)"
    and "length (b_retry_queue (on_payload e (Some p) s)) \<le> Suc (length (b_retry_queue s))"
proof -
  let ?t = "try_broadcast e p s"
  have t: "held ?t \<subseteq># add_mset p (held s)"
    "length (b_retry_queue s) < MAX_RETRY_QUEUE \<Longrightarrow> held ?t = add_mset p (held s)"
    using try_broadcast_conserves [where e = e and p = p and s = s] by (simp_all add: held_def)
  have "held (on_payload e (Some p) s) = held ?t"
    using assms by (simp add: on_payload_def Let_def failure_reconnect_held)
  with t show "held (on_payload e (Some p) s) \<subseteq># add_mset p (held s)"
    "length (b_retry_queue s) < MAX_RETRY_QUEUE \<Longrightarrow> held (on_payload e (Some p) s) = add_mset p (held s)"
    by simp_all
  show "length (b_retry_queue (on_payload e (Some p) s)) \<le> Suc (length (b_retry_queue s))"
    using assms try_broadcast_queue(2) [of e p s] failure_reconnect_queue [of e ?t]
    by (simp add: on_payload_def Let_def)
qed

lemma w_turn_idle:
  assumes "accepted ev s = []"
  shows "held (w_turn pid boot ev s) = held s \<and> b_retry_queue (w_turn pid boot ev s) = b_retry_queue s"
proof (cases ev)
  case (Received e mp)
  with assms show ?thesis by (cases mp) (auto simp: on_payload_def held_def split: if_splits)
next
  case (Notified e)
  then show ?thesis by (simp add: held_def on_notify_keeps)
qed (simp_all add: held_def)

lemma w_turn_held:
  "held (w_turn pid boot ev s) \<subseteq># held s + mset (accepted ev s)"
  "length (b_retry_queue s) + length (accepted ev s) \<le> MAX_RETRY_QUEUE \<Longrightarrow>
     held (w_turn pid boot ev s) = held s + mset (accepted ev s)"
  "length (b_retry_queue (w_turn pid boot ev s)) \<le> length (b_retry_queue s) + length (accepted ev s)"
proof -
  consider (idle) "accepted ev s = []"
    | (recv) e p where "ev = Received e (Some p)" "accepted ev s = [p]" "b_alive s" "\<not> c_shutdown (b_ctl s)"
    by (cases "accepted ev s = []"; cases "(ev, s)" rule: accepted.cases) (auto split: if_splits)
  then have "held (w_turn pid boot ev s) \<subseteq># held s + mset (accepted ev s)
    \<and> (length (b_retry_queue s) + length (accepted ev s) \<le> MAX_RETRY_QUEUE \<longrightarrow>
        held (w_turn pid boot ev s) = held s + mset (accepted ev s))
    \<and> length (b_retry_queue (w_turn pid boot ev s)) \<le> length (b_retry_queue s) + length (accepted ev s)"
  proof cases
    case idle
    with w_turn_idle [OF idle, of pid boot] show ?thesis by simp
  next
    case recv
    with on_payload_held [OF recv(4), of e p] show ?thesis by simp
  qed
  then show "held (w_turn pid boot ev s) \<subseteq># held s + mset (accepted ev s)"
    "length (b_retry_queue s) + length (accepted ev s) \<le> MAX_RETRY_QUEUE \<Longrightarrow>
       held (w_turn pid boot ev s) = held s + mset (accepted ev s)"
    "length (b_retry_queue (w_turn pid boot ev s)) \<le> length (b_retry_queue s) + length (accepted ev s)"
    by simp_all
qed

lemma run_held_sub: "held (turns (w_turn pid boot) evs s) \<subseteq># held s + mset (accepted_run pid boot evs s)"
proof (induction evs arbitrary: s)
  case (Cons ev evs)
  let ?s = "w_turn pid boot ev s"
  have "held (turns (w_turn pid boot) evs ?s) \<subseteq># held ?s + mset (accepted_run pid boot evs ?s)" by (rule Cons.IH)
  also have "\<dots> \<subseteq># (held s + mset (accepted ev s)) + mset (accepted_run pid boot evs ?s)"
    by (intro subset_mset.add_right_mono w_turn_held(1))
  finally show ?case by (simp add: add.assoc)
qed simp

lemma run_held_eq:
  "length (b_retry_queue s) + length (accepted_run pid boot evs s) \<le> MAX_RETRY_QUEUE \<Longrightarrow>
     held (turns (w_turn pid boot) evs s) = held s + mset (accepted_run pid boot evs s)"
proof (induction evs arbitrary: s)
  case (Cons ev evs)
  let ?s = "w_turn pid boot ev s"
  from Cons.prems have b: "length (b_retry_queue s) + length (accepted ev s) \<le> MAX_RETRY_QUEUE"
    "length (b_retry_queue ?s) + length (accepted_run pid boot evs ?s) \<le> MAX_RETRY_QUEUE"
    using w_turn_held(3) [of pid boot ev s] by simp_all
  from Cons.IH [OF b(2)] w_turn_held(2) [OF b(1), of pid boot] show ?case by (simp add: add.assoc)
qed simp

text \<open>The rate limit: both reconnect paths check the same cooldown.\<close>

lemma on_notify_cases:
  assumes "rc_ok e"
  shows "(c_sender (b_ctl (on_notify e s)) = c_sender (b_ctl s)
      \<and> c_last_reconnect (b_ctl (on_notify e s)) = c_last_reconnect (b_ctl s))
    \<or> (c_sender (b_ctl (on_notify e s)) = Suc (c_sender (b_ctl s))
      \<and> c_last_reconnect (b_ctl (on_notify e s)) = rc_done e
      \<and> (c_force_reset (b_ctl s) \<or> c_last_reconnect (b_ctl s) + COOLDOWN \<le> rc_done e))"
  using assms by (auto simp: on_notify_def reconnect_gossip_topic_def fresh_endpoint_def elapsed_def rc_ok_def
      COOLDOWN_def Let_def)

lemma failure_reconnect_cases:
  assumes "rc_ok (be_rc e)"
  shows "(c_sender (b_ctl (failure_reconnect e s)) = c_sender (b_ctl s)
      \<and> c_last_reconnect (b_ctl (failure_reconnect e s)) = c_last_reconnect (b_ctl s))
    \<or> (c_sender (b_ctl (failure_reconnect e s)) = Suc (c_sender (b_ctl s))
      \<and> c_last_reconnect (b_ctl (failure_reconnect e s)) = rc_done (be_rc e)
      \<and> c_last_reconnect (b_ctl s) + COOLDOWN \<le> rc_done (be_rc e))"
  using assms by (auto simp: failure_reconnect_def reconnect_gossip_topic_def fresh_endpoint_def elapsed_def rc_ok_def
      COOLDOWN_def Let_def split: prod.split)

fun w_event_ok :: "w_event \<Rightarrow> bool" where
  "w_event_ok (Notified e) = rc_ok e"
| "w_event_ok (Received e mp) = rc_ok (be_rc e)"
| "w_event_ok _ = True"

fun w_event_done :: "w_event \<Rightarrow> nat" where
  "w_event_done (Notified e) = rc_done e"
| "w_event_done (Received e mp) = rc_done (be_rc e)"
| "w_event_done _ = 0"

interpretation writer: cooled "w_turn pid boot" "\<lambda>s. c_sender (b_ctl s)" "\<lambda>s. c_last_reconnect (b_ctl s)"
    w_event_done w_event_ok "\<lambda>s. c_force_reset (b_ctl s)"
  for pid :: "string \<Rightarrow> 'id option" and boot :: string
proof
  fix ev s
  assume ok: "w_event_ok ev"
  let ?t = "w_turn pid boot ev s"
  let ?goal = "(c_sender (b_ctl ?t) = c_sender (b_ctl s) \<and> c_last_reconnect (b_ctl ?t) = c_last_reconnect (b_ctl s))
    \<or> (c_sender (b_ctl ?t) = Suc (c_sender (b_ctl s)) \<and> c_last_reconnect (b_ctl ?t) = w_event_done ev
      \<and> (c_force_reset (b_ctl s) \<or> c_last_reconnect (b_ctl s) + COOLDOWN \<le> w_event_done ev))"
  show ?goal
  proof (cases ev)
    case (Notified e)
    with ok on_notify_cases [of e s] show ?thesis by simp
  next
    case (Received e mp)
    show ?thesis
    proof (cases "\<exists>p. mp = Some p \<and> \<not> c_shutdown (b_ctl s) \<and> b_alive s")
      case True
      then obtain p where "mp = Some p" by blast
      with True Received ok failure_reconnect_cases [of e "try_broadcast e p s"]
      show ?thesis by (auto simp: on_payload_def Let_def try_broadcast_failures)
    next
      case False
      with Received show ?thesis by (auto simp: on_payload_def split: option.split)
    qed
  qed (use other_tasks_keep_ctl [of ev pid boot s] in simp_all)
qed

section \<open>Properties\<close>

text \<open>C25. State invariant of the broadcast task, by induction over reachable states: however its turns
  interleave with the watchdog, the isolation check and the health report, at the top of its loop it
  has counted fewer than five consecutive failures and holds at most 500 payloads for retry.\<close>

theorem broadcast_state_bounded:
  assumes "w_reachable pid boot s"
  shows "b_consecutive_failures s < RECONNECT_AFTER_FAILURES \<and> length (b_retry_queue s) \<le> MAX_RETRY_QUEUE"
proof -
  from assms have "w_wf s"
  proof induction
    case (start s)
    then show ?case by (simp add: w_wf_def RECONNECT_AFTER_FAILURES_def)
  qed (rule w_turn_wf)
  then show ?thesis by (simp add: w_wf_def)
qed

definition demo_bcast :: bcast where
  "demo_bcast = \<lparr>b_ctl = demo_ctl, b_consecutive_failures = 0, b_retry_queue = [], b_alive = True, b_delivered = []\<rparr>"

definition demo_benv :: "bcast_result \<Rightarrow> nat \<Rightarrow> b_env" where
  "demo_benv r t = \<lparr>be_result = r, be_rc = demo_rc t, be_replay = (\<lambda>_. Sent), be_now = 2000\<rparr>"

theorem broadcast_state_bounded_witness:
  "w_reachable Some [] (w_turn Some [] (Received (demo_benv Failed 5) (Some ''p'')) demo_bcast)
   \<and> length (b_retry_queue (w_turn Some [] (Received (demo_benv Failed 5) (Some ''p'')) demo_bcast)) \<le> MAX_RETRY_QUEUE"
proof -
  have "w_reachable Some [] demo_bcast" by (rule start) (simp_all add: demo_bcast_def)
  then have "w_reachable Some [] (w_turn Some [] (Received (demo_benv Failed 5) (Some ''p'')) demo_bcast)" by (rule step)
  with broadcast_state_bounded [OF this] show ?thesis by simp
qed

text \<open>Conservation: over any run, the payloads delivered or waiting for retry are among those held
  before and those taken from the channel, with multiplicity: nothing is sent twice or made up. While
  the retry queue cannot overflow, nothing is lost either.\<close>

theorem broadcast_conserves_payloads:
  shows "let t = turns (w_turn pid boot) evs s; accepted = accepted_run pid boot evs s
    in mset (b_delivered t) + mset (b_retry_queue t)
         \<subseteq># mset (b_delivered s) + mset (b_retry_queue s) + mset accepted
     \<and> (length (b_retry_queue s) + length accepted \<le> MAX_RETRY_QUEUE \<longrightarrow>
         mset (b_delivered t) + mset (b_retry_queue t)
         = mset (b_delivered s) + mset (b_retry_queue s) + mset accepted)"
  using run_held_sub [of pid boot evs s] run_held_eq [of s pid boot evs] by (simp add: held_def Let_def)

theorem broadcast_conserves_payloads_witness:
  "accepted_run Some [] [Received (demo_benv Failed 5) (Some ''p'')] demo_bcast = [''p'']
   \<and> held (turns (w_turn Some []) [Received (demo_benv Failed 5) (Some ''p'')] demo_bcast) = {# ''p'' #}"
proof -
  let ?evs = "[Received (demo_benv Failed 5) (Some ''p'')]"
  have a: "accepted_run Some [] ?evs demo_bcast = [''p'']"
    by (simp add: demo_bcast_def demo_ctl_def)
  have "length (b_retry_queue demo_bcast) + length (accepted_run Some [] ?evs demo_bcast) \<le> MAX_RETRY_QUEUE"
    unfolding a by (simp add: demo_bcast_def MAX_RETRY_QUEUE_def)
  with broadcast_conserves_payloads [of Some "[]" ?evs demo_bcast]
  have "held (turns (w_turn Some []) ?evs demo_bcast)
      = held demo_bcast + mset (accepted_run Some [] ?evs demo_bcast)"
    by (simp only: held_def Let_def)
  with a show ?thesis by (simp only: a) (simp add: held_def demo_bcast_def)
qed

definition failing_run :: "b_env list \<Rightarrow> string list \<Rightarrow> w_event list" where
  "failing_run es ps = map2 (\<lambda>e p. Received e (Some p)) es ps"

lemma try_broadcast_failed:
  "be_result e \<noteq> Sent \<Longrightarrow> length (b_retry_queue s) < MAX_RETRY_QUEUE \<Longrightarrow>
   b_retry_queue (try_broadcast e p s) = b_retry_queue s @ [p] \<and> b_delivered (try_broadcast e p s) = b_delivered s
   \<and> elapsed rc (b_ctl (try_broadcast e p s)) = elapsed rc (b_ctl s)"
  by (auto simp: try_broadcast_def note_failure_def elapsed_def Let_def split: bcast_result.split)

lemma failing_prefix:
  assumes "length ps = length es" and "unat (b_consecutive_failures s) + length es < 5"
    and "list_all (\<lambda>e. be_result e \<noteq> Sent) es" and "b_alive s" and "\<not> c_shutdown (b_ctl s)"
    and "length (b_retry_queue s) + length es \<le> MAX_RETRY_QUEUE"
  shows "let t = turns (w_turn pid boot) (failing_run es ps) s in
    b_retry_queue t = b_retry_queue s @ ps \<and> b_delivered t = b_delivered s \<and> b_alive t \<and> \<not> c_shutdown (b_ctl t)
    \<and> b_consecutive_failures t = b_consecutive_failures s + of_nat (length es)
    \<and> c_sender (b_ctl t) = c_sender (b_ctl s) \<and> elapsed rc (b_ctl t) = elapsed rc (b_ctl s)"
  using assms
proof (induction es ps arbitrary: s rule: list_induct2')
  case (4 e es p ps)
  let ?s = "try_broadcast e p s"
  have q: "b_retry_queue ?s = b_retry_queue s @ [p] \<and> b_delivered ?s = b_delivered s
      \<and> elapsed rc (b_ctl ?s) = elapsed rc (b_ctl s)"
    using 4 by (intro try_broadcast_failed) simp_all
  have n: "b_consecutive_failures ?s = b_consecutive_failures s + 1" using 4 by (simp add: try_broadcast_failures)
  have u: "unat (b_consecutive_failures s + 1) = unat (b_consecutive_failures s) + 1"
    using 4 by (simp add: unat_word_ariths)
  then have "\<not> RECONNECT_AFTER_FAILURES \<le> b_consecutive_failures ?s"
    using 4 n by (simp add: word_le_nat_alt RECONNECT_AFTER_FAILURES_def)
  then have t: "w_turn pid boot (Received e (Some p)) s = ?s" using 4 by (simp add: on_payload_def Let_def)
  have "let t = turns (w_turn pid boot) (failing_run es ps) ?s in
      b_retry_queue t = b_retry_queue ?s @ ps \<and> b_delivered t = b_delivered ?s \<and> b_alive t \<and> \<not> c_shutdown (b_ctl t)
      \<and> b_consecutive_failures t = b_consecutive_failures ?s + of_nat (length es)
      \<and> c_sender (b_ctl t) = c_sender (b_ctl ?s) \<and> elapsed rc (b_ctl t) = elapsed rc (b_ctl ?s)"
    using 4 q n u by (intro "4.IH") (simp_all add: try_broadcast_failures)
  with t q n show ?case by (simp add: failing_run_def Let_def try_broadcast_failures)
qed (simp_all add: failing_run_def)

lemma failure_reconnect_replays:
  assumes "COOLDOWN \<le> elapsed (be_rc e) (b_ctl s)" and "rc_subscribe_ok (be_rc e)"
    and "\<And>j. j < length (b_retry_queue s) \<Longrightarrow> be_replay e j = Sent"
  shows "b_retry_queue (failure_reconnect e s) = [] \<and> b_delivered (failure_reconnect e s) = b_delivered s @ b_retry_queue s
    \<and> c_sender (b_ctl (failure_reconnect e s)) = Suc (c_sender (b_ctl s))"
  using assms replay_all [of 0 "b_retry_queue s" "be_replay e"]
  by (simp add: failure_reconnect_def reconnect_gossip_topic_def fresh_endpoint_def elapsed_def Let_def)

text \<open>Recovery of failed broadcasts: five failed broadcasts in a row, the fifth out of the cooldown
  and with a working reconnect, install a new sender, deliver the whole retry queue in its order,
  the five payloads last, and leave the queue empty.\<close>

theorem five_failures_replay_in_order:
  assumes "b_alive s" and "\<not> c_shutdown (b_ctl s)" and "b_consecutive_failures s = 0"
    and "length es = 4" and "length ps = 4" and "list_all (\<lambda>e. be_result e \<noteq> Sent) (es @ [e])"
    and "length (b_retry_queue s) + 5 \<le> MAX_RETRY_QUEUE"
    and "COOLDOWN \<le> elapsed (be_rc e) (b_ctl s)" and "rc_subscribe_ok (be_rc e)"
    and "\<And>j. be_replay e j = Sent"
  shows "let t = w_turn pid boot (Received e (Some p)) (turns (w_turn pid boot) (failing_run es ps) s)
    in b_delivered t = b_delivered s @ b_retry_queue s @ ps @ [p] \<and> b_retry_queue t = []
       \<and> c_sender (b_ctl t) = Suc (c_sender (b_ctl s))"
proof -
  let ?u = "turns (w_turn pid boot) (failing_run es ps) s"
  let ?v = "try_broadcast e p ?u"
  have u: "b_retry_queue ?u = b_retry_queue s @ ps \<and> b_delivered ?u = b_delivered s \<and> b_alive ?u
      \<and> \<not> c_shutdown (b_ctl ?u) \<and> b_consecutive_failures ?u = b_consecutive_failures s + of_nat (length es)
      \<and> c_sender (b_ctl ?u) = c_sender (b_ctl s) \<and> elapsed (be_rc e) (b_ctl ?u) = elapsed (be_rc e) (b_ctl s)"
    using failing_prefix [of ps es s pid boot "be_rc e"] assms by (simp add: Let_def)
  have v: "b_retry_queue ?v = b_retry_queue s @ ps @ [p] \<and> b_delivered ?v = b_delivered s
      \<and> elapsed (be_rc e) (b_ctl ?v) = elapsed (be_rc e) (b_ctl s)"
    using try_broadcast_failed [of e ?u p "be_rc e"] u assms by simp
  have "b_consecutive_failures ?v = RECONNECT_AFTER_FAILURES"
    using u assms by (simp add: try_broadcast_failures RECONNECT_AFTER_FAILURES_def)
  then have t: "w_turn pid boot (Received e (Some p)) ?u = failure_reconnect e ?v"
    using u by (simp add: on_payload_def Let_def)
  have "b_retry_queue (failure_reconnect e ?v) = [] \<and> b_delivered (failure_reconnect e ?v) = b_delivered ?v @ b_retry_queue ?v
      \<and> c_sender (b_ctl (failure_reconnect e ?v)) = Suc (c_sender (b_ctl ?v))"
    using v assms by (intro failure_reconnect_replays) simp_all
  with t u v show ?thesis by (simp add: Let_def try_broadcast_failures del: w_turn.simps)
qed

theorem five_failures_replay_in_order_witness:
  "b_delivered (w_turn Some [] (Received (demo_benv Timed_out (40 * 10 ^ 9)) (Some ''e''))
     (turns (w_turn Some []) (failing_run (replicate 4 (demo_benv Failed 5)) [''a'', ''b'', ''c'', ''d'']) demo_bcast))
   = [''a'', ''b'', ''c'', ''d'', ''e'']"
  using five_failures_replay_in_order [of demo_bcast "replicate 4 (demo_benv Failed 5)" "[''a'', ''b'', ''c'', ''d'']"
      "demo_benv Timed_out (40 * 10 ^ 9)" Some "[]" "''e''"]
  by (simp add: demo_bcast_def demo_ctl_def demo_benv_def demo_rc_def elapsed_def COOLDOWN_def MAX_RETRY_QUEUE_def
      list_all_iff Let_def del: w_turn.simps turns.simps replicate.simps)

text \<open>The retry queue is replayed by the failure path alone. While every broadcast succeeds, and
  however often the subscription is replaced on request, failed payloads stay where they are: the
  queue is the same after any such run.\<close>

theorem retry_queue_waits_for_more_failures:
  assumes "b_consecutive_failures s = 0"
    and "list_all (\<lambda>ev. case ev of Received e mp \<Rightarrow> be_result e = Sent | _ \<Rightarrow> True) evs"
  shows "b_retry_queue (turns (w_turn pid boot) evs s) = b_retry_queue s"
  using assms
proof (induction evs arbitrary: s)
  case (Cons ev evs)
  let ?s = "w_turn pid boot ev s"
  have "b_retry_queue ?s = b_retry_queue s \<and> b_consecutive_failures ?s = 0"
  proof (cases ev)
    case (Received e mp)
    with Cons.prems show ?thesis
      by (auto simp: on_payload_def try_broadcast_def RECONNECT_AFTER_FAILURES_def Let_def split: option.split)
  next
    case (Notified e)
    with Cons.prems on_notify_keeps [of e s] show ?thesis by auto
  qed (use Cons.prems in simp_all)
  with Cons show ?case by simp
qed simp

theorem retry_queue_waits_for_more_failures_witness:
  "b_retry_queue (turns (w_turn Some [])
     [W_isolation, Notified (demo_rc (40 * 10 ^ 9)), Received (demo_benv Sent (41 * 10 ^ 9)) (Some ''x'')]
     (demo_bcast\<lparr>b_retry_queue := [''p'']\<rparr>)) = [''p'']"
  using retry_queue_waits_for_more_failures [of "demo_bcast\<lparr>b_retry_queue := [''p'']\<rparr>"
      "[W_isolation, Notified (demo_rc (40 * 10 ^ 9)), Received (demo_benv Sent (41 * 10 ^ 9)) (Some ''x'')]" Some "[]"]
  by (simp add: demo_bcast_def demo_benv_def del: w_turn.simps turns.simps)

text \<open>Rate limit of the writer: over any interleaving of its tasks without a raised recycle flag,
  the failure path and the request path together make at most one new subscription per cooldown.\<close>

theorem writer_reconnects_are_rate_limited:
  assumes "calm (w_turn pid boot) w_event_ok (\<lambda>s. c_force_reset (b_ctl s)) evs s"
  shows "c_sender (b_ctl s) \<le> c_sender (b_ctl (turns (w_turn pid boot) evs s))
    \<and> c_last_reconnect (b_ctl s)
        + COOLDOWN * (c_sender (b_ctl (turns (w_turn pid boot) evs s)) - c_sender (b_ctl s))
      \<le> c_last_reconnect (b_ctl (turns (w_turn pid boot) evs s))"
  by (rule writer.rate [OF assms])

theorem writer_reconnects_are_rate_limited_witness:
  "calm (w_turn Some []) w_event_ok (\<lambda>s. c_force_reset (b_ctl s)) [W_isolation, Notified (demo_rc (40 * 10 ^ 9))] demo_bcast
   \<and> COOLDOWN * c_sender (b_ctl (turns (w_turn Some []) [W_isolation, Notified (demo_rc (40 * 10 ^ 9))] demo_bcast))
     \<le> c_last_reconnect (b_ctl (turns (w_turn Some []) [W_isolation, Notified (demo_rc (40 * 10 ^ 9))] demo_bcast))"
proof -
  let ?evs = "[W_isolation, Notified (demo_rc (40 * 10 ^ 9))]"
  have "calm (w_turn Some []) w_event_ok (\<lambda>s. c_force_reset (b_ctl s)) ?evs demo_bcast"
    by (simp add: demo_bcast_def demo_ctl_def demo_rc_def w_isolation_turn_def raise_request_def rc_ok_def Let_def)
  moreover have "c_sender (b_ctl demo_bcast) = 0" "c_last_reconnect (b_ctl demo_bcast) = 0"
    by (simp_all add: demo_bcast_def demo_ctl_def)
  ultimately show ?thesis
    using writer_reconnects_are_rate_limited [of Some "[]" ?evs demo_bcast] by (simp del: w_turn.simps turns.simps calm.simps)
qed

end
