(* ===== verification/Writer_Program.thy ===== *)
theory Writer_Program
  imports Writer_Broadcast Writer_Receive Process_Metrics Startup
begin

text \<open>
  The writer as a whole (\<^verbatim>\<open>main\<close> of \<^verbatim>\<open>gossip-writer/src/main.rs\<close>): the ZMQ thread, the bounded channel,
  the broadcast task, the receive task, the announcing and endorsing tasks, the resilience tasks and
  the shutdown share one state. A step is one turn of one task; a turn of the ZMQ thread, its flush
  included, is one step. An announcement is built in one step and waits for room in the channel until
  another, as \<^verbatim>\<open>send().await\<close> does. A run is any interleaving.
\<close>

section \<open>State\<close>

text \<open>The channel is \<open>w_tx\<close> of the ZMQ thread's state; the shared counters are kept in the states of
  the receive and of the broadcast task, which agree on them.\<close>

record 'id writer =
  wr_batch :: writer_state
  wr_zmq :: task_status
  wr_last_flush :: nat
  wr_recv :: "'id recv"
  wr_gen :: u64
  wr_bcast :: bcast
  wr_announcing :: "string option"
  wr_endorsing :: "string option"
  wr_exited :: bool

record ('id, 'f) wri_cfg =
  wp_recv :: "'id recv_cfg"
  wp_capnp :: w_capnp_lib
  wp_key :: string
  wp_settings :: w_settings
  wp_version :: string
  wp_os :: string
  wp_build :: string
  wp_cpu :: "'f cpu_ops"

abbreviation wctl :: "'id writer \<Rightarrow> ctl" where
  "wctl s \<equiv> r_ctl (wr_recv s)"

definition with_wctl :: "ctl \<Rightarrow> 'id writer \<Rightarrow> 'id writer" where
  "with_wctl c s = s\<lparr>wr_recv := (wr_recv s)\<lparr>r_ctl := c\<rparr>, wr_bcast := (wr_bcast s)\<lparr>b_ctl := c\<rparr>\<rparr>"

definition with_recv :: "'id recv \<Rightarrow> 'id writer \<Rightarrow> 'id writer" where
  "with_recv r s = s\<lparr>wr_recv := r, wr_bcast := (wr_bcast s)\<lparr>b_ctl := r_ctl r\<rparr>\<rparr>"

text \<open>After a turn of the broadcast task: a new subscription gets a receive task of its own.\<close>

definition with_bcast :: "bcast \<Rightarrow> 'id writer \<Rightarrow> 'id writer" where
  "with_bcast b s =
     (let c = b_ctl b; r = (wr_recv s)\<lparr>r_ctl := c\<rparr>
      in if c_sender c = c_sender (wctl s) then s\<lparr>wr_bcast := b, wr_recv := r\<rparr>
         else s\<lparr>wr_bcast := b, wr_gen := c_generation c, wr_recv := r\<lparr>r_status := Running\<rparr>\<rparr>)"

definition w_add_join :: "'id list option \<Rightarrow> 'id writer \<Rightarrow> 'id writer" where
  "w_add_join j s = (case j of None \<Rightarrow> s | Some ps \<Rightarrow> s\<lparr>wr_recv := (wr_recv s)\<lparr>r_joins := r_joins (wr_recv s) @ [ps]\<rparr>\<rparr>)"

section \<open>Start\<close>

definition BATCH_INTERVAL :: nat where
  "BATCH_INTERVAL = 3 * 10 ^ 9"

text \<open>Sequence numbers start at one. The process exits when the ZMQ socket cannot be bound.\<close>

definition writer_boot :: "(string \<Rightarrow> 'id option) \<Rightarrow> env_vars \<Rightarrow> files \<Rightarrow> start_env \<Rightarrow> bool \<Rightarrow> string + 'id writer" where
  "writer_boot parse_id V fs S bind_ok =
     (case writer_start parse_id V fs S of
        Inl e \<Rightarrow> Err e
      | Inr (r, db) \<Rightarrow>
          if \<not> bind_ok then Err ''Cannot bind ZMQ socket''
          else Ok \<lparr>wr_batch = \<lparr>w_pending = [], w_seq = 1, w_tx = [], w_archive = db, w_replies = [], w_clk = 0\<rparr>,
                   wr_zmq = Running, wr_last_flush = st_inst S, wr_recv = r, wr_gen = 1,
                   wr_bcast = \<lparr>b_ctl = r_ctl r, b_consecutive_failures = 0, b_retry_queue = [], b_alive = True, b_delivered = []\<rparr>,
                   wr_announcing = None, wr_endorsing = None, wr_exited = False\<rparr>)"

section \<open>The tasks\<close>

text \<open>An announcement: the clock read for the age of the last message and the one for its time stamp, the
  uptime, the neighbours in their order of iteration, and the files of the process.\<close>

record w_announce_env =
  wa_now :: u64
  wa_stamp :: u64
  wa_up :: u64
  wa_ids :: "string set \<Rightarrow> string list"
  wa_files :: proc_files

abbreviation wlib :: "('id, 'f) wri_cfg \<Rightarrow> gossip_lib" where
  "wlib C \<equiv> rf_lib (wp_recv C)"

definition batch_cfg :: "('id, 'f) wri_cfg \<Rightarrow> w_config" where
  "batch_cfg C = \<lparr>wc_key = wp_key C, wc_pubkey_hex = pubkey_hex (wlib C) (wp_key C)\<rparr>"

definition my_node_id :: "('id, 'f) wri_cfg \<Rightarrow> string" where
  "my_node_id C = rf_show_id (wp_recv C) (rf_me (wp_recv C))"

definition w_announcement :: "('id, 'f) wri_cfg \<Rightarrow> w_announce_env \<Rightarrow> ctl \<Rightarrow> string" where
  "w_announcement C A c =
     to_vec (wlib C) (announce_json (announce_new (wa_stamp A) (gather_metrics (wp_cpu C) (wa_files A)) (wp_os C) (wp_build C)
       (my_node_id C) (wp_version C) (ws_friendly_name (wp_settings C))
       (w_announce_metrics (wa_now A) (wa_up A) (wa_ids A (c_neighbor_ids c)) c)))"

definition w_endorsement_msg :: "('id, 'f) wri_cfg \<Rightarrow> u64 \<Rightarrow> string list \<Rightarrow> string option outcome" where
  "w_endorsement_msg C now keys =
     endorse_turn (wlib C) (wp_key C) now (my_node_id C) (wp_version C) (ws_friendly_name (wp_settings C)) keys"

text \<open>The state in which a flush starts, and what a flush that panics leaves behind: the notifications are
  out, the replies stop before the ping that has no enum.\<close>

definition at_flush :: "w_capnp_lib \<Rightarrow> bool \<Rightarrow> string option \<Rightarrow> writer_state \<Rightarrow> writer_state" where
  "at_flush W shutdown msg b = (if shutdown then b else zmq_received W msg b)"

definition zmq_wreck :: "gossip_lib \<Rightarrow> w_capnp_lib \<Rightarrow> w_config \<Rightarrow> w_env \<Rightarrow> writer_state \<Rightarrow> writer_state" where
  "zmq_wreck L W cfg E b =
     (let b1 = fst (send_groups L cfg E (we_order E (group_pending (w_pending b))) b);
          answered = takeWhile (\<lambda>p. w_medium_ok W (pp_medium_raw p) \<and> w_reason_ok W (pp_reason_raw p)) (w_pending b1)
      in case send_replies W E (we_clock E (w_clk b1)) (we_nanos E) 0 answered (w_replies b1) of
           Ret out \<Rightarrow> b1\<lparr>w_replies := out\<rparr>
         | Panic \<Rightarrow> b1)"

definition zmq_due :: "nat \<Rightarrow> 'id writer \<Rightarrow> bool" where
  "zmq_due t s \<longleftrightarrow> BATCH_INTERVAL \<le> t - wr_last_flush s"

text \<open>One turn of the ZMQ thread at time \<open>t\<close>; \<open>t2\<close> is the time after a flush.\<close>

definition zmq_step :: "('id, 'f) wri_cfg \<Rightarrow> w_env \<Rightarrow> string option \<Rightarrow> nat \<Rightarrow> nat \<Rightarrow> 'id writer \<Rightarrow> 'id writer" where
  "zmq_step C env msg t t2 s =
     (let E = env\<lparr>we_rx_alive := b_alive (wr_bcast s)\<rparr>; down = c_shutdown (wctl s);
          b0 = at_flush (wp_capnp C) down msg (wr_batch s)
      in case zmq_turn (wlib C) (wp_capnp C) (batch_cfg C) E down msg (zmq_due t s) (wr_batch s) of
           Ret (b, goes_on) \<Rightarrow>
             s\<lparr>wr_batch := b, wr_zmq := (if goes_on then Running else Ended),
               wr_last_flush := (if \<not> down \<and> zmq_due t s \<and> w_pending b0 \<noteq> [] then t2 else wr_last_flush s)\<rparr>
         | Panic \<Rightarrow> s\<lparr>wr_batch := zmq_wreck (wlib C) (wp_capnp C) (batch_cfg C) E b0, wr_zmq := Panicked\<rparr>)"

text \<open>One payload through the broadcast task; when the task ends, the rest of the channel is dropped.\<close>

definition take_step :: "b_env \<Rightarrow> string \<Rightarrow> string list \<Rightarrow> 'id writer \<Rightarrow> 'id writer" where
  "take_step e p rest s =
     (let b = on_payload e (Some p) (wr_bcast s)
      in with_bcast b (s\<lparr>wr_batch := (wr_batch s)\<lparr>w_tx := if b_alive b then rest else []\<rparr>\<rparr>))"

text \<open>A message of a periodic task enters the channel when there is room; without a receiver it is lost.\<close>

definition queue_own :: "string \<Rightarrow> 'id writer \<Rightarrow> 'id writer" where
  "queue_own p s = s\<lparr>wr_batch := (wr_batch s)\<lparr>w_tx := fst (try_send (b_alive (wr_bcast s)) (w_tx (wr_batch s)) p)\<rparr>\<rparr>"

definition room_or_closed :: "'id writer \<Rightarrow> bool" where
  "room_or_closed s \<longleftrightarrow> \<not> b_alive (wr_bcast s) \<or> length (w_tx (wr_batch s)) < CHANNEL_CAPACITY"

section \<open>Steps\<close>

datatype 'id wri_event =
    Zmq w_env "string option" nat nat
  | Notify rc_env
  | Take b_env
  | Gossip recv_env "'id gossip_input"
  | Stall_check u64
  | Join_again
  | Isolation_turn
  | Health_turn nat u64 u64
  | Announce_build w_announce_env
  | Announce_send
  | Endorse_build u64 "string list"
  | Endorse_send
  | Interrupt
  | Exit bool

inductive wri_step :: "('id, 'f) wri_cfg \<Rightarrow> 'id wri_event \<Rightarrow> 'id writer \<Rightarrow> 'id writer \<Rightarrow> bool"
  for C :: "('id, 'f) wri_cfg" where
  Zmq: "wr_zmq s = Running \<Longrightarrow> wri_step C (Zmq E msg t t2) s (zmq_step C E msg t t2 s)"
| Notify: "b_alive (wr_bcast s) \<Longrightarrow> c_notify (wctl s) \<Longrightarrow> wri_step C (Notify e) s (with_bcast (on_notify e (wr_bcast s)) s)"
| Take: "b_alive (wr_bcast s) \<Longrightarrow> w_tx (wr_batch s) = p # rest \<Longrightarrow> wri_step C (Take e) s (take_step e p rest s)"
| Gossip: "wri_step C (Gossip E i) s
    (with_recv (w_receive_turn ((wp_recv C)\<lparr>rf_generation := wr_gen s\<rparr>) (E, i) (wr_recv s)) s)"
| Stall_check: "w_watchdog_turn (rf_parse_id (wp_recv C)) (ws_bootstrap (wp_settings C)) (r_peers_file (wr_recv s)) now (wctl s) = (c, j)
    \<Longrightarrow> wri_step C (Stall_check now) s (w_add_join j (with_wctl c s))"
| Join_again: "wri_step C Join_again s
    (w_add_join (w_rejoin_turn (rf_parse_id (wp_recv C)) (ws_bootstrap (wp_settings C)) (r_peers_file (wr_recv s))) s)"
| Isolation_turn: "wri_step C Isolation_turn s (with_wctl (w_isolation_turn (wctl s)) s)"
| Health_turn: "\<not> c_shutdown (wctl s)
    \<Longrightarrow> wri_step C (Health_turn t now rss) s (with_wctl (fst (w_health_turn t now rss (b_alive (wr_bcast s)) (wctl s))) s)"
| Announce_build: "0 < ws_announce_interval (wp_settings C) \<Longrightarrow> wr_announcing s = None
    \<Longrightarrow> wri_step C (Announce_build A) s (s\<lparr>wr_announcing := Some (w_announcement C A (wctl s))\<rparr>)"
| Announce_send: "wr_announcing s = Some p \<Longrightarrow> room_or_closed s
    \<Longrightarrow> wri_step C Announce_send s ((queue_own p s)\<lparr>wr_announcing := None\<rparr>)"
| Endorse_build: "0 < ws_endorse_interval (wp_settings C) \<Longrightarrow> wr_endorsing s = None \<Longrightarrow> \<not> r_trusted_poisoned (wr_recv s)
    \<Longrightarrow> set keys = r_trusted (wr_recv s) \<Longrightarrow> w_endorsement_msg C now keys = Ret m
    \<Longrightarrow> wri_step C (Endorse_build now keys) s (s\<lparr>wr_endorsing := m\<rparr>)"
| Endorse_send: "wr_endorsing s = Some p \<Longrightarrow> room_or_closed s
    \<Longrightarrow> wri_step C Endorse_send s ((queue_own p s)\<lparr>wr_endorsing := None\<rparr>)"
| Interrupt: "wri_step C Interrupt s (with_wctl ((wctl s)\<lparr>c_shutdown := True\<rparr>) s)"
| Exit: "c_shutdown (wctl s) \<Longrightarrow> clean \<longrightarrow> wr_zmq s \<noteq> Running \<Longrightarrow> wri_step C (Exit clean) s (s\<lparr>wr_exited := True\<rparr>)"

text \<open>A run of the process, in which every state after a step is one that \<open>Q\<close> allows.\<close>

inductive wri_run :: "('id, 'f) wri_cfg \<Rightarrow> ('id writer \<Rightarrow> bool) \<Rightarrow> 'id writer \<Rightarrow> 'id wri_event list \<Rightarrow> 'id writer \<Rightarrow> bool"
  for C :: "('id, 'f) wri_cfg" and Q :: "'id writer \<Rightarrow> bool" where
  start: "wri_run C Q s [] s"
| step: "wri_run C Q s es t \<Longrightarrow> \<not> wr_exited t \<Longrightarrow> wri_step C e t u \<Longrightarrow> Q u \<Longrightarrow> wri_run C Q s (es @ [e]) u"

inductive_simps wri_run_Nil [simp]: "wri_run C Q s [] t"
inductive_simps wri_run_snoc: "wri_run C Q s (es @ [e]) t"
inductive_simps wri_step_Zmq: "wri_step C (Zmq E msg t1 t2) s t"
inductive_simps wri_step_Notify: "wri_step C (Notify e) s t"
inductive_simps wri_step_Take: "wri_step C (Take e) s t"
inductive_simps wri_step_Stall: "wri_step C (Stall_check now) s t"
inductive_simps wri_step_Interrupt: "wri_step C Interrupt s t"

section \<open>The batch of one turn\<close>

abbreviation tag :: "pending_ping \<Rightarrow> string \<times> string \<times> string" where
  "tag p \<equiv> (pp_iri p, pp_medium_str p, pp_reason_str p)"

definition ping_ok :: "w_capnp_lib \<Rightarrow> pending_ping \<Rightarrow> bool" where
  "ping_ok W p \<longleftrightarrow> w_medium_ok W (pp_medium_raw p) \<and> w_reason_ok W (pp_reason_raw p)"

text \<open>The Cap'n Proto reader gives only enum values of the schema.\<close>

definition enums_ok :: "w_capnp_lib \<Rightarrow> bool" where
  "enums_ok W \<longleftrightarrow> (\<forall>inner iri r m. w_read_podping W inner = Some (iri, r, m) \<longrightarrow> w_reason_ok W r \<and> w_medium_ok W m)"

text \<open>The walk of a map visits every entry once.\<close>

definition walks_all :: "w_env \<Rightarrow> bool" where
  "walks_all E \<longleftrightarrow> (\<forall>gs. mset (we_order E gs) = mset gs)"

definition received_pings :: "w_capnp_lib \<Rightarrow> string option \<Rightarrow> pending_ping list" where
  "received_pings W msg = (case msg of None \<Rightarrow> [] | Some m \<Rightarrow> (case parse_zmq_message W m of Inr (Some p) \<Rightarrow> [p] | _ \<Rightarrow> []))"

lemma zmq_received_eq: "zmq_received W msg b = b\<lparr>w_pending := w_pending b @ received_pings W msg\<rparr>"
  by (simp add: zmq_received_def received_pings_def split: option.split sum.split)

lemma received_pings_ok: "enums_ok W \<Longrightarrow> p \<in> set (received_pings W msg) \<Longrightarrow> ping_ok W p"
proof -
  assume W: "enums_ok W" and "p \<in> set (received_pings W msg)"
  then obtain m where "parse_zmq_message W m = Ok (Some p)"
    by (auto simp: received_pings_def split: option.splits sum.splits)
  then show "ping_ok W p"
    using W unfolding enums_ok_def ping_ok_def parse_zmq_message_def by (auto split: option.splits if_splits prod.splits)
qed

lemma send_replies_returns:
  "\<forall>p \<in> set ps. ping_ok W p \<Longrightarrow> \<exists>out'. send_replies W E secs ns i ps out = Ret out'"
  by (induction ps arbitrary: i out) (auto simp: ping_ok_def)

text \<open>A flush as the ledger sees it.\<close>

definition entered :: "gossip_lib \<Rightarrow> w_config \<Rightarrow> bool \<Rightarrow> writer_state \<Rightarrow> pending_ping list \<Rightarrow> gossip_notification list \<Rightarrow> writer_state \<Rightarrow> bool" where
  "entered L cfg alive b ps ns b' \<longleftrightarrow>
     mset (tagged ns) + mset (map tag (w_pending b')) = mset (map tag ps)
   \<and> map n_seq ns = seq_from (w_seq b) (length ns) \<and> w_seq b' = w_seq b + of_nat (length ns)
   \<and> (\<forall>n \<in> set ns. n_sender n = wc_pubkey_hex cfg)
   \<and> w_tx b' = w_tx b @ (if alive then take (room (w_tx b)) (map (notif_payload L) ns) else [])"

lemma flush_enters:
  assumes "walks_all E" and "\<forall>p \<in> set (w_pending b). ping_ok W p"
  obtains b' ns where "flush_batch L W cfg E b = Ret (b', ns)" "w_pending b' = []"
    "entered L cfg (we_rx_alive E) b (w_pending b) ns b'"
proof -
  obtain s1 ns ok where g: "send_groups L cfg E (we_order E (group_pending (w_pending b))) b = (s1, ns, ok)"
    by (metis prod_cases3)
  then have "w_pending s1 = w_pending b" using send_groups_spec [OF g] by simp
  with send_replies_returns [of "w_pending s1" W] assms(2) g obtain b' where f: "flush_batch L W cfg E b = Ret (b', ns)"
    by (cases ok) (auto simp: flush_batch_def, metis bind_outcome.simps(1))
  have o: "mset (we_order E (group_pending (w_pending b))) = mset (group_pending (w_pending b))"
    using assms(1) by (simp add: walks_all_def)
  have "n_sender n = wc_pubkey_hex cfg" if "n \<in> set ns" for n
    using send_groups_spec [OF g] that
    by (auto simp: list_all_iff built_def notification_new_def notification_sign_def Let_def)
  moreover obtain x where "send_groups L cfg E (we_order E (group_pending (w_pending b))) b = x" "w_pending b' = []"
    "w_seq b' = w_seq (fst x)" "w_tx b' = w_tx (fst x)" using f by (rule flush_batch_spec) auto
  ultimately show thesis
    using that [OF f] send_groups_spec [OF g] mset_group_tagged [OF o] mset_group_pending [of "w_pending b"] g
    by (auto simp: entered_def)
qed

text \<open>A flush of one ping makes one notification.\<close>

lemma split_iris_single: "fst (split_iris_to_fit L k pk clock i m r [iri]) = [[iri]]"
  by (simp add: split_iris_to_fit_def Let_def)

lemma flush_single:
  assumes "walks_all E" and "w_pending b = [q]" and "flush_batch L W cfg E b = Ret (b', ns)"
  shows "length ns = 1"
proof -
  let ?g = "((pp_medium_str q, pp_reason_str q), [pp_iri q])"
  have "mset (we_order E [?g]) = mset [?g]" using assms(1) unfolding walks_all_def by blast
  then have o: "we_order E (group_pending (w_pending b)) = [?g]" by (simp add: assms(2) group_pending_def)
  obtain i where sp: "split_iris_to_fit L (wc_key cfg) (wc_pubkey_hex cfg) (we_clock E) (w_clk b) (pp_medium_str q) (pp_reason_str q) [pp_iri q]
      = ([[pp_iri q]], i)"
    using split_iris_single by (metis prod.collapse)
  obtain s1 ok where "send_groups L cfg E (we_order E (group_pending (w_pending b))) b = (s1, ns, ok)"
    using assms(3) by (rule flush_batch_spec)
  then show ?thesis unfolding o by (auto simp: sp split: prod.splits)
qed

lemma entered_none: "w_pending b' = ps \<Longrightarrow> w_seq b' = w_seq b \<Longrightarrow> w_tx b' = w_tx b \<Longrightarrow> entered L cfg alive b ps [] b'"
  by (simp add: entered_def tagged_def seq_from_def)

lemma zmq_enters:
  assumes "walks_all env" and "enums_ok (wp_capnp C)" and "\<forall>p \<in> set (w_pending (wr_batch s)). ping_ok (wp_capnp C) p"
    and "ps = w_pending (wr_batch s) @ (if c_shutdown (wctl s) then [] else received_pings (wp_capnp C) msg)"
  obtains b ns st t' where "zmq_step C env msg t t2 s = s\<lparr>wr_batch := b, wr_zmq := st, wr_last_flush := t'\<rparr>" "st \<noteq> Panicked"
    "entered (wlib C) (batch_cfg C) (b_alive (wr_bcast s)) (wr_batch s) ps ns b" "set (w_pending b) \<subseteq> set ps"
proof -
  let ?E = "env\<lparr>we_rx_alive := b_alive (wr_bcast s)\<rparr>" and ?W = "wp_capnp C" and ?down = "c_shutdown (wctl s)"
  define b0 where "b0 = at_flush ?W ?down msg (wr_batch s)"
  have b0: "w_pending b0 = ps" "w_seq b0 = w_seq (wr_batch s)" "w_tx b0 = w_tx (wr_batch s)"
    by (simp_all add: b0_def at_flush_def zmq_received_eq assms(4))
  have ok: "\<forall>p \<in> set (w_pending b0). ping_ok ?W p"
    using assms(2-4) received_pings_ok by (auto simp: b0(1))
  have E: "walks_all ?E" using assms(1) by (simp add: walks_all_def)
  obtain b' ns where f: "flush_batch (wlib C) ?W (batch_cfg C) ?E b0 = Ret (b', ns)" "w_pending b' = []"
    "entered (wlib C) (batch_cfg C) (b_alive (wr_bcast s)) b0 ps ns b'"
    using flush_enters [OF E ok, of "wlib C" "batch_cfg C"] b0(1) by auto
  have f3: "entered (wlib C) (batch_cfg C) (b_alive (wr_bcast s)) (wr_batch s) ps ns b'"
    using f(3) b0 by (simp add: entered_def)
  have quiet: "entered (wlib C) (batch_cfg C) (b_alive (wr_bcast s)) (wr_batch s) ps [] b0"
    using b0 by (intro entered_none)
  let ?T = "zmq_turn (wlib C) ?W (batch_cfg C) ?E ?down msg (zmq_due t s) (wr_batch s)"
  have "?T = Ret (b', \<not> ?down) \<or> ?T = Ret (b0, \<not> ?down)"
    using f(1) by (cases ?down) (simp_all add: zmq_turn_def b0_def at_flush_def Let_def)
  then consider (flush) g where "?T = Ret (b', g)" | (quiet) g where "?T = Ret (b0, g)" by blast
  then show thesis
  proof cases
    case flush
    show thesis
      by (rule that [where b = b' and ns = ns]) (use flush f(2) f3 in \<open>auto simp: zmq_step_def Let_def split: if_splits\<close>)
  next
    case quiet': quiet
    show thesis
      by (rule that [where b = b0 and ns = "[]"]) (use quiet' quiet b0(1) in \<open>auto simp: zmq_step_def Let_def split: if_splits\<close>)
  qed
qed

section \<open>What the steps keep\<close>

lemma with_sel [simp]:
  "wctl (with_wctl c s) = c" "b_ctl (wr_bcast (with_wctl c s)) = c" "wr_batch (with_wctl c s) = wr_batch s"
  "wr_zmq (with_wctl c s) = wr_zmq s" "wr_announcing (with_wctl c s) = wr_announcing s" "wr_endorsing (with_wctl c s) = wr_endorsing s"
  "held (wr_bcast (with_wctl c s)) = held (wr_bcast s)" "b_alive (wr_bcast (with_wctl c s)) = b_alive (wr_bcast s)"
  "b_delivered (wr_bcast (with_wctl c s)) = b_delivered (wr_bcast s)"
  "wr_exited (with_wctl c s) = wr_exited s" "wr_gen (with_wctl c s) = wr_gen s"
  "wctl (with_recv r s) = r_ctl r" "b_ctl (wr_bcast (with_recv r s)) = r_ctl r" "wr_batch (with_recv r s) = wr_batch s"
  "wr_zmq (with_recv r s) = wr_zmq s" "wr_announcing (with_recv r s) = wr_announcing s" "wr_endorsing (with_recv r s) = wr_endorsing s"
  "held (wr_bcast (with_recv r s)) = held (wr_bcast s)" "b_alive (wr_bcast (with_recv r s)) = b_alive (wr_bcast s)"
  "b_delivered (wr_bcast (with_recv r s)) = b_delivered (wr_bcast s)"
  "wr_exited (with_recv r s) = wr_exited s" "wr_gen (with_recv r s) = wr_gen s"
  by (simp_all add: with_wctl_def with_recv_def held_def)

lemma with_bcast_sel [simp]:
  "wctl (with_bcast b s) = b_ctl b" "wr_bcast (with_bcast b s) = b" "wr_batch (with_bcast b s) = wr_batch s"
  "wr_zmq (with_bcast b s) = wr_zmq s" "wr_announcing (with_bcast b s) = wr_announcing s"
  "wr_endorsing (with_bcast b s) = wr_endorsing s" "wr_exited (with_bcast b s) = wr_exited s"
  by (simp_all add: with_bcast_def Let_def)

lemma w_add_join_sel [simp]:
  "wctl (w_add_join j s) = wctl s" "wr_bcast (w_add_join j s) = wr_bcast s" "wr_batch (w_add_join j s) = wr_batch s"
  "wr_zmq (w_add_join j s) = wr_zmq s" "wr_announcing (w_add_join j s) = wr_announcing s"
  "wr_endorsing (w_add_join j s) = wr_endorsing s" "wr_exited (w_add_join j s) = wr_exited s" "wr_gen (w_add_join j s) = wr_gen s"
  "r_status (wr_recv (w_add_join j s)) = r_status (wr_recv s)" "r_trusted (wr_recv (w_add_join j s)) = r_trusted (wr_recv s)"
  "r_peers_file (wr_recv (w_add_join j s)) = r_peers_file (wr_recv s)"
  by (simp_all add: w_add_join_def split: option.split)

lemma queue_own_sel [simp]:
  "wr_recv (queue_own p s) = wr_recv s" "wr_bcast (queue_own p s) = wr_bcast s" "wr_zmq (queue_own p s) = wr_zmq s"
  "wr_announcing (queue_own p s) = wr_announcing s" "wr_endorsing (queue_own p s) = wr_endorsing s"
  "w_pending (wr_batch (queue_own p s)) = w_pending (wr_batch s)" "w_seq (wr_batch (queue_own p s)) = w_seq (wr_batch s)"
  "w_tx (wr_batch (queue_own p s)) = fst (try_send (b_alive (wr_bcast s)) (w_tx (wr_batch s)) p)"
  by (simp_all add: queue_own_def)

text \<open>The shutdown flag is raised by the interrupt only.\<close>

lemma dispatch_ctl [simp]:
  "r_ctl (w_suggest K E g r) = r_ctl r" "r_ctl (w_announce K E a r) = r_ctl r" "r_ctl (w_endorse K E a r) = r_ctl r"
  "r_ctl (w_notification n r) = r_ctl r" "r_ctl (w_dispatch K E content r) = r_ctl r"
proof -
  show *: "r_ctl (w_suggest K E g r) = r_ctl r" "r_ctl (w_announce K E a r) = r_ctl r" "r_ctl (w_endorse K E a r) = r_ctl r"
    "r_ctl (w_notification n r) = r_ctl r" for g a n
    by (simp_all add: w_suggest_def w_announce_def w_endorse_def w_notification_def Let_def
        split: option.split sum.split outcome.split prod.split)
  show "r_ctl (w_dispatch K E content r) = r_ctl r" by (simp add: w_dispatch_def * Let_def split: option.split)
qed

lemma shutdown_kept [simp]:
  "c_shutdown (r_ctl (w_receive_turn K ei r)) = c_shutdown (r_ctl r)"
  "c_shutdown (b_ctl (on_notify e b)) = c_shutdown (b_ctl b)"
  "c_shutdown (b_ctl (on_payload f mp b)) = c_shutdown (b_ctl b)"
  "c_shutdown (w_isolation_turn c) = c_shutdown c"
  "c_shutdown (fst (w_health_turn t now rss alive c)) = c_shutdown c"
  "c_shutdown (fst (w_watchdog_turn pid boot file now c)) = c_shutdown c"
proof -
  show "c_shutdown (r_ctl (w_receive_turn K ei r)) = c_shutdown (r_ctl r)"
    by (cases ei; cases "snd ei") (simp_all add: w_receive_turn_def w_message_def w_neighbor_up_def w_neighbor_down_def
        w_task_end_def raise_request_def Let_def)
  show "c_shutdown (b_ctl (on_notify e b)) = c_shutdown (b_ctl b)"
    by (simp add: on_notify_def reconnect_gossip_topic_def fresh_endpoint_def Let_def)
  show "c_shutdown (b_ctl (on_payload f mp b)) = c_shutdown (b_ctl b)"
    by (simp add: on_payload_def failure_reconnect_def reconnect_gossip_topic_def fresh_endpoint_def try_broadcast_failures Let_def
        split: option.split prod.split)
  show "c_shutdown (w_isolation_turn c) = c_shutdown c" "c_shutdown (fst (w_health_turn t now rss alive c)) = c_shutdown c"
    "c_shutdown (fst (w_watchdog_turn pid boot file now c)) = c_shutdown c"
    by (simp_all add: w_isolation_turn_def w_health_turn_def w_watchdog_turn_def recycle_def stall_step_def raise_request_def Let_def)
qed

lemma on_payload_alive [simp]: "b_alive (on_payload e (Some p) b) \<longleftrightarrow> b_alive b \<and> \<not> c_shutdown (b_ctl b)"
  by (simp add: on_payload_def failure_reconnect_alive try_broadcast_failures Let_def)

lemma on_notify_subscribes:
  assumes "c_requested (b_ctl b)" and "COOLDOWN \<le> elapsed e (b_ctl b)" and "rc_subscribe_ok e"
  shows "c_sender (b_ctl (on_notify e b)) = Suc (c_sender (b_ctl b))" "c_generation (b_ctl (on_notify e b)) = c_generation (b_ctl b) + 1"
    "held (on_notify e b) = held b"
  using assms by (simp_all add: on_notify_def reconnect_gossip_topic_def fresh_endpoint_def held_def Let_def)

text \<open>Everything that is on its way or delivered.\<close>

definition waiting :: "string option \<Rightarrow> string multiset" where
  "waiting m = (case m of None \<Rightarrow> {#} | Some p \<Rightarrow> {#p#})"

definition flow :: "'id writer \<Rightarrow> string multiset" where
  "flow s = held (wr_bcast s) + mset (w_tx (wr_batch s)) + waiting (wr_announcing s) + waiting (wr_endorsing s)"

text \<open>Nothing is cut off: the broadcast task runs and both queues have room.\<close>

definition unclogged :: "'id writer \<Rightarrow> bool" where
  "unclogged s \<longleftrightarrow> b_alive (wr_bcast s) \<and> \<not> c_shutdown (wctl s) \<and> length (w_tx (wr_batch s)) < CHANNEL_CAPACITY
     \<and> length (b_retry_queue (wr_bcast s)) < MAX_RETRY_QUEUE"

definition own_messages :: "('id, 'f) wri_cfg \<Rightarrow> string set" where
  "own_messages C = {to_vec (wlib C) (announce_json a) | a.
     a_node_id a = my_node_id C \<and> a_msg_type a \<in> {''peer_announce'', ''peer_endorse''}}"

fun builds :: "'id wri_event \<Rightarrow> nat" where
  "builds (Announce_build A) = 1"
| "builds (Endorse_build now keys) = 1"
| "builds _ = 0"

definition in_step :: "'id writer \<Rightarrow> bool" where
  "in_step s \<longleftrightarrow> b_ctl (wr_bcast s) = wctl s"

lemma own_announcement: "w_announcement C A c \<in> own_messages C"
  by (auto simp: w_announcement_def own_messages_def announce_new_def split: prod.split)

lemma own_endorsement: "w_endorsement_msg C now keys = Ret (Some p) \<Longrightarrow> p \<in> own_messages C"
  by (auto simp: w_endorsement_msg_def endorse_turn_def own_messages_def sign_endorse_def announce_new_endorse_def bind_outcome_Ret_iff
      split: if_splits)

lemma step_flow:
  assumes "wri_step C e s t" and "in_step s" and "\<And>E msg t1 t2. e \<noteq> Zmq E msg t1 t2"
  shows "\<exists>own. set_mset own \<subseteq> own_messages C \<and> size own \<le> builds e \<and> flow t \<subseteq># flow s + own
    \<and> (unclogged s \<longrightarrow> unclogged t \<longrightarrow> flow t = flow s + own)"
proof -
  have quiet: ?thesis if "flow t = flow s" using that by (intro exI [of _ "{#}"]) simp
  from assms(1) show ?thesis
  proof cases
    case (Notify e)
    then show ?thesis by (intro quiet) (simp add: flow_def held_def on_notify_keeps)
  next
    case (Take p rest e)
    have c: "b_ctl (wr_bcast s) = wctl s" using assms(2) by (simp add: in_step_def)
    show ?thesis
    proof (cases "c_shutdown (wctl s)")
      case True
      then show ?thesis using Take c
        by (intro exI [of _ "{#}"]) (auto simp: take_step_def flow_def held_def on_payload_def unclogged_def Let_def)
    next
      case False
      then have d: "\<not> c_shutdown (b_ctl (wr_bcast s))" by (simp add: c)
      have "flow t = held (on_payload e (Some p) (wr_bcast s)) + mset rest + waiting (wr_announcing s) + waiting (wr_endorsing s)"
        using Take d by (simp add: take_step_def flow_def Let_def)
      moreover have "flow s = add_mset p (held (wr_bcast s)) + mset rest + waiting (wr_announcing s) + waiting (wr_endorsing s)"
        using Take by (simp add: flow_def)
      ultimately show ?thesis
        using on_payload_held(1,2) [OF d, of e p] by (intro exI [of _ "{#}"]) (simp add: unclogged_def)
    qed
  next
    case (Announce_build A)
    then show ?thesis
      using own_announcement [of C A "wctl s"]
      by (intro exI [of _ "{#w_announcement C A (wctl s)#}"]) (simp add: flow_def waiting_def)
  next
    case (Announce_send p)
    then show ?thesis
      by (intro exI [of _ "{#}"]) (auto simp: flow_def waiting_def try_send_def room_or_closed_def unclogged_def)
  next
    case (Endorse_build keys now m)
    then show ?thesis
      using own_endorsement [of C now keys]
      by (intro exI [of _ "waiting m"]) (auto simp: flow_def waiting_def split: option.split)
  next
    case (Endorse_send p)
    then show ?thesis
      by (intro exI [of _ "{#}"]) (auto simp: flow_def waiting_def try_send_def room_or_closed_def unclogged_def)
  qed (use assms(3) in \<open>auto intro!: quiet simp: flow_def\<close>)
qed

lemma step_keeps:
  assumes "wri_step C e s t" and "in_step s" and "\<And>E msg t1 t2. e \<noteq> Zmq E msg t1 t2"
  shows "in_step t \<and> w_pending (wr_batch t) = w_pending (wr_batch s) \<and> w_seq (wr_batch t) = w_seq (wr_batch s)
    \<and> wr_zmq t = wr_zmq s \<and> (c_shutdown (wctl t) \<longleftrightarrow> c_shutdown (wctl s) \<or> e = Interrupt)"
  using assms(1)
proof cases
  case (Stall_check now c j)
  then have "c = fst (w_watchdog_turn (rf_parse_id (wp_recv C)) (ws_bootstrap (wp_settings C)) (r_peers_file (wr_recv s)) now (wctl s))"
    by simp
  then show ?thesis using Stall_check(1,2) by (simp add: in_step_def)
qed (use assms(2,3) in \<open>auto simp: in_step_def take_step_def Let_def\<close>)

section \<open>The ledger\<close>

definition walks :: "'id wri_event list \<Rightarrow> bool" where
  "walks es \<longleftrightarrow> (\<forall>E msg t1 t2. Zmq E msg t1 t2 \<in> set es \<longrightarrow> walks_all E)"

lemma walks_append [simp]: "walks (es @ fs) \<longleftrightarrow> walks es \<and> walks fs"
  unfolding walks_def set_append by blast

text \<open>The pings that a run takes from the front-end: after the interrupt the socket is not read.\<close>

fun pings_of :: "('id, 'f) wri_cfg \<Rightarrow> 'id wri_event \<Rightarrow> pending_ping list" where
  "pings_of C (Zmq E msg t t2) = received_pings (wp_capnp C) msg"
| "pings_of C _ = []"

definition zmq_pings :: "('id, 'f) wri_cfg \<Rightarrow> 'id wri_event list \<Rightarrow> pending_ping list" where
  "zmq_pings C es = concat (map (pings_of C) (takeWhile (\<lambda>e. e \<noteq> Interrupt) es))"

definition own_built :: "'id wri_event list \<Rightarrow> nat" where
  "own_built es = sum_list (map builds es)"

lemma zmq_pings_snoc:
  "zmq_pings C (es @ [e]) = zmq_pings C es @ (if Interrupt \<in> set es then [] else pings_of C e)"
  by (induction es) (cases e, auto simp: zmq_pings_def)

text \<open>The books of the ZMQ thread, with the notifications built so far.\<close>

definition books :: "('id, 'f) wri_cfg \<Rightarrow> 'id wri_event list \<Rightarrow> gossip_notification list \<Rightarrow> 'id writer \<Rightarrow> bool" where
  "books C es ns s \<longleftrightarrow>
     in_step s \<and> wr_zmq s \<noteq> Panicked \<and> (c_shutdown (wctl s) \<longleftrightarrow> Interrupt \<in> set es)
   \<and> (\<forall>p \<in> set (w_pending (wr_batch s)). ping_ok (wp_capnp C) p)
   \<and> map n_seq ns = seq_from 1 (length ns) \<and> w_seq (wr_batch s) = 1 + of_nat (length ns)
   \<and> (\<forall>n \<in> set ns. n_sender n = pubkey_hex (wlib C) (wp_key C))
   \<and> mset (tagged ns) + mset (map tag (w_pending (wr_batch s))) = mset (map tag (zmq_pings C es))"

text \<open>What is in flow is among what was built, and all of it as long as \<open>full\<close>.\<close>

definition accounted :: "('id, 'f) wri_cfg \<Rightarrow> bool \<Rightarrow> nat \<Rightarrow> gossip_notification list \<Rightarrow> string multiset \<Rightarrow> 'id writer \<Rightarrow> bool" where
  "accounted C full k ns own s \<longleftrightarrow>
     set_mset own \<subseteq> own_messages C \<and> size own \<le> k
   \<and> flow s \<subseteq># mset (map (notif_payload (wlib C)) ns) + own
   \<and> (full \<longrightarrow> flow s = mset (map (notif_payload (wlib C)) ns) + own)"

lemma zmq_books:
  assumes "wri_step C (Zmq E msg t1 t2) s t" and "walks_all E" and "enums_ok (wp_capnp C)" and "books C es ns s"
  obtains ns' where "books C (es @ [Zmq E msg t1 t2]) (ns @ ns') t"
    "flow t \<subseteq># flow s + mset (map (notif_payload (wlib C)) ns')"
    "unclogged s \<Longrightarrow> unclogged t \<Longrightarrow> flow t = flow s + mset (map (notif_payload (wlib C)) ns')"
proof -
  let ?ps = "w_pending (wr_batch s) @ (if c_shutdown (wctl s) then [] else received_pings (wp_capnp C) msg)"
  note B = assms(4) [unfolded books_def]
  have pend: "\<forall>p \<in> set (w_pending (wr_batch s)). ping_ok (wp_capnp C) p" using B by blast
  obtain b ns' st t' where "zmq_step C E msg t1 t2 s = s\<lparr>wr_batch := b, wr_zmq := st, wr_last_flush := t'\<rparr>" "st \<noteq> Panicked"
    and e: "entered (wlib C) (batch_cfg C) (b_alive (wr_bcast s)) (wr_batch s) ?ps ns' b" "set (w_pending b) \<subseteq> set ?ps"
    by (rule zmq_enters [OF assms(2,3) pend refl])
  then have t: "t = s\<lparr>wr_batch := b, wr_zmq := st, wr_last_flush := t'\<rparr>" "st \<noteq> Panicked"
    using assms(1) by (simp_all add: wri_step_Zmq)
  note e = e(1) [unfolded entered_def] e(2)
  have "mset (tagged (ns @ ns')) + mset (map tag (w_pending b))
      = mset (tagged ns) + (mset (tagged ns') + mset (map tag (w_pending b)))" by simp
  also have "\<dots> = mset (tagged ns) + mset (map tag (w_pending (wr_batch s)))
      + mset (map tag (if c_shutdown (wctl s) then [] else received_pings (wp_capnp C) msg))"
    using e(1) by simp
  also have "\<dots> = mset (map tag (zmq_pings C (es @ [Zmq E msg t1 t2])))"
    using B by (simp add: zmq_pings_snoc)
  finally have tags: "mset (tagged (ns @ ns')) + mset (map tag (w_pending b)) = mset (map tag (zmq_pings C (es @ [Zmq E msg t1 t2])))" .
  have seqs: "map n_seq (ns @ ns') = seq_from 1 (length (ns @ ns'))"
    using B e(1) seq_from_append [of 1 "length ns" "length ns'"] by simp
  have oks: "\<forall>p \<in> set (w_pending b). ping_ok (wp_capnp C) p"
    using B e(2) received_pings_ok [OF assms(3), of _ msg] by (auto split: if_splits)
  have "books C (es @ [Zmq E msg t1 t2]) (ns @ ns') t"
    unfolding books_def using B t e(1) tags seqs oks by (auto simp: in_step_def batch_cfg_def)
  moreover have f: "flow t = flow s + mset (if b_alive (wr_bcast s) then take (room (w_tx (wr_batch s))) (map (notif_payload (wlib C)) ns') else [])"
    using t(1) e(1) by (simp add: flow_def)
  have "mset (take n xs) \<subseteq># mset xs" for n and xs :: "string list"
    by (metis append_take_drop_id mset_append mset_subset_eq_add_left)
  from this [of _ "map (notif_payload (wlib C)) ns'"]
  have "flow t \<subseteq># flow s + mset (map (notif_payload (wlib C)) ns')" unfolding f by simp
  moreover have "flow t = flow s + mset (map (notif_payload (wlib C)) ns')" if c: "unclogged s" "unclogged t"
  proof -
    have "length ns' \<le> room (w_tx (wr_batch s))"
      using c t(1) e(1) by (auto simp: unclogged_def room_def split: if_splits)
    with c(1) show ?thesis unfolding f by (simp add: unclogged_def)
  qed
  ultimately show thesis by (rule that)
qed

lemma step_ledger:
  assumes "wri_step C e s t" and "walks [e]" and "enums_ok (wp_capnp C)"
    and "books C es ns s" and "accounted C full k ns own s" and "full \<Longrightarrow> unclogged s \<and> unclogged t"
  shows "\<exists>ns own. books C (es @ [e]) ns t \<and> accounted C full (k + builds e) ns own t"
proof (cases "\<exists>E msg t1 t2. e = Zmq E msg t1 t2")
  case True
  then obtain E msg t1 t2 where e: "e = Zmq E msg t1 t2" by blast
  obtain ns' where z: "books C (es @ [e]) (ns @ ns') t" "flow t \<subseteq># flow s + mset (map (notif_payload (wlib C)) ns')"
    "unclogged s \<Longrightarrow> unclogged t \<Longrightarrow> flow t = flow s + mset (map (notif_payload (wlib C)) ns')"
    using zmq_books [OF assms(1) [unfolded e] _ assms(3,4)] assms(2) unfolding e walks_def by auto
  have "flow t \<subseteq># mset (map (notif_payload (wlib C)) ns) + own + mset (map (notif_payload (wlib C)) ns')"
    using z(2) assms(5) unfolding accounted_def by (meson subset_mset.add_right_mono subset_mset.order_trans)
  then have "accounted C full (k + builds e) (ns @ ns') own t"
    using assms(5,6) z(3) by (auto simp: accounted_def ac_simps)
  with z(1) show ?thesis by blast
next
  case False
  have in_step: "in_step s" using assms(4) by (simp add: books_def)
  obtain o' where o: "set_mset o' \<subseteq> own_messages C" "size o' \<le> builds e" "flow t \<subseteq># flow s + o'"
    "unclogged s \<longrightarrow> unclogged t \<longrightarrow> flow t = flow s + o'"
    using step_flow [OF assms(1) in_step] False by blast
  have "flow t \<subseteq># mset (map (notif_payload (wlib C)) ns) + own + o'"
    using o(3) assms(5) unfolding accounted_def by (meson subset_mset.add_right_mono subset_mset.order_trans)
  then have "accounted C full (k + builds e) ns (own + o') t"
    using assms(5,6) o by (auto simp: accounted_def ac_simps)
  moreover have "pings_of C e = []" using False by (cases e) auto
  then have "books C (es @ [e]) ns t"
    using step_keeps [OF assms(1) in_step] False assms(4) by (auto simp: books_def zmq_pings_snoc)
  ultimately show ?thesis by blast
qed

lemma run_ledger:
  assumes "wri_run C Q s es t" and "walks es" and "enums_ok (wp_capnp C)"
    and "books C [] [] s" and "flow s = {#}" and "unclogged s"
  shows "\<exists>ns own. books C es ns t \<and> accounted C (\<forall>x. Q x \<longrightarrow> unclogged x) (own_built es) ns own t"
proof -
  have "((\<forall>x. Q x \<longrightarrow> unclogged x) \<longrightarrow> unclogged t) \<and> (\<exists>ns own. books C es ns t \<and> accounted C (\<forall>x. Q x \<longrightarrow> unclogged x) (own_built es) ns own t)"
    using assms(1,2,4-6)
  proof (induction rule: wri_run.induct)
    case (start s)
    then show ?case by (auto simp: accounted_def own_built_def intro!: exI [of _ "[]"] exI [of _ "{#}"])
  next
    case (step s es t e u)
    then obtain ns own where i: "books C es ns t" "accounted C (\<forall>x. Q x \<longrightarrow> unclogged x) (own_built es) ns own t"
      "(\<forall>x. Q x \<longrightarrow> unclogged x) \<longrightarrow> unclogged t"
      by auto
    have "\<exists>ns own. books C (es @ [e]) ns u \<and> accounted C (\<forall>x. Q x \<longrightarrow> unclogged x) (own_built es + builds e) ns own u"
      by (rule step_ledger [OF step.hyps(3) _ assms(3) i(1,2)]) (use step.prems step.hyps(4) i(3) in auto)
    then show ?case using step.hyps(4) by (simp add: own_built_def)
  qed
  then show ?thesis by simp
qed

lemma booted_writer:
  assumes "writer_boot parse_id V fs S b = Ok s"
  shows "books C [] [] s" "flow s = {#}" "unclogged s" "\<not> wr_exited s" "in_step s"
  using assms by (auto simp: writer_boot_def writer_start_def books_def in_step_def tagged_def seq_from_def zmq_pings_def flow_def
      held_def waiting_def unclogged_def ctl_start_def CHANNEL_CAPACITY_def MAX_RETRY_QUEUE_def Let_def split: sum.splits if_splits)

section \<open>Runs\<close>

lemma wri_run_single: "wri_run C Q s [e] t \<longleftrightarrow> \<not> wr_exited s \<and> wri_step C e s t \<and> Q t"
  using wri_run_snoc [of C Q s "[]" e t] by simp

lemma wri_run_append: "wri_run C Q s es t \<Longrightarrow> wri_run C Q t fs u \<Longrightarrow> wri_run C Q s (es @ fs) u"
proof (induction fs arbitrary: u rule: rev_induct)
  case (snoc f fs)
  then obtain v where "wri_run C Q t fs v" "\<not> wr_exited v" "wri_step C f v u" "Q u" by (auto simp: wri_run_snoc)
  with snoc show ?case by (metis append_assoc wri_run.step)
qed simp

lemma wri_run_Cons:
  "wri_run C Q s (e # es) u \<longleftrightarrow> (\<exists>t. \<not> wr_exited s \<and> wri_step C e s t \<and> Q t \<and> wri_run C Q t es u)"
proof
  show "wri_run C Q s (e # es) u \<Longrightarrow> \<exists>t. \<not> wr_exited s \<and> wri_step C e s t \<and> Q t \<and> wri_run C Q t es u"
  proof (induction es arbitrary: u rule: rev_induct)
    case (snoc f es)
    then obtain v where v: "wri_run C Q s (e # es) v" "\<not> wr_exited v" "wri_step C f v u" "Q u"
      by (metis append_Cons wri_run_snoc)
    with snoc.IH [OF v(1)] show ?case by (metis wri_run.step)
  qed (simp add: wri_run_single)
  show "\<exists>t. \<not> wr_exited s \<and> wri_step C e s t \<and> Q t \<and> wri_run C Q t es u \<Longrightarrow> wri_run C Q s (e # es) u"
    using wri_run_append [of C Q s "[e]"] by (auto simp: wri_run_single)
qed

lemma zmq_step_sel [simp]:
  "wr_recv (zmq_step C E msg t t2 s) = wr_recv s" "wr_bcast (zmq_step C E msg t t2 s) = wr_bcast s"
  "wr_gen (zmq_step C E msg t t2 s) = wr_gen s" "wr_exited (zmq_step C E msg t t2 s) = wr_exited s"
  by (simp_all add: zmq_step_def Let_def split: outcome.split prod.split)

lemma run_in_step: "wri_run C Q s es t \<Longrightarrow> in_step s \<Longrightarrow> in_step t"
proof (induction rule: wri_run.induct)
  case (step s es t e u)
  show ?case
  proof (cases "\<exists>E msg t1 t2. e = Zmq E msg t1 t2")
    case True
    with step show ?thesis by (auto simp: wri_step_Zmq in_step_def)
  next
    case False
    with step step_keeps [OF step.hyps(3)] show ?thesis by blast
  qed
qed

text \<open>After the interrupt the broadcast task sends nothing.\<close>

lemma silent_step:
  assumes "wri_step C e s t" and "in_step s" and "c_shutdown (wctl s)"
  shows "b_delivered (wr_bcast t) = b_delivered (wr_bcast s) \<and> c_shutdown (wctl t) \<and> in_step t"
proof (cases "\<exists>E msg t1 t2. e = Zmq E msg t1 t2")
  case True
  with assms show ?thesis by (auto simp: wri_step_Zmq in_step_def)
next
  case False
  have "b_delivered (wr_bcast t) = b_delivered (wr_bcast s)"
    using assms(1)
  proof cases
    case (Take p rest e)
    then show ?thesis using assms(2,3) by (simp add: take_step_def on_payload_def in_step_def Let_def)
  qed (use False in \<open>auto simp: on_notify_keeps\<close>)
  then show ?thesis using step_keeps [OF assms(1,2)] False assms(3) by blast
qed

lemma silent_run:
  "wri_run C Q s es t \<Longrightarrow> in_step s \<Longrightarrow> c_shutdown (wctl s) \<Longrightarrow> b_delivered (wr_bcast t) = b_delivered (wr_bcast s)"
proof -
  assume "wri_run C Q s es t" "in_step s" "c_shutdown (wctl s)"
  then have "b_delivered (wr_bcast t) = b_delivered (wr_bcast s) \<and> c_shutdown (wctl t) \<and> in_step t"
  proof (induction rule: wri_run.induct)
    case (step s es t e u)
    with silent_step [OF step.hyps(3)] show ?case by simp
  qed simp
  then show ?thesis ..
qed

text \<open>Successful broadcasts empty the channel in its order.\<close>

lemma drain:
  assumes "length envs = length (w_tx (wr_batch s))" and "\<forall>e \<in> set envs. be_result e = Sent"
    and "b_alive (wr_bcast s)" and "\<not> c_shutdown (wctl s)" and "in_step s" and "\<not> wr_exited s"
  shows "\<exists>u. wri_run C (\<lambda>_. True) s (map Take envs) u
    \<and> b_delivered (wr_bcast u) = b_delivered (wr_bcast s) @ w_tx (wr_batch s) \<and> w_tx (wr_batch u) = []"
  using assms
proof (induction envs arbitrary: s)
  case (Cons e envs)
  then obtain p rest where tx: "w_tx (wr_batch s) = p # rest" by (metis length_Suc_conv)
  let ?t = "take_step e p rest s"
  have c: "b_ctl (wr_bcast s) = wctl s" using Cons.prems(5) by (simp add: in_step_def)
  have t: "w_tx (wr_batch ?t) = rest" "b_delivered (wr_bcast ?t) = b_delivered (wr_bcast s) @ [p]" "b_alive (wr_bcast ?t)"
    "\<not> c_shutdown (wctl ?t)" "in_step ?t" "\<not> wr_exited ?t"
    using Cons.prems c
    by (simp_all add: take_step_def in_step_def Let_def)
      (simp add: on_payload_def try_broadcast_def RECONNECT_AFTER_FAILURES_def)
  obtain u where u: "wri_run C (\<lambda>_. True) ?t (map Take envs) u"
    "b_delivered (wr_bcast u) = b_delivered (wr_bcast ?t) @ rest" "w_tx (wr_batch u) = []"
    using Cons.IH [of ?t] Cons.prems(1,2) t tx by auto
  have "wri_step C (Take e) s ?t" using tx Cons.prems(3) by (simp add: wri_step_Take)
  with u t(2) tx Cons.prems(6) show ?case by (auto simp: wri_run_Cons)
qed auto

section \<open>A small writer\<close>

definition demo_reads :: w_capnp_lib where
  "demo_reads = demo_wcapnp\<lparr>w_read_plexo := (\<lambda>m. Some (PODPING_WRITE_TYPE, Some m)), w_read_podping := (\<lambda>i. Some (i, 0, 1))\<rparr>"

definition demo_wri :: "(string, int) wri_cfg" where
  "demo_wri = \<lparr>wp_recv = demo_rcfg, wp_capnp = demo_reads, wp_key = ''k'', wp_settings = writer_settings Map.empty,
     wp_version = ''1'', wp_os = ''linux'', wp_build = ''release'', wp_cpu = demo_cpu_ops\<rparr>"

definition demo_batch :: writer_state where
  "demo_batch = \<lparr>w_pending = [], w_seq = 1, w_tx = [], w_archive = None, w_replies = [], w_clk = 0\<rparr>"

definition demo_ping1 :: pending_ping where
  "demo_ping1 = \<lparr>pp_iri = ''http://a'', pp_medium_str = notif_medium_to_string 1, pp_reason_str = notif_reason_to_string 0,
     pp_medium_raw = 1, pp_reason_raw = 0\<rparr>"

lemma demo_enums: "enums_ok demo_reads"
  by (simp add: enums_ok_def demo_reads_def demo_wcapnp_def)

lemma demo_walks: "walks_all demo_wenv"
  by (simp add: walks_all_def demo_wenv_def)

lemma demo_wri_sel [simp]:
  "wp_capnp demo_wri = demo_reads" "wp_recv demo_wri = demo_rcfg" "wp_key demo_wri = ''k''"
  "wp_settings demo_wri = writer_settings Map.empty"
  by (simp_all add: demo_wri_def)

lemma demo_received: "received_pings demo_reads (Some ''http://a'') = [demo_ping1]"
  by (simp add: received_pings_def parse_zmq_message_def demo_reads_def demo_ping1_def)

lemma demo_boot:
  obtains s :: "string writer" where "writer_boot Some Map.empty Map.empty demo_start_env True = Ok s" "wctl s = ctl_start 1000 0"
    "wr_batch s = demo_batch" "wr_zmq s = Running" "wr_last_flush s = 0" "r_status (wr_recv s) = Running" "wr_gen s = 1"
    "b_alive (wr_bcast s)" "b_retry_queue (wr_bcast s) = []" "b_delivered (wr_bcast s) = []" "\<not> wr_exited s"
proof -
  have off: "\<not> ws_archive_enabled (writer_settings Map.empty)"
    by (simp add: writer_settings_def env_flag_def)
  obtain a where "network_start (st_bound demo_start_env) (st_topic demo_start_env) = Ok a" using demo_network ..
  then obtain s :: "string writer" where s: "writer_boot Some Map.empty Map.empty demo_start_env True = Ok s"
    by (simp add: writer_boot_def writer_start_def off demo_start_env_def Let_def)
  then show thesis
    by (intro that [OF s]) (auto simp: writer_boot_def writer_start_def off demo_start_env_def demo_batch_def Let_def split: sum.splits)
qed

lemma demo_flush1:
  "\<exists>b n. flush_batch (wlib demo_wri) demo_reads (batch_cfg demo_wri) (demo_wenv\<lparr>we_rx_alive := True\<rparr>)
      (demo_batch\<lparr>w_pending := [demo_ping1]\<rparr>) = Ret (b, [n]) \<and> w_tx b = [notif_payload (wlib demo_wri) n] \<and> w_pending b = []"
  by (simp add: flush_batch_def demo_batch_def demo_ping1_def group_pending_def demo_wenv_def split_iris_to_fit_def
      payload_len_def demo_rcfg_def demo_rlib_def demo_reads_def demo_wcapnp_def batch_cfg_def MAX_GOSSIP_PAYLOAD_def send_chunk_def
      notification_sign_def notification_new_def try_send_def notif_payload_def CHANNEL_CAPACITY_def Let_def)

text \<open>The ping is read, and flushed in the same turn when the time has come.\<close>

lemma demo_zmq:
  assumes "wr_batch s = demo_batch" "b_alive (wr_bcast s)" "\<not> c_shutdown (wctl s)" "wr_last_flush s = 0"
  shows "length (w_tx (wr_batch (zmq_step demo_wri demo_wenv (Some ''http://a'') (4 * 10 ^ 9) t2 s))) = 1"
    and "wr_batch (zmq_step demo_wri demo_wenv (Some ''http://a'') 0 t2 s) = demo_batch\<lparr>w_pending := [demo_ping1]\<rparr>"
    and "wr_zmq (zmq_step demo_wri demo_wenv (Some ''http://a'') 0 t2 s) = Running"
proof -
  have r: "zmq_received demo_reads (Some ''http://a'') demo_batch = demo_batch\<lparr>w_pending := [demo_ping1]\<rparr>"
    by (simp add: zmq_received_eq demo_received) (simp add: demo_batch_def)
  have due: "zmq_due (4 * 10 ^ 9) s" "\<not> zmq_due 0 s" using assms(4) by (simp_all add: zmq_due_def BATCH_INTERVAL_def)
  obtain b n where f: "flush_batch (wlib demo_wri) demo_reads (batch_cfg demo_wri) (demo_wenv\<lparr>we_rx_alive := True\<rparr>)
      (demo_batch\<lparr>w_pending := [demo_ping1]\<rparr>) = Ret (b, [n])" "w_tx b = [notif_payload (wlib demo_wri) n]"
    using demo_flush1 by blast
  show "length (w_tx (wr_batch (zmq_step demo_wri demo_wenv (Some ''http://a'') (4 * 10 ^ 9) t2 s))) = 1"
    using f due assms by (simp add: zmq_step_def zmq_turn_def r Let_def)
  show "wr_batch (zmq_step demo_wri demo_wenv (Some ''http://a'') 0 t2 s) = demo_batch\<lparr>w_pending := [demo_ping1]\<rparr>"
    "wr_zmq (zmq_step demo_wri demo_wenv (Some ''http://a'') 0 t2 s) = Running"
    using due assms by (simp_all add: zmq_step_def zmq_turn_def r Let_def)
qed

lemma due_pings_broadcast:
  assumes "writer_boot parse_id V fs S b = Ok s0" and "wri_run C Q s0 es s" and "walks (es @ [Zmq E msg t1 t2])"
    and "enums_ok (wp_capnp C)" and "unclogged s" and "wr_zmq s = Running" and "\<not> wr_exited s" and "zmq_due t1 s"
    and "t = zmq_step C E msg t1 t2 s" and "unclogged t"
    and "length envs = length (w_tx (wr_batch t))" and "\<forall>e \<in> set envs. be_result e = Sent"
    and "p \<in> set (w_pending (wr_batch s)) \<union> set (received_pings (wp_capnp C) msg)"
  shows "\<exists>u n. wri_run C (\<lambda>_. True) s (Zmq E msg t1 t2 # map Take envs) u \<and> w_tx (wr_batch u) = []
    \<and> pp_iri p \<in> set (n_iris n) \<and> n_medium n = pp_medium_str p \<and> n_reason n = pp_reason_str p
    \<and> n_sender n = pubkey_hex (wlib C) (wp_key C) \<and> notif_payload (wlib C) n \<in> set (b_delivered (wr_bcast u))"
proof -
  note boot = booted_writer [OF assms(1)]
  have wE: "walks es" "walks_all E" using assms(3) by (simp_all add: walks_def)
  obtain ns own where B: "books C es ns s"
    using run_ledger [OF assms(2) wE(1) assms(4) boot(1-3)] by blast
  let ?ps = "w_pending (wr_batch s) @ received_pings (wp_capnp C) msg"
  let ?E = "E\<lparr>we_rx_alive := b_alive (wr_bcast s)\<rparr>" and ?b = "zmq_received (wp_capnp C) msg (wr_batch s)"
  have up: "\<not> c_shutdown (wctl s)" "b_alive (wr_bcast s)" using assms(5) by (simp_all add: unclogged_def)
  have b: "w_pending ?b = ?ps" "w_tx ?b = w_tx (wr_batch s)" by (simp_all add: zmq_received_eq)
  have "\<forall>p \<in> set (w_pending ?b). ping_ok (wp_capnp C) p"
    using B received_pings_ok [OF assms(4)] unfolding b books_def by auto
  then obtain b' ns' where f: "flush_batch (wlib C) (wp_capnp C) (batch_cfg C) ?E ?b = Ret (b', ns')" "w_pending b' = []"
    "entered (wlib C) (batch_cfg C) True ?b ?ps ns' b'"
    using flush_enters [of ?E ?b "wp_capnp C" "wlib C" "batch_cfg C"] wE(2) up(2) by (auto simp: walks_all_def b)
  have "wr_batch t = b'"
    using f(1) up assms(8,13) by (auto simp: assms(9) zmq_step_def zmq_turn_def b Let_def)
  moreover have "length (w_tx b') < CHANNEL_CAPACITY" using assms(10) calculation by (simp add: unclogged_def)
  ultimately have tx: "w_tx (wr_batch t) = w_tx (wr_batch s) @ map (notif_payload (wlib C)) ns'"
    using f(3) assms(5) by (auto simp: entered_def b unclogged_def room_def)
  have t: "b_alive (wr_bcast t)" "\<not> c_shutdown (wctl t)" "in_step t" "\<not> wr_exited t"
    using up B assms(7) by (simp_all add: assms(9) books_def in_step_def)
  obtain u where u: "wri_run C (\<lambda>_. True) t (map Take envs) u"
    "b_delivered (wr_bcast u) = b_delivered (wr_bcast t) @ w_tx (wr_batch t)" "w_tx (wr_batch u) = []"
    using drain [OF assms(11,12) t] by blast
  have "tag p \<in> set (tagged ns')"
    using f(2,3) assms(13) unfolding entered_def by (metis (no_types, lifting) add.right_neutral image_eqI list.set_map list.simps(8) mset.simps(1) mset_eq_setD set_append)
  then obtain n where "n \<in> set ns'" "pp_iri p \<in> set (n_iris n)" "n_medium n = pp_medium_str p" "n_reason n = pp_reason_str p"
    by (auto simp: tagged_def)
  moreover have "n_sender n = pubkey_hex (wlib C) (wp_key C)" using f(3) calculation(1) by (simp add: entered_def batch_cfg_def)
  moreover have "wri_run C (\<lambda>_. True) s (Zmq E msg t1 t2 # map Take envs) u"
    using u(1) assms(6,7,9) by (auto simp: wri_run_Cons wri_step_Zmq)
  ultimately show ?thesis using u(2,3) tx by (intro exI [of _ u] exI [of _ n]) auto
qed

section \<open>Properties\<close>

text \<open>C4. Every ping is accounted for: in any run of the writer from its start, however its tasks interleave,
  each ping read from the front-end is, with its medium and reason, either pending or carried by
  exactly one notification; the notifications bear the writer's key and the sequence numbers 1, 2,
  and so on; and what is delivered, queued for retry or in the channel are these notifications and
  the writer's own announcements and endorsements, none more often than it was built. If the
  broadcast task runs and both queues have room in every state of the run, none is missing.\<close>

theorem writer_accounts_for_every_ping:
  assumes "writer_boot parse_id V fs S b = Ok s" and "wri_run C Q s es t"
    and "walks es" and "enums_ok (wp_capnp C)"
  shows "\<exists>ns own. mset (tagged ns) + mset (map tag (w_pending (wr_batch t))) = mset (map tag (zmq_pings C es))
    \<and> map n_seq ns = seq_from 1 (length ns) \<and> (\<forall>n \<in> set ns. n_sender n = pubkey_hex (wlib C) (wp_key C))
    \<and> set_mset own \<subseteq> own_messages C \<and> size own \<le> own_built es
    \<and> flow t \<subseteq># mset (map (notif_payload (wlib C)) ns) + own
    \<and> ((\<forall>x. Q x \<longrightarrow> unclogged x) \<longrightarrow> flow t = mset (map (notif_payload (wlib C)) ns) + own)"
proof -
  note boot = booted_writer [OF assms(1)]
  obtain ns own where "books C es ns t" "accounted C (\<forall>x. Q x \<longrightarrow> unclogged x) (own_built es) ns own t"
    using run_ledger [OF assms(2,3,4) boot(1-3)] by blast
  then show ?thesis unfolding books_def accounted_def by blast
qed

theorem writer_accounts_for_every_ping_witness:
  "\<exists>(t :: string writer) ns own. wr_zmq t = Running \<and> own = {#}
    \<and> mset (tagged ns) + mset (map tag (w_pending (wr_batch t))) = {#tag demo_ping1#}
    \<and> flow t = mset (map (notif_payload (wlib demo_wri)) ns) + own"
proof -
  obtain s :: "string writer" where s: "writer_boot Some Map.empty Map.empty demo_start_env True = Ok s" "wctl s = ctl_start 1000 0"
    "wr_batch s = demo_batch" "wr_zmq s = Running" "wr_last_flush s = 0" "b_alive (wr_bcast s)" "b_retry_queue (wr_bcast s) = []"
    "\<not> wr_exited s" by (rule demo_boot)
  have up: "\<not> c_shutdown (wctl s)" by (simp add: s(2) ctl_start_def)
  let ?e = "Zmq demo_wenv (Some ''http://a'') 0 0 :: string wri_event"
  let ?t = "zmq_step demo_wri demo_wenv (Some ''http://a'') 0 0 s"
  note t = demo_zmq(2,3) [OF s(3,6) up s(5)]
  have "unclogged ?t"
    using t(1) s(6,7) up by (simp add: unclogged_def demo_batch_def CHANNEL_CAPACITY_def MAX_RETRY_QUEUE_def)
  then have run: "wri_run demo_wri unclogged s [?e] ?t"
    using s(4,8) by (simp add: wri_run_single wri_step_Zmq)
  have w: "walks [?e]" using demo_walks by (simp add: walks_def)
  have en: "enums_ok (wp_capnp demo_wri)" by (simp add: demo_enums)
  obtain ns own where
    "mset (tagged ns) + mset (map tag (w_pending (wr_batch ?t))) = mset (map tag (zmq_pings demo_wri [?e]))"
    "size own \<le> own_built [?e]" "flow ?t = mset (map (notif_payload (wlib demo_wri)) ns) + own"
    using writer_accounts_for_every_ping [OF s(1) run w en] by blast
  then show ?thesis using t(2) by (intro exI [of _ ?t] exI [of _ ns] exI [of _ own]) (simp add: zmq_pings_def demo_received own_built_def)
qed

text \<open>C39. An interrupted writer loses the pings it still holds: whatever the interleaving, the ZMQ thread's
  last flush acknowledges every pending ping, so that the front-end deletes it, but the broadcast
  task delivers nothing more.\<close>

theorem interrupted_writer_loses_pings:
  assumes "writer_boot parse_id V fs S b = Ok s0" and "wri_run C Q s0 es s"
    and "walks es" and "enums_ok (wp_capnp C)"
    and "Interrupt \<in> set es" and "wr_zmq s = Running" and "w_pending (wr_batch s) \<noteq> []" and "b_alive (wr_bcast s)"
    and "walks_all E" and "\<forall>i. we_reply_ok E i"
  shows "\<exists>t secs. wri_step C (Zmq E msg t1 t2) s t \<and> wr_zmq t = Ended
    \<and> w_replies (wr_batch t) = w_replies (wr_batch s)
        @ map (\<lambda>p. zmq_reply_bytes (wp_capnp C) (reply_for secs (we_nanos E) p)) (w_pending (wr_batch s))
    \<and> (\<forall>fs u. wri_run C Q t fs u \<longrightarrow> b_delivered (wr_bcast u) = b_delivered (wr_bcast s))"
proof -
  note boot = booted_writer [OF assms(1)]
  obtain ns own where B: "books C es ns s"
    using run_ledger [OF assms(2,3,4) boot(1-3)] by blast
  let ?E = "E\<lparr>we_rx_alive := b_alive (wr_bcast s)\<rparr>" and ?b = "wr_batch s" and ?W = "wp_capnp C"
  have down: "c_shutdown (wctl s)" "in_step s" using B assms(5) by (simp_all add: books_def)
  have pings: "\<forall>p \<in> set (w_pending ?b). w_medium_ok ?W (pp_medium_raw p) \<and> w_reason_ok ?W (pp_reason_raw p)"
    using B by (simp add: books_def ping_ok_def)
  have "mset (we_order E gs) = mset gs" for gs using assms(9) by (simp add: walks_all_def)
  then have order: "set (we_order E gs) = set gs" for gs by (rule mset_eq_setD)
  obtain b' ns' secs where f: "flush_batch (wlib C) ?W (batch_cfg C) ?E ?b = Ret (b', ns')"
    "w_replies b' = w_replies ?b @ map (\<lambda>p. zmq_reply_bytes ?W (reply_for secs (we_nanos ?E) p)) (w_pending ?b)"
    using flush_replies [of ?b ?E ?W "wlib C" "batch_cfg C"] assms(7,8,10) order pings by auto
  let ?t = "zmq_step C E msg t1 t2 s"
  have t: "wr_zmq ?t = Ended" "wr_batch ?t = b'" "in_step ?t" "c_shutdown (wctl ?t)" "wr_bcast ?t = wr_bcast s"
    using f(1) down assms(7) by (simp_all add: zmq_step_def zmq_turn_def in_step_def Let_def)
  then have "\<forall>fs u. wri_run C Q ?t fs u \<longrightarrow> b_delivered (wr_bcast u) = b_delivered (wr_bcast s)"
    using silent_run by metis
  with t f(2) assms(6) show ?thesis by (intro exI [of _ ?t] exI [of _ secs]) (simp add: wri_step_Zmq)
qed

theorem interrupted_writer_loses_pings_witness:
  "\<exists>(s :: string writer) t. w_pending (wr_batch s) = [demo_ping1] \<and> wri_step demo_wri (Zmq demo_wenv None 0 0) s t
    \<and> length (w_replies (wr_batch t)) = 1
    \<and> (\<forall>fs u. wri_run demo_wri (\<lambda>_. True) t fs u \<longrightarrow> b_delivered (wr_bcast u) = [])"
proof -
  obtain s0 :: "string writer" where s0: "writer_boot Some Map.empty Map.empty demo_start_env True = Ok s0" "wctl s0 = ctl_start 1000 0"
    "wr_batch s0 = demo_batch" "wr_zmq s0 = Running" "wr_last_flush s0 = 0" "b_alive (wr_bcast s0)" "b_delivered (wr_bcast s0) = []"
    "\<not> wr_exited s0" by (rule demo_boot)
  have up: "\<not> c_shutdown (wctl s0)" by (simp add: s0(2) ctl_start_def)
  let ?e = "Zmq demo_wenv (Some ''http://a'') 0 0 :: string wri_event"
  let ?r = "zmq_step demo_wri demo_wenv (Some ''http://a'') 0 0 s0"
  let ?s = "with_wctl ((wctl ?r)\<lparr>c_shutdown := True\<rparr>) ?r"
  note r = demo_zmq(2,3) [OF s0(3,6) up s0(5)]
  have run: "wri_run demo_wri (\<lambda>_. True) s0 [?e, Interrupt] ?s"
    using s0(4,8) by (auto simp: wri_run_Cons wri_step_Zmq wri_step_Interrupt)
  have "walks [?e, Interrupt]" using demo_walks by (auto simp: walks_def)
  from interrupted_writer_loses_pings [OF s0(1) run this, of demo_wenv None 0 0] obtain t secs where
    t: "wri_step demo_wri (Zmq demo_wenv None 0 0) ?s t"
    "w_replies (wr_batch t) = w_replies (wr_batch ?s)
      @ map (\<lambda>p. zmq_reply_bytes demo_reads (reply_for secs (we_nanos demo_wenv) p)) (w_pending (wr_batch ?s))"
    "\<forall>fs u. wri_run demo_wri (\<lambda>_. True) t fs u \<longrightarrow> b_delivered (wr_bcast u) = b_delivered (wr_bcast ?s)"
    using demo_enums demo_walks r s0(6) by (auto simp: demo_wenv_def)
  have "length (w_replies (wr_batch t)) = 1" using t(2) r(1) by (simp add: demo_batch_def)
  with t(1,3) r(1) s0(7) show ?thesis by (intro exI [of _ ?s] exI [of _ t]) simp
qed

text \<open>C35. A ping that reached the writer is broadcast: if the ZMQ thread runs and three seconds have passed
  since its last flush, its next turn, followed by as many successful broadcasts as the channel then
  holds, delivers for every ping pending before, and for the one just read, a notification signed by
  the writer that carries it.\<close>

theorem pending_ping_is_broadcast:
  assumes "writer_boot parse_id V fs S b = Ok s0" and "wri_run C Q s0 es s" and "walks (es @ [Zmq E msg t1 t2])"
    and "enums_ok (wp_capnp C)" and "unclogged s" and "wr_zmq s = Running" and "\<not> wr_exited s" and "zmq_due t1 s"
    and "t = zmq_step C E msg t1 t2 s" and "unclogged t"
    and "length envs = length (w_tx (wr_batch t))" and "\<forall>e \<in> set envs. be_result e = Sent"
    and "p \<in> set (w_pending (wr_batch s)) \<union> set (received_pings (wp_capnp C) msg)"
  shows "\<exists>u n. wri_run C (\<lambda>_. True) s (Zmq E msg t1 t2 # map Take envs) u \<and> w_tx (wr_batch u) = []
    \<and> pp_iri p \<in> set (n_iris n) \<and> n_medium n = pp_medium_str p \<and> n_reason n = pp_reason_str p
    \<and> n_sender n = pubkey_hex (wlib C) (wp_key C) \<and> notif_payload (wlib C) n \<in> set (b_delivered (wr_bcast u))"
  using assms by (rule due_pings_broadcast)

theorem pending_ping_is_broadcast_witness:
  "\<exists>(s :: string writer) u n. wri_run demo_wri (\<lambda>_. True) s
      (Zmq demo_wenv (Some ''http://a'') (4 * 10 ^ 9) 0 # map Take [demo_benv Sent 0]) u
    \<and> ''http://a'' \<in> set (n_iris n) \<and> notif_payload (wlib demo_wri) n \<in> set (b_delivered (wr_bcast u))"
proof -
  obtain s :: "string writer" where s: "writer_boot Some Map.empty Map.empty demo_start_env True = Ok s" "wctl s = ctl_start 1000 0"
    "wr_batch s = demo_batch" "wr_zmq s = Running" "wr_last_flush s = 0" "b_alive (wr_bcast s)" "b_retry_queue (wr_bcast s) = []"
    "\<not> wr_exited s" by (rule demo_boot)
  have up: "\<not> c_shutdown (wctl s)" by (simp add: s(2) ctl_start_def)
  let ?t = "zmq_step demo_wri demo_wenv (Some ''http://a'') (4 * 10 ^ 9) 0 s"
  note t = demo_zmq(1) [OF s(3,6) up s(5), of 0]
  have calm: "unclogged s" "unclogged ?t"
    using t s(3,6,7) up by (simp_all add: unclogged_def demo_batch_def CHANNEL_CAPACITY_def MAX_RETRY_QUEUE_def)
  have w: "walks ([] @ [Zmq demo_wenv (Some ''http://a'') (4 * 10 ^ 9) 0])" using demo_walks by (simp add: walks_def)
  have due: "zmq_due (4 * 10 ^ 9) s" using s(5) by (simp add: zmq_due_def BATCH_INTERVAL_def)
  have len: "length [demo_benv Sent 0] = length (w_tx (wr_batch ?t))" using t by simp
  have sent: "\<forall>e \<in> set [demo_benv Sent 0]. be_result e = Sent" by (simp add: demo_benv_def)
  have en: "enums_ok (wp_capnp demo_wri)" by (simp add: demo_enums)
  have p: "demo_ping1 \<in> set (w_pending (wr_batch s)) \<union> set (received_pings (wp_capnp demo_wri) (Some ''http://a''))"
    by (simp add: demo_received)
  have iri: "pp_iri demo_ping1 = ''http://a''" by (simp add: demo_ping1_def)
  obtain u n where "wri_run demo_wri (\<lambda>_. True) s (Zmq demo_wenv (Some ''http://a'') (4 * 10 ^ 9) 0 # map Take [demo_benv Sent 0]) u"
    "pp_iri demo_ping1 \<in> set (n_iris n)" "notif_payload (wlib demo_wri) n \<in> set (b_delivered (wr_bcast u))"
    using pending_ping_is_broadcast [OF s(1) wri_run.start w en calm(1) s(4,8) due refl calm(2) len sent p]
    by (elim exE conjE) (rule that)
  then show ?thesis unfolding iri by (intro exI conjI)
qed

text \<open>C34. A dead receive task is replaced: whatever ended it, a panic included, when nothing arrives over two
  watchdog turns, the broadcast task, once woken out of the cooldown, subscribes again and starts a
  receive task of a new generation; trust, pending pings, channel and retry queue stay as they were.\<close>

theorem dead_writer_recovers:
  assumes "writer_boot parse_id V fs S b = Ok s0" and "wri_run C Q s0 es s" and "\<not> wr_exited s"
    and "\<not> c_shutdown (wctl s)" and "b_alive (wr_bcast s)" and "c_stall (wctl s) = 0"
    and "REBOOTSTRAP_TIMEOUT \<le> n1 - c_last_notif (wctl s)" and "REBOOTSTRAP_TIMEOUT \<le> n2 - c_last_notif (wctl s)"
    and "COOLDOWN \<le> elapsed e (wctl s)" and "rc_subscribe_ok e"
  shows "\<exists>t. wri_run C (\<lambda>_. True) s [Stall_check n1, Stall_check n2, Notify e] t \<and> r_status (wr_recv t) = Running
    \<and> wr_gen t = c_generation (wctl s) + 1 \<and> c_generation (wctl t) = wr_gen t \<and> c_sender (wctl t) = Suc (c_sender (wctl s))
    \<and> r_trusted (wr_recv t) = r_trusted (wr_recv s) \<and> wr_batch t = wr_batch s \<and> held (wr_bcast t) = held (wr_bcast s)"
proof -
  let ?pid = "rf_parse_id (wp_recv C)" and ?boot = "ws_bootstrap (wp_settings C)" and ?c = "wctl s"
  have in_step: "in_step s" by (rule run_in_step [OF assms(2)]) (rule booted_writer(5) [OF assms(1)])
  obtain j1 where w1: "w_watchdog_turn ?pid ?boot (r_peers_file (wr_recv s)) n1 ?c = (?c\<lparr>c_stall := 1\<rparr>, j1)"
    using assms(6,7) by (simp add: w_watchdog_turn_def stall_step_first)
  let ?s1 = "w_add_join j1 (with_wctl (?c\<lparr>c_stall := 1\<rparr>) s)"
  let ?c2 = "(raise_request ?c)\<lparr>c_stall := 0\<rparr>"
  obtain j2 where w2: "w_watchdog_turn ?pid ?boot (r_peers_file (wr_recv ?s1)) n2 (wctl ?s1) = (?c2, j2)"
    using assms(8) by (simp add: w_watchdog_turn_def stall_step_def raise_request_def Let_def)
  let ?s2 = "w_add_join j2 (with_wctl ?c2 ?s1)"
  let ?b = "on_notify e (wr_bcast ?s2)"
  have run: "wri_run C (\<lambda>_. True) s [Stall_check n1, Stall_check n2, Notify e] (with_bcast ?b ?s2)"
    unfolding wri_run_Cons wri_run_Nil
  proof (intro exI conjI)
    show "wri_step C (Stall_check n1) s ?s1" by (rule wri_step.Stall_check [OF w1])
    show "wri_step C (Stall_check n2) ?s1 ?s2" by (rule wri_step.Stall_check [OF w2])
    show "wri_step C (Notify e) ?s2 (with_bcast ?b ?s2)" by (rule wri_step.Notify) (simp_all add: assms(5) raise_request_def)
  qed (simp_all add: assms(3))
  have c2: "b_ctl (wr_bcast ?s2) = ?c2" by simp
  have "c_requested ?c2" "elapsed e ?c2 = elapsed e ?c" by (simp_all add: raise_request_def elapsed_def)
  then have b: "c_sender (b_ctl ?b) = Suc (c_sender ?c)" "c_generation (b_ctl ?b) = c_generation ?c + 1" "held ?b = held (wr_bcast s)"
    using on_notify_subscribes [of "wr_bcast ?s2" e] assms(9,10) unfolding c2 by (simp_all add: raise_request_def)
  have "c_sender (wctl ?s2) = c_sender ?c" by (simp add: raise_request_def)
  moreover have "wr_recv (with_bcast ?b ?s2) = (wr_recv ?s2)\<lparr>r_ctl := b_ctl ?b, r_status := Running\<rparr>" "wr_gen (with_bcast ?b ?s2) = c_generation (b_ctl ?b)"
    using b(1) calculation by (simp_all add: with_bcast_def Let_def)
  moreover have "r_trusted (wr_recv ?s2) = r_trusted (wr_recv s)" by (simp add: with_wctl_def)
  ultimately show ?thesis using run b by (intro exI [of _ "with_bcast ?b ?s2"]) simp
qed

theorem dead_writer_recovers_witness:
  "\<exists>(s :: string writer) t. r_status (wr_recv s) = Panicked
    \<and> wri_run demo_wri (\<lambda>_. True) s [Stall_check 1200, Stall_check 1400, Notify (demo_rc (40 * 10 ^ 9))] t
    \<and> r_status (wr_recv t) = Running"
proof -
  obtain s0 :: "string writer" where s0: "writer_boot Some Map.empty Map.empty demo_start_env True = Ok s0" "wctl s0 = ctl_start 1000 0"
    "r_status (wr_recv s0) = Running" "wr_gen s0 = 1" "b_alive (wr_bcast s0)" "\<not> wr_exited s0" by (rule demo_boot)
  let ?K = "demo_rcfg\<lparr>rf_generation := 1\<rparr>"
  let ?r = "w_receive_turn ?K (demo_renv, Msg ''N'' ''q'') (wr_recv s0)"
  let ?s = "with_recv ?r s0"
  have "wri_step demo_wri (Gossip demo_renv (Msg ''N'' ''q'')) s0 ?s"
    using wri_step.Gossip [of demo_wri demo_renv "Msg ''N'' ''q''" s0] s0(4) by simp
  then have run: "wri_run demo_wri (\<lambda>_. True) s0 [Gossip demo_renv (Msg ''N'' ''q'')] ?s"
    using s0(6) by (simp add: wri_run_single)
  have r: "r_status ?r = Panicked" "r_ctl ?r = (ctl_start 1000 0)\<lparr>c_last_notif := 1000, c_notifs := 1, c_sources := {''q''}\<rparr>"
    using s0(2,3) by (simp_all add: w_receive_turn_def w_message_def w_dispatch_def w_notification_def slice_to_def demo_rcfg_def
        demo_rlib_def demo_short_def demo_renv_def notification_new_def ctl_start_def Let_def)
  have "\<exists>t. wri_run demo_wri (\<lambda>_. True) ?s [Stall_check 1200, Stall_check 1400, Notify (demo_rc (40 * 10 ^ 9))] t
      \<and> r_status (wr_recv t) = Running"
    using dead_writer_recovers [OF s0(1) run, of 1200 1400 "demo_rc (40 * 10 ^ 9)"] s0(5,6) r(2)
    by (auto simp: ctl_start_def REBOOTSTRAP_TIMEOUT_def elapsed_def COOLDOWN_def demo_rc_def)
  moreover have "r_status (wr_recv ?s) = Panicked" using r(1) by (simp add: with_recv_def)
  ultimately show ?thesis by blast
qed

end
