(* ===== verification/Listener_Sse.thy ===== *)
theory Listener_Sse
  imports Listener_Messages
begin

text \<open>
  The SSE stream of the listener (\<^verbatim>\<open>gossip-listener/src/sse.rs\<close>): each subscriber gets the printed
  notifications of the broadcast channel that pass the filter of its query. The server, the channel
  and parsing JSON text are crates outside the repository; the parser is the parameter \<open>parse\<close>, and a
  subscriber's reads of the channel are a list in which a lag is a missing value.
\<close>

record event_filter =
  f_medium :: "string option"
  f_reason :: "string option"
  f_sender :: "string option"

text \<open>\<^verbatim>\<open>Value::get\<close> followed by \<^verbatim>\<open>as_str\<close>.\<close>

definition get_str :: "json \<Rightarrow> string \<Rightarrow> string option" where
  "get_str j key =
     (case j of
        JObj fs \<Rightarrow> (case map_of fs key of Some (JStr v) \<Rightarrow> Some v | _ \<Rightarrow> None)
      | _ \<Rightarrow> None)"

definition matches_filter :: "(string \<Rightarrow> json option) \<Rightarrow> string \<Rightarrow> event_filter \<Rightarrow> bool" where
  "matches_filter parse text f =
     (if f_medium f = None \<and> f_reason f = None \<and> f_sender f = None then True
      else (case parse text of
              None \<Rightarrow> True
            | Some j \<Rightarrow>
                if (case f_medium f of Some m \<Rightarrow> get_str j ''medium'' \<noteq> Some m | None \<Rightarrow> False) then False
                else if (case f_reason f of Some r \<Rightarrow> get_str j ''reason'' \<noteq> Some r | None \<Rightarrow> False) then False
                else (case f_sender f of
                        None \<Rightarrow> True
                      | Some pre \<Rightarrow> (case get_str j ''sender'' of Some sn \<Rightarrow> starts_with sn pre | None \<Rightarrow> False))))"

text \<open>The events a subscriber is sent, in order.\<close>

definition sse_handler :: "(string \<Rightarrow> json option) \<Rightarrow> event_filter \<Rightarrow> string option list \<Rightarrow> string list" where
  "sse_handler parse f results =
     List.map_filter (\<lambda>r. case r of
        Some text \<Rightarrow> if matches_filter parse text f then Some text else None
      | None \<Rightarrow> None) results"

text \<open>The server: its routes, none of which is served when the address cannot be bound.\<close>

datatype sse_page = Health_page | Event_stream

definition start_sse_server :: "bool \<Rightarrow> (string \<times> sse_page) list" where
  "start_sse_server bound = (if bound then [(''/'', Health_page), (''/events'', Event_stream)] else [])"

definition health_handler :: "string \<Rightarrow> string" where
  "health_handler vers = ''gossip-listener SSE v'' @ vers"

section \<open>Lemmas\<close>

lemma map_of_sort_key: "distinct (map fst xs) \<Longrightarrow> map_of (sort_key fst xs) = map_of xs"
proof -
  assume d: "distinct (map fst xs)"
  then have "distinct xs" by (simp add: distinct_map)
  with d have "distinct (map fst (sort_key fst xs))" by (simp add: distinct_map)
  with d show ?thesis by (simp add: map_of_inject_set)
qed

definition printed_fields :: "gossip_lib \<Rightarrow> gossip_notification \<Rightarrow> string \<Rightarrow> (string \<times> json) list" where
  "printed_fields L n d = l_notification_fields n
     @ [(''sig_status'', JStr (sig_status_str (sig_status_of (l_verify_signature L n)))), (''sender_name'', JStr d)]"

lemma printed_fields_distinct: "distinct (map fst (printed_fields L n d))"
  by (simp add: printed_fields_def l_notification_fields_def)

lemma printed_get:
  "get_str (JObj (sort_key fst (printed_fields L n d))) ''medium'' = Some (n_medium n)"
  "get_str (JObj (sort_key fst (printed_fields L n d))) ''reason'' = Some (n_reason n)"
  "get_str (JObj (sort_key fst (printed_fields L n d))) ''sender'' = Some (n_sender n)"
  "get_str (JObj (sort_key fst (printed_fields L n d))) ''sig_status''
     = Some (sig_status_str (sig_status_of (l_verify_signature L n)))"
  by (simp_all add: get_str_def map_of_sort_key [OF printed_fields_distinct])
    (simp_all add: printed_fields_def l_notification_fields_def)

lemma print_notification_fields:
  "print_notification L n d = to_vec L (JObj (sort_key fst (printed_fields L n d)))"
  by (simp add: print_notification_def printed_fields_def)

definition selects :: "event_filter \<Rightarrow> gossip_notification \<Rightarrow> bool" where
  "selects f n \<longleftrightarrow> (f_medium f = None \<or> f_medium f = Some (n_medium n)) \<and> (f_reason f = None \<or> f_reason f = Some (n_reason n))
     \<and> (case f_sender f of None \<Rightarrow> True | Some pre \<Rightarrow> \<exists>rest. n_sender n = pre @ rest)"

text \<open>
  The documented round trip of \<^verbatim>\<open>serde_json\<close> on what the stream carries: the text of a printed notification,
  an object with the sorted, distinct names of \<open>printed_fields\<close> and no float in it, is read as that object.
\<close>

definition reads_printed :: "(string \<Rightarrow> json option) \<Rightarrow> gossip_lib \<Rightarrow> bool" where
  "reads_printed parse L \<longleftrightarrow>
     (\<forall>n d. parse (print_notification L n d) = Some (JObj (sort_key fst (printed_fields L n d))))"

lemma float_free_printed: "float_free (JObj (sort_key fst (printed_fields L n d)))"
proof -
  have "\<forall>x \<in> set (printed_fields L n d). float_free (snd x)"
    by (cases "n_seq n"; cases "n_signature n") (auto simp: printed_fields_def l_notification_fields_def opt_json_def)
  then show ?thesis by (auto simp: list_all_iff)
qed

lemma reads_printed_json: "prints_json L \<Longrightarrow> reads_printed read_json L"
  by (simp add: reads_printed_def print_notification_fields read_to_vec float_free_printed del: float_free.simps)

lemma matches_printed:
  assumes "reads_printed parse L"
  shows "matches_filter parse (print_notification L n d) f \<longleftrightarrow> selects f n"
  unfolding matches_filter_def selects_def assms [unfolded reads_printed_def, rule_format]
  by (auto simp: printed_get starts_with_iff split: option.split)

lemma map_filter_map: "List.map_filter f (map g xs) = List.map_filter (\<lambda>x. f (g x)) xs"
  by (simp add: List.map_filter_def comp_def filter_map)

section \<open>Properties\<close>

text \<open>A subscriber receives exactly the notifications its query selects, in the order they were
  published: those with the given medium and reason and a sender that starts with the given prefix.
  The only fact used of the parser is that it reads back a printed notification.\<close>

theorem sse_stream_selects:
  assumes "reads_printed parse L"
  shows "sse_handler parse f (map (\<lambda>(n, d). Some (print_notification L n d)) nds)
    = map (\<lambda>(n, d). print_notification L n d) (filter (\<lambda>(n, d). selects f n) nds)"
  by (induction nds) (auto simp: sse_handler_def List.map_filter_simps matches_printed [OF assms])

definition demo_sse_lib :: gossip_lib where
  "demo_sse_lib = (demo_glib demo_notif)\<lparr>to_vec := json_text (\<lambda>_. ''null'')\<rparr>"

theorem sse_stream_selects_witness:
  "sse_handler read_json \<lparr>f_medium = Some ''music'', f_reason = None, f_sender = None\<rparr>
       (map (\<lambda>(n, d). Some (print_notification demo_sse_lib n d)) [(demo_notif, ''d''), (demo_notif\<lparr>n_medium := ''music''\<rparr>, ''e'')])
     = [print_notification demo_sse_lib (demo_notif\<lparr>n_medium := ''music''\<rparr>) ''e'']"
proof -
  have "reads_printed read_json demo_sse_lib"
    by (rule reads_printed_json) (auto simp: prints_json_def demo_sse_lib_def)
  from sse_stream_selects [OF this, of "\<lparr>f_medium = Some ''music'', f_reason = None, f_sender = None\<rparr>"
      "[(demo_notif, ''d''), (demo_notif\<lparr>n_medium := ''music''\<rparr>, ''e'')]"]
  show ?thesis by (simp add: selects_def demo_notif_def)
qed

end
