(* ===== verification/Listener_Program.thy ===== *)
theory Listener_Program
  imports Listener_Sync Listener_Sse Process_Metrics Startup
begin

text \<open>
  The listener as a whole (\<^verbatim>\<open>main\<close> of \<^verbatim>\<open>gossip-listener/src/main.rs\<close>): the receive task, the resilience tasks,
  the announcing and endorsing tasks, the catch-up task and the subscribers of the event stream share
  one state. A step is one turn of one task; catch-up is one step to connect, one for each payload and
  one to finish, so payloads of the gossip and of the peer interleave. A run is any interleaving.
\<close>

section \<open>State\<close>

text \<open>The catch-up task: not started, waiting to connect with the time to ask for, with the payloads
  still to come, finished with its count, or given up.\<close>

datatype catchup = Off | Due u64 | Copying "string list" u64 | Caught_up u64 | Gave_up

record 'id listener =
  ln_recv :: "'id lrecv"
  ln_gen :: u64
  ln_catchup :: catchup
  ln_announced :: "(bool \<times> l_peer_announce) list"
  ln_subscribers :: "(event_filter \<times> nat) list"

record ('id, 'f) lis_cfg =
  lc_recv :: "'id recv_cfg"
  lc_boot :: string
  lc_key :: string
  lc_version :: string
  lc_name :: "string option"
  lc_os :: string
  lc_build :: string
  lc_cpu :: "'f cpu_ops"
  lc_sse_bound :: bool

abbreviation set_lctl :: "ctl \<Rightarrow> 'id listener \<Rightarrow> 'id listener" where
  "set_lctl c s \<equiv> s\<lparr>ln_recv := (ln_recv s)\<lparr>r_ctl := c\<rparr>\<rparr>"

abbreviation ctl_of :: "'id listener \<Rightarrow> ctl" where
  "ctl_of s \<equiv> r_ctl (ln_recv s)"

section \<open>Start\<close>

definition listener_boot :: "(string \<Rightarrow> bool) \<Rightarrow> (string \<Rightarrow> 'id option) \<Rightarrow> env_vars \<Rightarrow> files \<Rightarrow> start_env \<Rightarrow> bool
    \<Rightarrow> (string + 'id listener) outcome" where
  "listener_boot addr_ok parse_id V fs S query_ok =
     bind_outcome (listener_start addr_ok parse_id V fs S) (\<lambda>res.
       case res of
         Inl e \<Rightarrow> Ret (Err e)
       | Inr r \<Rightarrow> Ret (Ok \<lparr>ln_recv = r, ln_gen = 1,
           ln_catchup = (if ls_catchup_enabled (listener_settings addr_ok V)
                         then Due (catchup_since query_ok (st_now S) (l_db r)) else Off),
           ln_announced = [], ln_subscribers = []\<rparr>))"

section \<open>The tasks\<close>

text \<open>An announcement: the clock read for the age of the last message and the one for its time stamp, the
  uptime, the neighbours in their order of iteration, and the files of the process.\<close>

record announce_env =
  an_now :: u64
  an_stamp :: u64
  an_up :: u64
  an_ids :: "string set \<Rightarrow> string list"
  an_files :: proc_files

definition announcement :: "('id, 'f) lis_cfg \<Rightarrow> announce_env \<Rightarrow> ctl \<Rightarrow> l_peer_announce" where
  "announcement C A c =
     l_announce_new (an_stamp A) (l_gather_metrics (lc_cpu C) (an_files A)) (lc_os C) (lc_build C)
       (rf_show_id (lc_recv C) (rf_me (lc_recv C))) (lc_version C) (lc_name C)
       (l_announce_metrics_of (an_now A) (an_up A) (an_ids A (c_neighbor_ids c)) c)"

definition endorsement_of :: "('id, 'f) lis_cfg \<Rightarrow> u64 \<Rightarrow> string list \<Rightarrow> l_peer_announce outcome" where
  "endorsement_of C now keys =
     l_sign_endorse (rf_lib (lc_recv C)) (lc_key C)
       (l_announce_new_endorse now (rf_show_id (lc_recv C) (rf_me (lc_recv C))) (lc_version C)
          (pubkey_hex (rf_lib (lc_recv C)) (lc_key C)) keys (lc_name C))"

text \<open>A new subscription gets a receive task of its own, without the channel to the catch-up task.\<close>

definition l_respawn :: "ctl \<Rightarrow> 'id listener \<Rightarrow> 'id listener" where
  "l_respawn c s =
     (if c_sender c = c_sender (ctl_of s) then set_lctl c s
      else s\<lparr>ln_gen := c_generation c, ln_recv := (ln_recv s)\<lparr>r_ctl := c, r_status := Running, l_neighbor_tx := False\<rparr>\<rparr>)"

definition l_add_join :: "'id list option \<Rightarrow> 'id listener \<Rightarrow> 'id listener" where
  "l_add_join j s = (case j of None \<Rightarrow> s | Some ps \<Rightarrow> s\<lparr>ln_recv := (ln_recv s)\<lparr>r_joins := r_joins (ln_recv s) @ [ps]\<rparr>\<rparr>)"

text \<open>The first neighbour of the receive task, unless the wait for it timed out.\<close>

definition neighbor_known :: "'id option \<Rightarrow> 'id lrecv \<Rightarrow> bool" where
  "neighbor_known nb r \<longleftrightarrow> (case nb of None \<Rightarrow> True | Some p \<Rightarrow> l_catchup_peers r \<noteq> [] \<and> hd (l_catchup_peers r) = p)"

definition catchup_open :: "('id, 'f) lis_cfg \<Rightarrow> 'id catchup_env \<Rightarrow> u64 \<Rightarrow> 'id lrecv \<Rightarrow> catchup" where
  "catchup_open C U since r =
     (let parse = rf_parse_id (lc_recv C);
          candidates = add_missing (parse_bootstrap parse (lc_boot C)) (l_load_known_peers parse (r_peers_file r))
      in case catchup_peer (cu_connect U) candidates (cu_neighbor U) of
           None \<Rightarrow> Gave_up
         | Some peer \<Rightarrow> if \<not> cu_open_ok U \<or> \<not> cu_write_ok U then Gave_up
                        else Copying (read_frames (cu_serve U peer (to_be 8 (unat since)))) 0)"

text \<open>What a subscriber is sent: the stream since it subscribed, but for the messages it was too slow for,
  through its filter.\<close>

definition subscriber_view :: "(string \<Rightarrow> json option) \<Rightarrow> (nat \<Rightarrow> bool) \<Rightarrow> event_filter \<times> nat \<Rightarrow> string list \<Rightarrow> string list" where
  "subscriber_view parse lost sub log =
     sse_handler parse (fst sub) (map (\<lambda>i. if lost i then None else Some (log ! i)) [snd sub..<length log])"

section \<open>Steps\<close>

datatype 'id lis_event =
    Receive l_env "'id gossip_input"
  | Reconnect rc_env
  | Watch u64
  | Rejoin
  | Isolation
  | Health nat u64 u64
  | Announce announce_env bool
  | Endorse u64 "string list" bool
  | Catchup_open "'id catchup_env"
  | Catchup_take l_env
  | Catchup_close u64
  | Subscribe event_filter
  | Ctrl_c

inductive lis_step :: "('id, 'f) lis_cfg \<Rightarrow> 'id lis_event \<Rightarrow> 'id listener \<Rightarrow> 'id listener \<Rightarrow> bool"
  for C :: "('id, 'f) lis_cfg" where
  Receive: "lis_step C (Receive E i) s (s\<lparr>ln_recv := l_receive_turn ((lc_recv C)\<lparr>rf_generation := ln_gen s\<rparr>) (E, i) (ln_recv s)\<rparr>)"
| Reconnect: "lis_step C (Reconnect e) s (l_respawn (l_reconnect_turn e (ctl_of s)) s)"
| Watch: "l_watchdog_turn (rf_parse_id (lc_recv C)) (lc_boot C) (r_peers_file (ln_recv s)) now (ctl_of s) = (c, j)
    \<Longrightarrow> lis_step C (Watch now) s (l_add_join j (set_lctl c s))"
| Rejoin: "lis_step C Rejoin s (l_add_join (l_rejoin_turn (rf_parse_id (lc_recv C)) (lc_boot C) (r_peers_file (ln_recv s))) s)"
| Isolation: "lis_step C Isolation s (set_lctl (l_isolation_turn (ctl_of s)) s)"
| Health: "lis_step C (Health t now rss) s (set_lctl (fst (l_health_turn t now rss (ctl_of s))) s)"
| Announce: "lis_step C (Announce A ok) s
    ((set_lctl (l_announce_result ok (ctl_of s)) s)\<lparr>ln_announced := ln_announced s @ [(ok, announcement C A (ctl_of s))]\<rparr>)"
| No_endorse: "\<not> r_trusted_poisoned (ln_recv s) \<Longrightarrow> r_trusted (ln_recv s) = {} \<Longrightarrow> lis_step C (Endorse now keys ok) s s"
| Endorse: "\<not> r_trusted_poisoned (ln_recv s) \<Longrightarrow> r_trusted (ln_recv s) \<noteq> {} \<Longrightarrow> set keys = r_trusted (ln_recv s)
    \<Longrightarrow> endorsement_of C now keys = Ret a
    \<Longrightarrow> lis_step C (Endorse now keys ok) s
          ((set_lctl (l_endorse_result ok (ctl_of s)) s)\<lparr>ln_announced := ln_announced s @ [(ok, a)]\<rparr>)"
| Catchup_open: "ln_catchup s = Due since \<Longrightarrow> neighbor_known (cu_neighbor U) (ln_recv s)
    \<Longrightarrow> lis_step C (Catchup_open U) s (s\<lparr>ln_catchup := catchup_open C U since (ln_recv s)\<rparr>)"
| Catchup_take: "ln_catchup s = Copying (p # ps) cnt
    \<Longrightarrow> catchup_payload (rf_lib (lc_recv C)) E p (ln_recv s, cnt) = (r, cnt', panic)
    \<Longrightarrow> lis_step C (Catchup_take E) s (s\<lparr>ln_recv := r, ln_catchup := if panic then Gave_up else Copying ps cnt'\<rparr>)"
| Catchup_close: "ln_catchup s = Copying [] cnt
    \<Longrightarrow> lis_step C (Catchup_close now) s ((set_lctl ((ctl_of s)\<lparr>c_last_notif := now\<rparr>) s)\<lparr>ln_catchup := Caught_up cnt\<rparr>)"
| Subscribe: "map_of (start_sse_server (lc_sse_bound C)) ''/events'' = Some Event_stream \<Longrightarrow> l_sse (ln_recv s) = Some log
    \<Longrightarrow> lis_step C (Subscribe f) s (s\<lparr>ln_subscribers := ln_subscribers s @ [(f, length log)]\<rparr>)"
| Ctrl_c: "lis_step C Ctrl_c s (set_lctl ((ctl_of s)\<lparr>c_shutdown := True\<rparr>) s)"

inductive lis_run :: "('id, 'f) lis_cfg \<Rightarrow> 'id listener \<Rightarrow> 'id lis_event list \<Rightarrow> 'id listener \<Rightarrow> bool"
  for C :: "('id, 'f) lis_cfg" where
  start: "lis_run C s [] s"
| step: "lis_run C s es t \<Longrightarrow> lis_step C e t u \<Longrightarrow> lis_run C s (es @ [e]) u"

inductive_simps lis_run_Nil [simp]: "lis_run C s [] t"
inductive_simps lis_run_snoc: "lis_run C s (es @ [e]) t"
inductive_simps lis_step_Receive: "lis_step C (Receive E i) s t"
inductive_simps lis_step_Reconnect: "lis_step C (Reconnect e) s t"
inductive_simps lis_step_Watch: "lis_step C (Watch now) s t"

lemma lis_run_single: "lis_run C s [e] t \<longleftrightarrow> lis_step C e s t"
  using lis_run_snoc [of C s "[]" e t] by simp

lemma lis_run_append: "lis_run C s es t \<Longrightarrow> lis_run C t fs u \<Longrightarrow> lis_run C s (es @ fs) u"
proof (induction fs arbitrary: u rule: rev_induct)
  case (snoc f fs)
  then obtain v where "lis_run C t fs v" "lis_step C f v u" by (auto simp: lis_run_snoc)
  with snoc show ?case by (metis append_assoc lis_run.step)
qed simp

lemma lis_run_Cons: "lis_run C s (e # es) u \<longleftrightarrow> (\<exists>t. lis_step C e s t \<and> lis_run C t es u)"
proof
  show "lis_run C s (e # es) u \<Longrightarrow> \<exists>t. lis_step C e s t \<and> lis_run C t es u"
  proof (induction es arbitrary: u rule: rev_induct)
    case (snoc f es)
    then obtain v where v: "lis_run C s (e # es) v" "lis_step C f v u" by (metis append_Cons lis_run_snoc)
    with snoc.IH [OF v(1)] show ?case by (metis lis_run.step)
  qed (simp add: lis_run_single)
  show "\<exists>t. lis_step C e s t \<and> lis_run C t es u \<Longrightarrow> lis_run C s (e # es) u"
    using lis_run_append [of C s "[e]"] by (auto simp: lis_run_single)
qed

section \<open>What a step publishes and stores\<close>

lemma l_quiet [simp]:
  "l_sse (l_show_names E s) = l_sse s" "l_db (l_show_names E s) = l_db s"
  "l_sse (l_set_name E k z s) = l_sse s" "l_db (l_set_name E k z s) = l_db s"
  "l_sse (l_endorse_names E sn a s) = l_sse s" "l_db (l_endorse_names E sn a s) = l_db s"
  "l_sse (l_handle_announce C E a s) = l_sse s" "l_db (l_handle_announce C E a s) = l_db s"
  "l_sse (l_endorse_keys E sn keys s) = l_sse s" "l_db (l_endorse_keys E sn keys s) = l_db s"
  "l_sse (l_check_seq n s) = l_sse s" "l_db (l_check_seq n s) = l_db s"
  "l_sse (l_suggest C E g s) = l_sse s" "l_db (l_suggest C E g s) = l_db s"
  "l_sse (l_task_end C s) = l_sse s" "l_db (l_task_end C s) = l_db s"
  "l_sse (l_handle_neighbor_up C E node s) = l_sse s" "l_db (l_handle_neighbor_up C E node s) = l_db s"
  by (simp_all add: l_show_names_def l_set_name_def l_endorse_names_def l_handle_announce_def l_endorse_keys_def
      l_check_seq_def l_suggest_def l_task_end_def l_handle_neighbor_up_def Let_def split: outcome.split option.split prod.split)

lemma l_endorse_quiet [simp]: "l_sse (l_handle_endorse C E a s) = l_sse s" "l_db (l_handle_endorse C E a s) = l_db s"
  by (simp_all add: l_handle_endorse_def Let_def split: outcome.split option.split sum.split)

abbreviation meta_of :: "l_gossip_notification \<Rightarrow> msg_meta" where
  "meta_of n \<equiv> \<lparr>mm_sender = n_sender n, mm_medium = n_medium n, mm_reason = n_reason n,
     mm_timestamp = n_timestamp n, mm_iri_count = of_nat (length (n_iris n))\<rparr>"

text \<open>The effect of one payload on stream and archive: nothing, or an accepted notification is appended
  to the stream and possibly offered to the archive.\<close>

definition outlet_step :: "gossip_lib \<Rightarrow> l_env \<Rightarrow> string \<Rightarrow> 'id lrecv \<Rightarrow> 'id lrecv \<Rightarrow> bool" where
  "outlet_step L E raw r r' \<longleftrightarrow>
     l_sse r' = l_sse r \<and> l_db r' = l_db r
   \<or> (\<exists>n d. parse_notification L raw = Some n \<and> (r_trusted r = {} \<or> n_sender n \<in> r_trusted r)
        \<and> l_sse r' = map_option (\<lambda>log. log @ [print_notification L n d]) (l_sse r)
        \<and> (l_db r' = l_db r
           \<or> l_db r' = map_option (\<lambda>a. fst (l_archive_store (li_hash E) (li_arch E) (meta_of n) raw a)) (l_db r)))"

lemma l_store_outlet:
  "l_sse (l_store E raw n s) = l_sse s"
  "l_db (l_store E raw n s) = l_db s
   \<or> l_db (l_store E raw n s) = map_option (\<lambda>a. fst (l_archive_store (li_hash E) (li_arch E) (meta_of n) raw a)) (l_db s)"
  by (auto simp: l_store_def split: option.split outcome.split prod.split)

lemma l_notification_outlet:
  assumes "parse_notification (rf_lib C) raw = Some n"
  shows "outlet_step (rf_lib C) E raw s (l_handle_notification C E raw n s)"
proof -
  let ?w = "l_check_seq n (s\<lparr>r_ctl := (r_ctl s)\<lparr>c_last_notif := li_clock E, c_notifs := c_notifs (r_ctl s) + 1\<rparr>\<rparr>)"
  have w: "l_sse ?w = l_sse s" "l_db ?w = l_db s" "r_trusted ?w = r_trusted s" by simp_all
  have pub: "outlet_step (rf_lib C) E raw s (l_publish C E raw n ?w)" if "r_trusted s = {} \<or> n_sender n \<in> r_trusted s"
  proof (cases "\<not> l_names_poisoned ?w \<and> (\<exists>d. l_sender_display (r_names ?w) (n_sender n) = Ret d)")
    case True
    then obtain d where "l_publish C E raw n ?w
        = l_store E raw n (?w\<lparr>l_sse := map_option (\<lambda>log. log @ [print_notification (rf_lib C) n d]) (l_sse s)\<rparr>)"
      by (auto simp: l_publish_def Let_def w)
    then show ?thesis
      using assms that w(2) l_store_outlet [of E raw n "?w\<lparr>l_sse := map_option (\<lambda>log. log @ [print_notification (rf_lib C) n d]) (l_sse s)\<rparr>"]
      by (auto simp: outlet_step_def)
  next
    case False
    then have "l_publish C E raw n ?w = l_died ?w" by (auto simp: l_publish_def split: outcome.split)
    then show ?thesis by (simp add: outlet_step_def w)
  qed
  have eq: "l_handle_notification C E raw n s =
      (if r_trusted_poisoned s then l_died (s\<lparr>r_ctl := (r_ctl s)\<lparr>c_last_notif := li_clock E, c_notifs := c_notifs (r_ctl s) + 1\<rparr>\<rparr>)
       else if r_trusted s = {} \<or> n_sender n \<in> r_trusted s
       then (if r_status ?w = Panicked then ?w else l_publish C E raw n ?w)
       else s\<lparr>r_ctl := (r_ctl s)\<lparr>c_last_notif := li_clock E, c_notifs := c_notifs (r_ctl s) + 1\<rparr>\<rparr>)"
    by (simp add: l_handle_notification_def Let_def)
  show ?thesis unfolding eq using pub by (auto simp: outlet_step_def w)
qed

lemma l_received_outlet: "outlet_step (rf_lib C) E raw s (l_handle_received C E raw s)"
  using l_notification_outlet [of C raw _ E s]
  by (auto simp: l_handle_received_def split: option.split) (simp_all add: outlet_step_def)

lemma outlet_step_cong: "l_sse r = l_sse s \<Longrightarrow> l_db r = l_db s \<Longrightarrow> r_trusted r = r_trusted s
    \<Longrightarrow> outlet_step L E raw r t = outlet_step L E raw s t"
  by (simp add: outlet_step_def)

lemma l_receive_outlet:
  "l_sse (l_receive_turn C (E, i) s) = l_sse s \<and> l_db (l_receive_turn C (E, i) s) = l_db s
   \<or> (\<exists>raw from_peer. i = Msg raw from_peer \<and> outlet_step (rf_lib C) E raw s (l_receive_turn C (E, i) s))"
proof (cases i)
  case (Msg raw from_peer)
  let ?s = "s\<lparr>r_ctl := (r_ctl s)\<lparr>c_sources := insert from_peer (c_sources (r_ctl s))\<rparr>\<rparr>"
  have "outlet_step (rf_lib C) E raw s (l_handle_received C E raw ?s)"
    using l_received_outlet [of C E raw ?s] outlet_step_cong [of ?s s "rf_lib C" E raw] by simp
  then show ?thesis using Msg
    by (auto simp: l_receive_turn_def l_event_turn_def Let_def split: option.split)
qed (simp_all add: l_receive_turn_def l_event_turn_def Let_def)

lemma catchup_payload_outlet:
  "catchup_payload L E p (r, cnt) = (r', cnt', panic) \<Longrightarrow> outlet_step L E p r r' \<and> r_trusted r' = r_trusted r \<and> r_ctl r' = r_ctl r"
  by (auto simp: catchup_payload_def outlet_step_def Let_def split: option.splits if_splits outcome.splits prod.splits)

text \<open>The raw message that an event brings in.\<close>

definition brings :: "'id lis_event \<Rightarrow> 'id listener \<Rightarrow> string \<Rightarrow> bool" where
  "brings e s raw \<longleftrightarrow> (\<exists>E from_peer. e = Receive E (Msg raw from_peer)) \<or> (\<exists>ps cnt. ln_catchup s = Copying (raw # ps) cnt)"

lemma l_respawn_keeps [simp]:
  "l_sse (ln_recv (l_respawn c s)) = l_sse (ln_recv s)" "l_db (ln_recv (l_respawn c s)) = l_db (ln_recv s)"
  "r_trusted (ln_recv (l_respawn c s)) = r_trusted (ln_recv s)" "ctl_of (l_respawn c s) = c"
  "ln_catchup (l_respawn c s) = ln_catchup s" "ln_subscribers (l_respawn c s) = ln_subscribers s"
  by (simp_all add: l_respawn_def)

lemma l_add_join_keeps [simp]:
  "l_sse (ln_recv (l_add_join j s)) = l_sse (ln_recv s)" "l_db (ln_recv (l_add_join j s)) = l_db (ln_recv s)"
  "r_trusted (ln_recv (l_add_join j s)) = r_trusted (ln_recv s)" "ctl_of (l_add_join j s) = ctl_of s"
  "r_status (ln_recv (l_add_join j s)) = r_status (ln_recv s)"
  "ln_catchup (l_add_join j s) = ln_catchup s" "ln_gen (l_add_join j s) = ln_gen s"
  "ln_subscribers (l_add_join j s) = ln_subscribers s"
  by (simp_all add: l_add_join_def split: option.splits)

lemma lis_step_outlet:
  assumes "lis_step C e s t"
  shows "l_sse (ln_recv t) = l_sse (ln_recv s) \<and> l_db (ln_recv t) = l_db (ln_recv s)
    \<or> (\<exists>E raw. brings e s raw \<and> outlet_step (rf_lib (lc_recv C)) E raw (ln_recv s) (ln_recv t))"
  using assms
proof cases
  case (Receive E i)
  then show ?thesis
    using l_receive_outlet [of "(lc_recv C)\<lparr>rf_generation := ln_gen s\<rparr>" E i "ln_recv s"] by (auto simp: brings_def)
next
  case (Catchup_take p ps cnt E r cnt' panic)
  then show ?thesis using catchup_payload_outlet [OF Catchup_take(4)] by (auto simp: brings_def)
qed simp_all

section \<open>Trust along a run\<close>

definition endorsements :: "('id, 'f) lis_cfg \<Rightarrow> 'id lis_event list \<Rightarrow> (string \<times> string list) set" where
  "endorsements C es = {p. \<exists>E i. Receive E i \<in> set es \<and> l_endorsement (lc_recv C) (E, i) = Some p}"

lemma l_endorsement_generation [simp]: "l_endorsement (K\<lparr>rf_generation := g\<rparr>) = l_endorsement K"
  by (rule ext) (simp add: l_endorsement_def split: gossip_input.split option.split)

lemma lis_step_trusted:
  assumes "lis_step C e s t"
  shows "r_trusted (ln_recv t) = r_trusted (ln_recv s)
    \<or> (\<exists>E i. e = Receive E i \<and> r_trusted (ln_recv s) \<subseteq> r_trusted (ln_recv t)
        \<and> (\<forall>k \<in> r_trusted (ln_recv t). k \<in> r_trusted (ln_recv s)
             \<or> (\<exists>sn keys. l_endorsement (lc_recv C) (E, i) = Some (sn, keys) \<and> sn \<in> r_trusted (ln_recv s) \<and> k \<in> set keys)))"
  using assms
proof cases
  case (Receive E i)
  let ?K = "(lc_recv C)\<lparr>rf_generation := ln_gen s\<rparr>"
  have "r_trusted (ln_recv s) \<subseteq> r_trusted (l_receive_turn ?K (E, i) (ln_recv s))" by (rule listener_trust.kept)
  moreover have "k \<in> r_trusted (ln_recv s) \<or> (\<exists>sn keys. l_endorsement (lc_recv C) (E, i) = Some (sn, keys)
      \<and> sn \<in> r_trusted (ln_recv s) \<and> k \<in> set keys)" if "k \<in> r_trusted (l_receive_turn ?K (E, i) (ln_recv s))" for k
    using listener_trust.grown [OF that] by simp
  ultimately show ?thesis using Receive by simp
next
  case (Catchup_take p ps cnt E r cnt' panic)
  then show ?thesis using catchup_payload_outlet [OF Catchup_take(4)] by simp
qed simp_all

lemma lis_step_trusted_mono:
  assumes "lis_step C e s t"
  shows "r_trusted (ln_recv s) \<subseteq> r_trusted (ln_recv t)" "r_trusted (ln_recv s) = {} \<Longrightarrow> r_trusted (ln_recv t) = {}"
  using lis_step_trusted [OF assms] by auto

lemma lis_run_trusted_mono:
  assumes "lis_run C s es t"
  shows "r_trusted (ln_recv s) \<subseteq> r_trusted (ln_recv t) \<and> (r_trusted (ln_recv s) = {} \<longrightarrow> r_trusted (ln_recv t) = {})"
  using assms by (induction rule: lis_run.induct) (use lis_step_trusted_mono in blast)+

lemma lis_run_trust_chain:
  assumes "lis_run C s es t" and "k \<in> r_trusted (ln_recv t)"
  shows "trust_chain (endorsements C es) (r_trusted (ln_recv s)) k"
  using assms
proof (induction arbitrary: k rule: lis_run.induct)
  case (start s)
  then show ?case by (simp add: initially)
next
  case (step s es t e u)
  have up: "trust_chain (endorsements C (es @ [e])) (r_trusted (ln_recv s)) k" if "k \<in> r_trusted (ln_recv t)" for k
    by (rule trust_chain_mono [OF step.IH [OF that]]) (auto simp: endorsements_def)
  show ?case
  proof (cases "k \<in> r_trusted (ln_recv t)")
    case False
    then obtain E i sn keys where "e = Receive E i" "l_endorsement (lc_recv C) (E, i) = Some (sn, keys)"
      "sn \<in> r_trusted (ln_recv t)" "k \<in> set keys"
      using lis_step_trusted [OF step.hyps(2)] step.prems by auto
    then show ?thesis
      using trust_chain.endorsed [OF up, of sn keys k] by (auto simp: endorsements_def)
  qed (rule up)
qed

section \<open>Stream and archive along a run\<close>

definition came :: "'id lis_event list \<Rightarrow> string \<Rightarrow> bool" where
  "came es raw \<longleftrightarrow> (\<exists>E from_peer. Receive E (Msg raw from_peer) \<in> set es)
     \<or> (\<exists>U peer request. Catchup_open U \<in> set es \<and> raw \<in> set (read_frames (cu_serve U peer request)))"

definition accepted_from :: "('id, 'f) lis_cfg \<Rightarrow> 'id lis_event list \<Rightarrow> string set \<Rightarrow> string \<Rightarrow> l_gossip_notification \<Rightarrow> bool" where
  "accepted_from C es T raw n \<longleftrightarrow>
     came es raw \<and> parse_notification (rf_lib (lc_recv C)) raw = Some n \<and> (T = {} \<or> n_sender n \<in> T)"

lemma came_append: "came es raw \<Longrightarrow> came (es @ fs) raw"
  unfolding came_def by (metis Un_iff set_append)

lemma accepted_from_mono:
  "accepted_from C es T raw n \<Longrightarrow> T \<subseteq> T' \<Longrightarrow> (T = {} \<Longrightarrow> T' = {}) \<Longrightarrow> accepted_from C (es @ fs) T' raw n"
  unfolding accepted_from_def by (auto intro: came_append)

text \<open>What the stream and the archive may hold, when the archive held the rows \<open>M\<close> at the start.\<close>

definition stream_ok :: "('id, 'f) lis_cfg \<Rightarrow> 'id lis_event list \<Rightarrow> 'id lrecv \<Rightarrow> bool" where
  "stream_ok C es r \<longleftrightarrow> (\<forall>log. l_sse r = Some log \<longrightarrow>
     (\<forall>j \<in> set log. \<exists>raw n d. accepted_from C es (r_trusted r) raw n \<and> j = print_notification (rf_lib (lc_recv C)) n d))"

definition archive_ok :: "('id, 'f) lis_cfg \<Rightarrow> 'id lis_event list \<Rightarrow> msg_row set \<Rightarrow> 'id lrecv \<Rightarrow> bool" where
  "archive_ok C es M r \<longleftrightarrow> (\<forall>a. l_db r = Some a \<longrightarrow> archive_wf a
     \<and> (\<forall>m \<in> set (messages a). m \<in> M \<or> (\<exists>n. accepted_from C es (r_trusted r) (mr_payload m) n)))"

definition catchup_ok :: "'id lis_event list \<Rightarrow> 'id listener \<Rightarrow> bool" where
  "catchup_ok es s \<longleftrightarrow> (\<forall>ps cnt. ln_catchup s = Copying ps cnt \<longrightarrow> (\<forall>p \<in> set ps. came es p))"

lemma store_rows:
  "m \<in> set (messages (fst (l_archive_store h E md p a))) \<Longrightarrow> m \<in> set (messages a) \<or> mr_payload m = p"
  by (auto simp: l_archive_store_eq archive_store_def insert_message_def insert_manifest_def split: option.splits if_splits)

lemma store_wf: "archive_wf a \<Longrightarrow> archive_wf (fst (l_archive_store h E md p a))"
  by (simp add: l_archive_store_eq archive_store_wf)

lemma store_keeps_rows: "set (messages a) \<subseteq> set (messages (fst (l_archive_store h E md p a)))"
  by (auto simp: l_archive_store_eq archive_store_def insert_message_def insert_manifest_def split: option.splits)

lemma outlet_step_keeps:
  assumes "outlet_step (rf_lib (lc_recv C)) E raw r r'" and "came (es @ [e]) raw"
    and "r_trusted r \<subseteq> r_trusted r'" and "r_trusted r = {} \<Longrightarrow> r_trusted r' = {}"
    and "stream_ok C es r" and "archive_ok C es M r"
  shows "stream_ok C (es @ [e]) r' \<and> archive_ok C (es @ [e]) M r'"
proof -
  have up: "accepted_from C (es @ [e]) (r_trusted r') p n" if "accepted_from C es (r_trusted r) p n" for p n
    using accepted_from_mono [OF that assms(3,4)] .
  have quiet: "stream_ok C (es @ [e]) r'" if "l_sse r' = l_sse r"
    using assms(5) up that unfolding stream_ok_def by metis
  have quiet': "archive_ok C (es @ [e]) M r'" if "l_db r' = l_db r"
    using assms(6) up that unfolding archive_ok_def by metis
  from assms(1) consider "l_sse r' = l_sse r" "l_db r' = l_db r"
    | (acc) n d where "parse_notification (rf_lib (lc_recv C)) raw = Some n" "r_trusted r = {} \<or> n_sender n \<in> r_trusted r"
      "l_sse r' = map_option (\<lambda>log. log @ [print_notification (rf_lib (lc_recv C)) n d]) (l_sse r)"
      "l_db r' = l_db r \<or> l_db r' = map_option (\<lambda>a. fst (l_archive_store (li_hash E) (li_arch E) (meta_of n) raw a)) (l_db r)"
    unfolding outlet_step_def by blast
  then show ?thesis
  proof cases
    case (acc n d)
    note n = acc(1) and tr = acc(2) and sse = acc(3) and db = acc(4)
    have acc: "accepted_from C (es @ [e]) (r_trusted r') raw n"
      using n assms(2-4) tr by (auto simp: accepted_from_def)
    have "stream_ok C (es @ [e]) r'"
      unfolding stream_ok_def
    proof (intro allI impI ballI)
      fix log j assume "l_sse r' = Some log" "j \<in> set log"
      then obtain log0 where "l_sse r = Some log0" "j \<in> set log0 \<or> j = print_notification (rf_lib (lc_recv C)) n d"
        using sse by auto
      then show "\<exists>raw n d. accepted_from C (es @ [e]) (r_trusted r') raw n \<and> j = print_notification (rf_lib (lc_recv C)) n d"
        using acc up assms(5) unfolding stream_ok_def by metis
    qed
    moreover have "archive_ok C (es @ [e]) M r'"
    proof (cases "l_db r' = l_db r")
      case False
      with db obtain a where a: "l_db r = Some a" "l_db r' = Some (fst (l_archive_store (li_hash E) (li_arch E) (meta_of n) raw a))"
        by (cases "l_db r") auto
      have "m \<in> M \<or> (\<exists>n. accepted_from C (es @ [e]) (r_trusted r') (mr_payload m) n)"
        if "m \<in> set (messages (fst (l_archive_store (li_hash E) (li_arch E) (meta_of n) raw a)))" for m
        using store_rows [OF that] acc up a(1) assms(6) unfolding archive_ok_def by metis
      with a store_wf assms(6) show ?thesis by (auto simp: archive_ok_def)
    qed (rule quiet')
    ultimately show ?thesis ..
  qed (blast intro: quiet quiet')
qed

lemma catchup_open_frames:
  "catchup_open C U since r = Copying ps cnt \<Longrightarrow> p \<in> set ps \<Longrightarrow> \<exists>peer request. p \<in> set (read_frames (cu_serve U peer request))"
  by (auto simp: catchup_open_def Let_def split: option.splits if_splits)

lemma lis_step_catchup:
  assumes "lis_step C e s t" and "catchup_ok es s"
  shows "catchup_ok (es @ [e]) t"
proof -
  have keep: "catchup_ok (es @ [e]) t" if "ln_catchup t = ln_catchup s"
    using assms(2) came_append [of es] unfolding catchup_ok_def that by blast
  from assms(1) show ?thesis
  proof cases
    case (Catchup_open since U)
    then show ?thesis
      using catchup_open_frames [of C U since "ln_recv s"] unfolding catchup_ok_def came_def by simp (metis list.set_intros(1))
  next
    case (Catchup_take p ps cnt E r cnt' panic)
    then show ?thesis
      using assms(2) came_append [of es] unfolding catchup_ok_def by (auto split: if_splits)
  qed (use keep in \<open>auto simp: catchup_ok_def\<close>)
qed

lemma lis_step_outlets_ok:
  assumes "lis_step C e s t" and "catchup_ok es s" and "stream_ok C es (ln_recv s)" and "archive_ok C es M (ln_recv s)"
  shows "stream_ok C (es @ [e]) (ln_recv t) \<and> archive_ok C (es @ [e]) M (ln_recv t)"
proof -
  note mono = lis_step_trusted_mono [OF assms(1)]
  from lis_step_outlet [OF assms(1)] show ?thesis
  proof (elim disjE exE conjE)
    assume q: "l_sse (ln_recv t) = l_sse (ln_recv s)" "l_db (ln_recv t) = l_db (ln_recv s)"
    have up: "accepted_from C (es @ [e]) (r_trusted (ln_recv t)) p n" if "accepted_from C es (r_trusted (ln_recv s)) p n" for p n
      using accepted_from_mono [OF that mono] .
    show ?thesis using assms(3,4) up unfolding stream_ok_def archive_ok_def q by metis
  next
    fix E raw assume raw: "brings e s raw" and o: "outlet_step (rf_lib (lc_recv C)) E raw (ln_recv s) (ln_recv t)"
    have "came (es @ [e]) raw"
      using raw assms(2) came_append [of es raw "[e]"] by (auto simp: brings_def catchup_ok_def) (auto simp: came_def)
    from outlet_step_keeps [OF o this mono assms(3,4)] show ?thesis .
  qed
qed

lemma lis_run_outlets_ok:
  assumes "lis_run C s es t" and "catchup_ok [] s" and "stream_ok C [] (ln_recv s)" and "archive_ok C [] M (ln_recv s)"
  shows "catchup_ok es t \<and> stream_ok C es (ln_recv t) \<and> archive_ok C es M (ln_recv t)"
  using assms
proof (induction rule: lis_run.induct)
  case (step s es t e u)
  then show ?case using lis_step_catchup lis_step_outlets_ok by blast
qed simp

section \<open>Growth along a run\<close>

definition outlets_grow :: "'id lrecv \<Rightarrow> 'id lrecv \<Rightarrow> bool" where
  "outlets_grow r r' \<longleftrightarrow>
     (\<forall>log. l_sse r = Some log \<longrightarrow> (\<exists>more. l_sse r' = Some (log @ more)))
   \<and> (\<forall>a. l_db r = Some a \<longrightarrow> (\<exists>b. l_db r' = Some b \<and> set (messages a) \<subseteq> set (messages b)))"

lemma outlets_grow_refl: "outlets_grow r r"
  by (auto simp: outlets_grow_def)

lemma outlets_grow_trans:
  assumes "outlets_grow r r'" and "outlets_grow r' r''"
  shows "outlets_grow r r''"
  unfolding outlets_grow_def
proof (intro conjI allI impI)
  fix log assume "l_sse r = Some log"
  with assms(1) obtain m1 where "l_sse r' = Some (log @ m1)" by (auto simp: outlets_grow_def)
  with assms(2) obtain m2 where "l_sse r'' = Some ((log @ m1) @ m2)" by (auto simp: outlets_grow_def)
  then show "\<exists>more. l_sse r'' = Some (log @ more)" by simp
next
  fix a assume "l_db r = Some a"
  with assms(1) obtain b where b: "l_db r' = Some b" "set (messages a) \<subseteq> set (messages b)" by (auto simp: outlets_grow_def)
  with assms(2) obtain c where "l_db r'' = Some c" "set (messages b) \<subseteq> set (messages c)" by (auto simp: outlets_grow_def)
  with b(2) show "\<exists>b. l_db r'' = Some b \<and> set (messages a) \<subseteq> set (messages b)" by blast
qed

lemma lis_step_grows: "lis_step C e s t \<Longrightarrow> outlets_grow (ln_recv s) (ln_recv t)"
proof -
  assume "lis_step C e s t"
  from lis_step_outlet [OF this] show ?thesis
    using store_keeps_rows by (auto simp: outlet_step_def outlets_grow_def)
qed

lemma lis_run_grows: "lis_run C s es t \<Longrightarrow> outlets_grow (ln_recv s) (ln_recv t)"
  by (induction rule: lis_run.induct) (blast intro: outlets_grow_refl outlets_grow_trans lis_step_grows)+

text \<open>A subscriber starts at a position of the stream.\<close>

definition subscribers_ok :: "'id listener \<Rightarrow> bool" where
  "subscribers_ok s \<longleftrightarrow> (\<forall>f p. (f, p) \<in> set (ln_subscribers s) \<longrightarrow> (\<exists>log. l_sse (ln_recv s) = Some log \<and> p \<le> length log))"

lemma lis_step_subscribers:
  assumes "lis_step C e s t" and "subscribers_ok s"
  shows "subscribers_ok t \<and> set (ln_subscribers s) \<subseteq> set (ln_subscribers t)"
proof -
  have keep: "subscribers_ok t" if same: "ln_subscribers t = ln_subscribers s"
    unfolding subscribers_ok_def
  proof (intro allI impI)
    fix f p assume "(f, p) \<in> set (ln_subscribers t)"
    then obtain log where "l_sse (ln_recv s) = Some log" "p \<le> length log"
      using assms(2) same unfolding subscribers_ok_def by auto
    with lis_step_grows [OF assms(1)] show "\<exists>log. l_sse (ln_recv t) = Some log \<and> p \<le> length log"
      by (force simp: outlets_grow_def)
  qed
  from assms(1) show ?thesis
  proof cases
    case (Subscribe log f)
    then show ?thesis using assms(2) by (auto simp: subscribers_ok_def)
  qed (use keep in simp_all)
qed

section \<open>Generations\<close>

lemma l_generation [simp]:
  "r_ctl (l_show_names E s) = r_ctl s" "r_ctl (l_set_name E k z s) = r_ctl s" "r_ctl (l_endorse_names E sn a s) = r_ctl s"
  "r_ctl (l_handle_announce C E a s) = r_ctl s" "r_ctl (l_endorse_keys E sn keys s) = r_ctl s"
  "r_ctl (l_check_seq n s) = r_ctl s" "r_ctl (l_store E raw n s) = r_ctl s" "r_ctl (l_publish C E raw n s) = r_ctl s"
  "r_ctl (l_suggest C E g s) = r_ctl s" "r_ctl (l_handle_neighbor_up C E node s) = r_ctl s"
  by (simp_all add: l_show_names_def l_set_name_def l_endorse_names_def l_handle_announce_def l_endorse_keys_def
      l_check_seq_def l_store_def l_publish_def l_suggest_def l_handle_neighbor_up_def Let_def
      split: outcome.split option.split prod.split)

lemma l_endorse_generation [simp]: "r_ctl (l_handle_endorse C E a s) = r_ctl s"
  by (simp add: l_handle_endorse_def Let_def split: outcome.split option.split sum.split)

lemma l_received_generation:
  "c_generation (r_ctl (l_handle_received C E raw s)) = c_generation (r_ctl s)"
  by (simp add: l_handle_received_def l_handle_notification_def Let_def split: option.split)

lemma l_receive_generation:
  "c_generation (r_ctl (l_receive_turn C (E, i) s)) = c_generation (r_ctl s)"
  by (cases i) (simp_all add: l_receive_turn_def l_event_turn_def l_task_end_def raise_request_def l_received_generation Let_def
      split: option.split)

lemma ctl_generation:
  "c_generation (fst (l_watchdog_turn parse boot f now c)) = c_generation c"
  "c_generation (l_isolation_turn c) = c_generation c" "c_generation (fst (l_health_turn t now rss c)) = c_generation c"
  "c_generation (l_announce_result ok c) = c_generation c" "c_generation (l_endorse_result ok c) = c_generation c"
  "c_sender (l_reconnect_turn e c) = c_sender c \<Longrightarrow> c_generation (l_reconnect_turn e c) = c_generation c"
  by (simp_all add: l_watchdog_turn_def stall_step_def l_isolation_turn_def l_health_turn_def recycle_def raise_request_def
      l_announce_result_def l_endorse_result_def l_reconnect_turn_def Let_def split: if_splits)

lemma lis_step_generation:
  assumes "lis_step C e s t" and "ln_gen s = c_generation (ctl_of s)"
  shows "ln_gen t = c_generation (ctl_of t)"
  using assms(1)
proof cases
  case (Reconnect e)
  then show ?thesis using assms(2) by (auto simp: l_respawn_def ctl_generation)
next
  case (Watch now c j)
  have "c = fst (l_watchdog_turn (rf_parse_id (lc_recv C)) (lc_boot C) (r_peers_file (ln_recv s)) now (ctl_of s))"
    using Watch(3) by simp
  then show ?thesis using assms(2) Watch(2) by (simp add: ctl_generation)
next
  case (Catchup_take p ps cnt E r cnt' panic)
  then show ?thesis using assms(2) catchup_payload_outlet [OF Catchup_take(4)] by simp
qed (use assms(2) in \<open>simp_all add: l_receive_generation ctl_generation\<close>)

section \<open>Reachable states\<close>

lemma listener_boot_Ok:
  assumes "listener_boot addr_ok parse_id V fs S q = Ret (Ok s)"
  shows "listener_start addr_ok parse_id V fs S = Ret (Ok (ln_recv s))" "ln_gen s = 1" "ln_subscribers s = []" "ln_announced s = []"
    "ln_catchup s = (if env_flag ''CATCHUP_ENABLED'' V then Due (catchup_since q (st_now S) (l_db (ln_recv s))) else Off)"
proof -
  have e: "ls_catchup_enabled (listener_settings addr_ok V) = env_flag ''CATCHUP_ENABLED'' V"
    by (simp add: listener_settings_def Let_def)
  obtain res where r: "listener_start addr_ok parse_id V fs S = Ret res"
    "(case res of Inl e \<Rightarrow> Ret (Err e) | Inr r \<Rightarrow> Ret (Ok \<lparr>ln_recv = r, ln_gen = 1,
        ln_catchup = (if env_flag ''CATCHUP_ENABLED'' V then Due (catchup_since q (st_now S) (l_db r)) else Off),
        ln_announced = [], ln_subscribers = []\<rparr>)) = Ret (Ok s)"
    using assms unfolding listener_boot_def e bind_outcome_Ret_iff by blast
  then show "listener_start addr_ok parse_id V fs S = Ret (Ok (ln_recv s))" "ln_gen s = 1" "ln_subscribers s = []" "ln_announced s = []"
    "ln_catchup s = (if env_flag ''CATCHUP_ENABLED'' V then Due (catchup_since q (st_now S) (l_db (ln_recv s))) else Off)"
    by (auto split: sum.split_asm)
qed

lemma booted_db:
  assumes "listener_boot addr_ok parse_id V fs S q = Ret (Ok s)" and "l_db (ln_recv s) = Some a"
  shows "a = (case st_archive S of Some f \<Rightarrow> f | None \<Rightarrow> \<lparr>messages = [], manifest = []\<rparr>)"
proof -
  let ?o = "l_archive_open (st_conn_ok S) (st_batch_ok S) (st_archive S)"
  obtain sse where "ln_recv s = listener_initial parse_id (listener_settings addr_ok V) fs S sse
      (if env_flag ''ARCHIVE_ENABLED'' V \<and> snd ?o = Ok () then fst ?o else None)"
    using listener_start_Ok [OF listener_boot_Ok(1) [OF assms(1)]] by blast
  then have "Some a = (if env_flag ''ARCHIVE_ENABLED'' V \<and> snd ?o = Ok () then fst ?o else None)"
    using assms(2) by (simp only: listener_initial_def lrecv.select_convs)
  then have "snd ?o = Ok ()" "fst ?o = Some a" by (simp_all split: if_split_asm)
  then show ?thesis by (auto simp: l_archive_open_def split: option.splits if_splits)
qed

lemma lis_run_keeps:
  "lis_run C s es t \<Longrightarrow> ln_gen s = c_generation (ctl_of s) \<and> subscribers_ok s \<Longrightarrow> ln_gen t = c_generation (ctl_of t) \<and> subscribers_ok t"
  by (induction rule: lis_run.induct) (use lis_step_generation lis_step_subscribers in blast)+

lemma lis_run_keeps_subscribers:
  "lis_run C s es t \<Longrightarrow> subscribers_ok s \<Longrightarrow> subscribers_ok t \<and> set (ln_subscribers s) \<subseteq> set (ln_subscribers t)"
  by (induction rule: lis_run.induct) (use lis_step_subscribers in blast)+

lemma booted_run:
  assumes "listener_boot addr_ok parse_id V fs S q = Ret (Ok s)" and "lis_run C s es t"
  shows "ln_gen t = c_generation (ctl_of t)" "subscribers_ok t"
proof -
  have "ln_gen s = c_generation (ctl_of s)"
    using started_listener_facts(2) [OF listener_boot_Ok(1) [OF assms(1)]] listener_boot_Ok(2) [OF assms(1)] by simp
  moreover have "subscribers_ok s" using listener_boot_Ok(3) [OF assms(1)] by (simp add: subscribers_ok_def)
  ultimately show "ln_gen t = c_generation (ctl_of t)" "subscribers_ok t"
    using lis_run_keeps [OF assms(2)] by simp_all
qed

section \<open>Subscribers\<close>

lemma map_nth_drop: "map (\<lambda>i. Some (xs ! i)) [p..<length xs] = map Some (drop p xs)"
  by (rule nth_equalityI) simp_all

lemma subscriber_view_all:
  "set (subscriber_view parse (\<lambda>_. False) (f, p) log) = {j \<in> set (drop p log). matches_filter parse j f}"
proof -
  have "sse_handler parse f (map Some xs) = filter (\<lambda>j. matches_filter parse j f) xs" for xs
    by (induction xs) (simp_all add: sse_handler_def List.map_filter_simps)
  then show ?thesis by (auto simp: subscriber_view_def map_nth_drop)
qed

lemma subscriber_view_at:
  assumes "p \<le> i" and "i < length log" and "\<not> lost i" and "matches_filter parse (log ! i) f"
  shows "log ! i \<in> set (subscriber_view parse lost (f, p) log)"
proof -
  have mem: "Some t \<in> set rs \<Longrightarrow> matches_filter parse t f \<Longrightarrow> t \<in> set (sse_handler parse f rs)" for t rs
    by (induction rs) (auto simp: sse_handler_def List.map_filter_simps split: option.split)
  have "Some (log ! i) \<in> set (map (\<lambda>i. if lost i then None else Some (log ! i)) [p..<length log])"
    using assms(1-3) by (auto simp: image_iff intro!: bexI [of _ i])
  then show ?thesis using mem assms(4) by (simp add: subscriber_view_def)
qed

section \<open>Catch-up\<close>

text \<open>The messages a peer sends for a request, oldest first, up to the cap.\<close>

definition served_messages :: "u64 \<Rightarrow> archive \<Rightarrow> msg_row list" where
  "served_messages since b = take SYNC_CAP (sort_key mr_created_at (filter (\<lambda>m. sint since \<le> mr_created_at m) (messages b)))"

lemma served_bytes:
  "(case sync_accept True False b (to_be 8 (unat since)) of Inr bytes \<Rightarrow> bytes | Inl _ \<Rightarrow> [])
     = write_frames (map mr_payload (served_messages since b))"
proof -
  have "unat since < 2 ^ 64" by (rule order_less_le_trans [OF unsigned_less]) simp
  then have "unat since < 256 ^ 8" by simp
  then show ?thesis
    by (simp add: sync_accept_def from_be_to_be Let_def messages_since_def served_messages_def take_map)
qed

lemma read_served:
  assumes "list_all frame_ok ps"
  obtains k where "read_frames (take n (write_frames ps)) = take k ps" "k \<le> length ps" "length (write_frames ps) \<le> n \<Longrightarrow> k = length ps"
proof (cases "length (write_frames ps) \<le> n")
  case True
  then show thesis using that [of "length ps"] read_write_frames [OF assms] by simp
next
  case False
  obtain k where "read_frames (take n (write_frames ps)) = take k ps" using read_frames_prefix [OF assms] by blast
  then show thesis using that [of "min k (length ps)"] False by (simp add: min_def split: if_splits)
qed

lemma catchup_payload_stores:
  assumes "catchup_payload L E p (r, cnt) = (r', cnt', False)" and "acceptable L T p"
    and "T \<subseteq> r_trusted r" and "T = {} \<Longrightarrow> r_trusted r = {}" and "store_works h E" and "l_db r = Some a"
  shows "\<exists>a'. l_db r' = Some a' \<and> h p \<in> mr_hash ` set (messages a')"
proof -
  obtain n where n: "parse_notification L p = Some n" "T = {} \<or> n_sender n \<in> T" "ascii_str (n_sender n)"
    using assms(2) by (auto simp: acceptable_def split: option.splits)
  have ok: "r_trusted r = {} \<or> n_sender n \<in> r_trusted r" using n(2) assms(3,4) by blast
  obtain now where e: "ae_clock (li_arch E) = Some now" "ae_messages_ok (li_arch E)" "li_hash E = h"
    using assms(5) by (auto simp: store_works_def)
  obtain a' x where st: "l_archive_store h (li_arch E) (meta_of n) p a = (a', Ret x)" "h p \<in> mr_hash ` set (messages a')"
    using l_store_present [OF e(1,2)] by blast
  have np: "\<not> r_trusted_poisoned r" using assms(1) n(1) by (auto simp: catchup_payload_def split: if_splits)
  have "slice_to (n_sender n) (min 8 (length (n_sender n))) = Ret (take (min 8 (length (n_sender n))) (n_sender n))"
    using n(3) by (simp add: slice_to_ascii)
  then show ?thesis
    using assms(1,6) n(1) ok np e(3) st by (auto simp: catchup_payload_def Let_def split: if_splits)
qed

text \<open>The payloads of the peer that catch-up has taken so far are archived.\<close>

definition archived :: "(string \<Rightarrow> string) \<Rightarrow> gossip_lib \<Rightarrow> string set \<Rightarrow> string list \<Rightarrow> 'id lrecv \<Rightarrow> bool" where
  "archived h L T ps r \<longleftrightarrow> (\<exists>a. l_db r = Some a \<and> (\<forall>p \<in> set ps. acceptable L T p \<longrightarrow> h p \<in> mr_hash ` set (messages a)))"

lemma archived_grows: "archived h L T ps r \<Longrightarrow> outlets_grow r r' \<Longrightarrow> archived h L T ps r'"
  unfolding archived_def outlets_grow_def by blast

definition catchup_inv :: "('id, 'f) lis_cfg \<Rightarrow> (string \<Rightarrow> string) \<Rightarrow> string set \<Rightarrow> u64 \<Rightarrow> 'id lis_event list \<Rightarrow> 'id listener \<Rightarrow> bool" where
  "catchup_inv C h T since es s \<longleftrightarrow>
     l_db (ln_recv s) \<noteq> None \<and> T \<subseteq> r_trusted (ln_recv s) \<and> (T = {} \<longrightarrow> r_trusted (ln_recv s) = {})
   \<and> (\<forall>x. ln_catchup s = Due x \<longrightarrow> x = since)
   \<and> (\<forall>ps cnt. ln_catchup s = Copying ps cnt \<longrightarrow> (\<exists>U peer taken. Catchup_open U \<in> set es
        \<and> read_frames (cu_serve U peer (to_be 8 (unat since))) = taken @ ps \<and> archived h (rf_lib (lc_recv C)) T taken (ln_recv s)))
   \<and> (\<forall>cnt. ln_catchup s = Caught_up cnt \<longrightarrow> (\<exists>U peer. Catchup_open U \<in> set es
        \<and> archived h (rf_lib (lc_recv C)) T (read_frames (cu_serve U peer (to_be 8 (unat since)))) (ln_recv s)))"

lemma catchup_open_Copying:
  "catchup_open C U since r = Copying ps cnt \<Longrightarrow> \<exists>peer. ps = read_frames (cu_serve U peer (to_be 8 (unat since)))"
  by (auto simp: catchup_open_def Let_def split: option.splits if_splits)

lemma catchup_open_cases: "catchup_open C U since r \<noteq> Due x" "catchup_open C U since r \<noteq> Caught_up cnt"
  by (auto simp: catchup_open_def Let_def split: option.splits)

lemma lis_step_catchup_inv:
  assumes step: "lis_step C e s t" and inv: "catchup_inv C h T since es s" and works: "\<And>E. e = Catchup_take E \<Longrightarrow> store_works h E"
  shows "catchup_inv C h T since (es @ [e]) t"
proof -
  note grow = lis_step_grows [OF step]
  have base: "l_db (ln_recv t) \<noteq> None" "T \<subseteq> r_trusted (ln_recv t)" "T = {} \<longrightarrow> r_trusted (ln_recv t) = {}"
    using inv lis_step_trusted_mono [OF step] grow by (auto simp: catchup_inv_def outlets_grow_def)
  have keep: "catchup_inv C h T since (es @ [e]) t" if same: "ln_catchup t = ln_catchup s"
    using base inv archived_grows [OF _ grow] unfolding catchup_inv_def same set_append by blast
  from step show ?thesis
  proof cases
    case (Catchup_open x U)
    have x: "x = since" using inv Catchup_open(3) by (simp add: catchup_inv_def)
    have "\<exists>U peer taken. Catchup_open U \<in> set (es @ [e]) \<and> read_frames (cu_serve U peer (to_be 8 (unat since))) = taken @ ps
        \<and> archived h (rf_lib (lc_recv C)) T taken (ln_recv t)" if cp: "ln_catchup t = Copying ps cnt" for ps cnt
    proof -
      obtain peer where "ps = read_frames (cu_serve U peer (to_be 8 (unat since)))"
        using cp Catchup_open(2) x catchup_open_Copying [of C U x "ln_recv s" ps cnt] by auto
      moreover have "archived h (rf_lib (lc_recv C)) T [] (ln_recv t)" using base(1) by (auto simp: archived_def)
      ultimately show ?thesis using Catchup_open(1) by (intro exI [of _ U] exI [of _ peer] exI [of _ "[]"]) simp
    qed
    then show ?thesis
      using base Catchup_open(2) catchup_open_cases [of C U x "ln_recv s"] by (simp add: catchup_inv_def)
  next
    case (Catchup_take p ps cnt E r cnt' panic)
    show ?thesis
    proof (cases panic)
      case True
      then show ?thesis using base Catchup_take(2) by (simp add: catchup_inv_def)
    next
      case False
      obtain U peer taken where U: "Catchup_open U \<in> set es" "read_frames (cu_serve U peer (to_be 8 (unat since))) = taken @ p # ps"
        "archived h (rf_lib (lc_recv C)) T taken (ln_recv s)"
        using inv Catchup_take(3) unfolding catchup_inv_def by blast
      obtain a where a: "l_db (ln_recv s) = Some a" using inv by (auto simp: catchup_inv_def)
      have pay: "catchup_payload (rf_lib (lc_recv C)) E p (ln_recv s, cnt) = (r, cnt', False)" using Catchup_take(4) False by simp
      have T: "T \<subseteq> r_trusted (ln_recv s)" "T = {} \<Longrightarrow> r_trusted (ln_recv s) = {}" using inv by (simp_all add: catchup_inv_def)
      have r: "ln_recv t = r" using Catchup_take(2) by simp
      have "archived h (rf_lib (lc_recv C)) T (taken @ [p]) r"
      proof -
        have "archived h (rf_lib (lc_recv C)) T taken r" using archived_grows [OF U(3) grow] r by simp
        moreover have "acceptable (rf_lib (lc_recv C)) T p \<Longrightarrow> \<exists>a'. l_db r = Some a' \<and> h p \<in> mr_hash ` set (messages a')"
          using catchup_payload_stores [OF pay _ T works a] Catchup_take(1) by blast
        ultimately show ?thesis unfolding archived_def by auto
      qed
      then have "\<exists>U peer taken. Catchup_open U \<in> set (es @ [e]) \<and> read_frames (cu_serve U peer (to_be 8 (unat since))) = taken @ ps
          \<and> archived h (rf_lib (lc_recv C)) T taken (ln_recv t)"
        using U(1,2) r by (intro exI [of _ U] exI [of _ peer] exI [of _ "taken @ [p]"]) simp
      then show ?thesis using base Catchup_take(2) False by (simp add: catchup_inv_def)
    qed
  next
    case (Catchup_close cnt now)
    then obtain U peer where "Catchup_open U \<in> set es"
      "archived h (rf_lib (lc_recv C)) T (read_frames (cu_serve U peer (to_be 8 (unat since)))) (ln_recv s)"
      using inv unfolding catchup_inv_def by force
    with archived_grows [OF _ grow] have "\<exists>U peer. Catchup_open U \<in> set (es @ [e])
        \<and> archived h (rf_lib (lc_recv C)) T (read_frames (cu_serve U peer (to_be 8 (unat since)))) (ln_recv t)"
      by (metis Un_iff set_append)
    then show ?thesis using base Catchup_close(2) by (simp add: catchup_inv_def)
  qed (use keep in simp_all)
qed

lemma lis_run_catchup_inv:
  assumes "lis_run C s es t" and "catchup_inv C h T since [] s" and "\<And>E. Catchup_take E \<in> set es \<Longrightarrow> store_works h E"
  shows "catchup_inv C h T since es t"
  using assms
proof (induction rule: lis_run.induct)
  case (step s es t e u)
  then show ?case by (intro lis_step_catchup_inv [OF step.hyps(2)]) auto
qed simp

section \<open>An instance for the witnesses\<close>

definition demo_lis :: "(string, int) lis_cfg" where
  "demo_lis = \<lparr>lc_recv = demo_lcfg\<lparr>rf_lib := demo_llib\<lparr>to_vec := json_text (\<lambda>_. ''null'')\<rparr>, rf_parse_id := Some\<rparr>, lc_boot = ''peer'', lc_key = ''k'',
     lc_version = ''1'', lc_name = None, lc_os = ''linux'', lc_build = ''release'', lc_cpu = demo_cpu_ops,
     lc_sse_bound = True\<rparr>"

definition demo_lis_vars :: env_vars where
  "demo_lis_vars = demo_vars(''CATCHUP_ENABLED'' \<mapsto> ''1'')"

definition demo_query :: event_filter where
  "demo_query = \<lparr>f_medium = Some ''podcast'', f_reason = None, f_sender = None\<rparr>"

lemma demo_lis_flags:
  "env_flag ''ARCHIVE_ENABLED'' demo_lis_vars" "env_flag ''SSE_ENABLED'' demo_lis_vars" "env_flag ''CATCHUP_ENABLED'' demo_lis_vars"
  "env_u64 ''SSE_BUFFER_SIZE'' 1000 demo_lis_vars = 64" "env_or ''TRUSTED_PUBLISHERS_FILE'' d demo_lis_vars = d"
proof -
  have same: "demo_lis_vars k = demo_vars k" if "k \<noteq> ''CATCHUP_ENABLED''" for k using that by (simp add: demo_lis_vars_def)
  show "env_flag ''ARCHIVE_ENABLED'' demo_lis_vars" "env_flag ''SSE_ENABLED'' demo_lis_vars"
    "env_u64 ''SSE_BUFFER_SIZE'' 1000 demo_lis_vars = 64" "env_or ''TRUSTED_PUBLISHERS_FILE'' d demo_lis_vars = d"
    using demo_flags(1-3) demo_flags(4) [of d] by (simp_all add: env_flag_def env_u64_def env_or_def same)
  have "to_lowercase ''1'' = ''1''" by code_simp
  then show "env_flag ''CATCHUP_ENABLED'' demo_lis_vars" by (simp add: env_flag_def demo_lis_vars_def)
qed

lemma demo_lis_boot:
  obtains s :: "string listener" where "listener_boot (\<lambda>_. True) Some demo_lis_vars Map.empty demo_start_env True = Ret (Ok s)"
    "l_sse (ln_recv s) = Some []" "l_db (ln_recv s) = Some \<lparr>messages = [], manifest = []\<rparr>" "r_trusted (ln_recv s) = {}"
    "r_status (ln_recv s) = Running" "\<not> r_trusted_poisoned (ln_recv s)" "\<not> l_names_poisoned (ln_recv s)"
    "\<not> l_seq_poisoned (ln_recv s)" "\<not> l_db_poisoned (ln_recv s)" "c_generation (ctl_of s) = 1"
    "ln_catchup s = Due (catchup_since True 1000 (l_db (ln_recv s)))"
proof -
  have "sse_start (st_channel_ok demo_start_env) (listener_settings (\<lambda>_. True) demo_lis_vars) = Ret (Some [])"
    unfolding sse_start_def listener_settings_sel demo_lis_flags(4)
    by (simp add: demo_lis_flags(2) demo_start_env_def)
  moreover have "st_node_key demo_start_env = Ok ''k''" by (simp add: demo_start_env_def)
  ultimately obtain r :: "string lrecv" where r: "listener_start (\<lambda>_. True) Some demo_lis_vars Map.empty demo_start_env = Ret (Ok r)"
    using demo_network unfolding listener_start_def Let_def by auto
  then obtain s :: "string listener" where s: "listener_boot (\<lambda>_. True) Some demo_lis_vars Map.empty demo_start_env True = Ret (Ok s)"
    by (simp add: listener_boot_def)
  note boot = listener_boot_Ok [OF s] and facts = started_listener_facts [OF listener_boot_Ok(1) [OF s]]
  have "l_db (ln_recv s) \<noteq> None" using facts(7) demo_lis_flags(1) by (simp add: demo_start_env_def)
  then obtain a where a: "l_db (ln_recv s) = Some a" by blast
  then have "a = \<lparr>messages = [], manifest = []\<rparr>" using booted_db [OF s a] by (simp add: demo_start_env_def)
  with a show thesis
    using that [OF s] facts boot(5) demo_lis_flags by (simp add: l_load_trusted_publishers_def demo_start_env_def)
qed

lemma demo_lis_lib:
  "rf_lib (lc_recv demo_lis) = demo_llib\<lparr>to_vec := json_text (\<lambda>_. ''null'')\<rparr>"
  by (simp add: demo_lis_def)

lemma received_for_good:
  assumes "listener_boot addr_ok parse_id V fs S q = Ret (Ok s0)" and "lis_run C s0 es0 s"
    and "r_status (ln_recv s) = Running" and "parse_suggest (rf_lib (lc_recv C)) raw = None"
    and "parse_announce (rf_lib (lc_recv C)) raw = None" and "parse_notification (rf_lib (lc_recv C)) raw = Some n"
    and "\<not> r_trusted_poisoned (ln_recv s)" and "\<not> l_names_poisoned (ln_recv s)" and "\<not> l_seq_poisoned (ln_recv s)"
    and "\<not> l_db_poisoned (ln_recv s)" and "r_trusted (ln_recv s) = {} \<or> n_sender n \<in> r_trusted (ln_recv s)"
    and "ascii_str (n_sender n)" and "l_db (ln_recv s) = Some a" and "l_sse (ln_recv s) = Some log"
    and "ae_clock (li_arch E) = Some now" and "ae_messages_ok (li_arch E)"
    and "lis_run C s (Receive E (Msg raw from_peer) # es) t" and "reads_printed parse (rf_lib (lc_recv C))"
  shows "\<exists>d log' a'. l_sse (ln_recv t) = Some log' \<and> length log < length log'
    \<and> log' ! length log = print_notification (rf_lib (lc_recv C)) n d
    \<and> l_db (ln_recv t) = Some a' \<and> li_hash E raw \<in> mr_hash ` set (messages a')
    \<and> (\<forall>(f, p) \<in> set (ln_subscribers s). \<forall>lost. selects f n \<longrightarrow> \<not> lost (length log) \<longrightarrow>
         log' ! length log \<in> set (subscriber_view parse lost (f, p) log'))"
proof -
  let ?K = "(lc_recv C)\<lparr>rf_generation := ln_gen s\<rparr>" and ?L = "rf_lib (lc_recv C)"
  let ?u = "s\<lparr>ln_recv := l_receive_turn ?K (E, Msg raw from_peer) (ln_recv s)\<rparr>"
  have run: "lis_run C ?u es t" using assms(17) by (simp add: lis_run_Cons lis_step_Receive)
  have "c_generation (ctl_of s) = rf_generation ?K" using booted_run(1) [OF assms(1,2)] by simp
  then obtain d a' where d: "l_sse (ln_recv ?u) = Some (log @ [print_notification ?L n d])" "l_db (ln_recv ?u) = Some a'"
    "li_hash E raw \<in> mr_hash ` set (messages a')"
    using l_turn_accepts [of "ln_recv s" ?K raw n a log E now from_peer] assms(3-16) by (auto simp: Let_def)
  from lis_run_grows [OF run] d obtain more b where
    b: "l_sse (ln_recv t) = Some ((log @ [print_notification ?L n d]) @ more)" "l_db (ln_recv t) = Some b"
      "set (messages a') \<subseteq> set (messages b)"
    by (auto simp: outlets_grow_def)
  let ?log = "(log @ [print_notification ?L n d]) @ more"
  have at: "length log < length ?log" "?log ! length log = print_notification ?L n d" by (simp_all add: nth_append)
  have "?log ! length log \<in> set (subscriber_view parse lost (f, p) ?log)"
    if "(f, p) \<in> set (ln_subscribers s)" "selects f n" "\<not> lost (length log)" for f p lost
  proof (rule subscriber_view_at [OF _ at(1)])
    show "p \<le> length log" using booted_run(2) [OF assms(1,2)] that(1) assms(14) by (auto simp: subscribers_ok_def)
    show "matches_filter parse (?log ! length log) f" using that(2) matches_printed [OF assms(18)] by (simp add: at(2))
  qed (rule that(3))
  with b d(3) at show ?thesis by (intro exI [of _ d] exI [of _ ?log] exI [of _ b]) auto
qed

section \<open>Properties\<close>

text \<open>C12. The listener serves only what it accepted: on every run, each line of the event stream and each row
  the archive gained comes from a message of the gossip or of the peer it caught up from, whose sender
  is trusted, unless nobody is; the archive never holds a hash twice; and every trusted sender is in
  the file or is endorsed through a chain of correctly signed endorsements that starts in it.\<close>

theorem listener_serves_only_accepted:
  assumes "listener_boot addr_ok parse_id V fs S q = Ret (Ok s)" and "lis_run C s es t"
    and "\<And>f. st_archive S = Some f \<Longrightarrow> archive_wf f"
  shows "(\<forall>log j. l_sse (ln_recv t) = Some log \<longrightarrow> j \<in> set log \<longrightarrow> (\<exists>raw n d.
        accepted_from C es (r_trusted (ln_recv t)) raw n \<and> j = print_notification (rf_lib (lc_recv C)) n d))
    \<and> (\<forall>a. l_db (ln_recv t) = Some a \<longrightarrow> archive_wf a \<and> (\<forall>m \<in> set (messages a).
        (\<exists>f. st_archive S = Some f \<and> m \<in> set (messages f)) \<or> (\<exists>n. accepted_from C es (r_trusted (ln_recv t)) (mr_payload m) n)))
    \<and> (\<forall>k \<in> r_trusted (ln_recv t). trust_chain (endorsements C es)
        (l_load_trusted_publishers (fs (env_or ''TRUSTED_PUBLISHERS_FILE'' ''trusted_publishers.txt'' V))) k)"
proof -
  note facts = started_listener_facts [OF listener_boot_Ok(1) [OF assms(1)]]
  let ?M = "case st_archive S of Some f \<Rightarrow> set (messages f) | None \<Rightarrow> {}"
  have "stream_ok C [] (ln_recv s)" using facts(8) by (auto simp: stream_ok_def)
  moreover have "archive_ok C [] ?M (ln_recv s)"
    using booted_db [OF assms(1)] assms(3) by (auto simp: archive_ok_def archive_wf_def split: option.split)
  moreover have "catchup_ok [] s" by (simp add: catchup_ok_def listener_boot_Ok(5) [OF assms(1)])
  ultimately have "stream_ok C es (ln_recv t) \<and> archive_ok C es ?M (ln_recv t)"
    using lis_run_outlets_ok [OF assms(2)] by blast
  moreover have "trust_chain (endorsements C es) (r_trusted (ln_recv s)) k" if "k \<in> r_trusted (ln_recv t)" for k
    by (rule lis_run_trust_chain [OF assms(2) that])
  ultimately show ?thesis
    unfolding stream_ok_def archive_ok_def facts(9) by (auto split: option.split_asm)
qed

theorem listener_serves_only_accepted_witness:
  "\<exists>s t :: string listener. listener_boot (\<lambda>_. True) Some demo_lis_vars Map.empty demo_start_env True = Ret (Ok s)
     \<and> lis_run demo_lis s [Subscribe demo_query, Receive demo_lenv (Msg ''N'' ''q'')] t
     \<and> (\<forall>a. l_db (ln_recv t) = Some a \<longrightarrow> archive_wf a)"
proof -
  obtain s :: "string listener" where s: "listener_boot (\<lambda>_. True) Some demo_lis_vars Map.empty demo_start_env True = Ret (Ok s)"
    "l_sse (ln_recv s) = Some []" by (rule demo_lis_boot)
  have up: "map_of (start_sse_server (lc_sse_bound demo_lis)) ''/events'' = Some Event_stream"
    by (simp add: demo_lis_def start_sse_server_def)
  have "\<exists>t. lis_run demo_lis s [Subscribe demo_query, Receive demo_lenv (Msg ''N'' ''q'')] t"
    using lis_step.Subscribe [OF up s(2)] lis_step.Receive unfolding lis_run_Cons lis_run_Nil by blast
  then obtain t where t: "lis_run demo_lis s [Subscribe demo_query, Receive demo_lenv (Msg ''N'' ''q'')] t" by blast
  moreover have "st_archive demo_start_env = None" by (simp add: demo_start_env_def)
  ultimately show ?thesis using s(1) listener_serves_only_accepted [OF s(1) t] by auto
qed

text \<open>C13. Delivered for good: a notification of an accepted sender that reaches the running receive task is in
  every later state, whatever the tasks do in between, in the archive and on the stream, and every
  subscriber of that time whose filter selects it and who did not lag behind on that line is sent it.
  No lock is poisoned, the statement of the archive works, and the parser reads back printed
  notifications.\<close>

theorem delivered_for_good:
  assumes "listener_boot addr_ok parse_id V fs S q = Ret (Ok s0)" and "lis_run C s0 es0 s"
    and "r_status (ln_recv s) = Running" and "parse_suggest (rf_lib (lc_recv C)) raw = None"
    and "parse_announce (rf_lib (lc_recv C)) raw = None" and "parse_notification (rf_lib (lc_recv C)) raw = Some n"
    and "\<not> r_trusted_poisoned (ln_recv s)" and "\<not> l_names_poisoned (ln_recv s)" and "\<not> l_seq_poisoned (ln_recv s)"
    and "\<not> l_db_poisoned (ln_recv s)" and "r_trusted (ln_recv s) = {} \<or> n_sender n \<in> r_trusted (ln_recv s)"
    and "ascii_str (n_sender n)" and "l_db (ln_recv s) = Some a" and "l_sse (ln_recv s) = Some log"
    and "ae_clock (li_arch E) = Some now" and "ae_messages_ok (li_arch E)"
    and "lis_run C s (Receive E (Msg raw from_peer) # es) t" and "reads_printed parse (rf_lib (lc_recv C))"
  shows "\<exists>d log' a'. l_sse (ln_recv t) = Some log' \<and> length log < length log'
    \<and> log' ! length log = print_notification (rf_lib (lc_recv C)) n d
    \<and> l_db (ln_recv t) = Some a' \<and> li_hash E raw \<in> mr_hash ` set (messages a')
    \<and> (\<forall>(f, p) \<in> set (ln_subscribers s). \<forall>lost. selects f n \<longrightarrow> \<not> lost (length log) \<longrightarrow>
         log' ! length log \<in> set (subscriber_view parse lost (f, p) log'))"
  using assms by (rule received_for_good)

theorem delivered_for_good_witness:
  "\<exists>(t :: string listener) a'. l_db (ln_recv t) = Some a' \<and> ''N'' \<in> mr_hash ` set (messages a')
     \<and> (\<exists>log. l_sse (ln_recv t) = Some log \<and> log \<noteq> [])"
proof -
  obtain s :: "string listener" where s: "listener_boot (\<lambda>_. True) Some demo_lis_vars Map.empty demo_start_env True = Ret (Ok s)"
    "l_sse (ln_recv s) = Some []" "l_db (ln_recv s) = Some \<lparr>messages = [], manifest = []\<rparr>" "r_trusted (ln_recv s) = {}"
    "r_status (ln_recv s) = Running" "\<not> r_trusted_poisoned (ln_recv s)" "\<not> l_names_poisoned (ln_recv s)"
    "\<not> l_seq_poisoned (ln_recv s)" "\<not> l_db_poisoned (ln_recv s)"
    by (rule demo_lis_boot)
  have "\<exists>t. lis_run demo_lis s (Receive demo_lenv (Msg ''N'' ''q'') # [Isolation]) t"
    using lis_step.Receive lis_step.Isolation unfolding lis_run_Cons lis_run_Nil by blast
  then obtain t where t: "lis_run demo_lis s (Receive demo_lenv (Msg ''N'' ''q'') # [Isolation]) t" by blast
  have "ascii_str ''abc''" by code_simp
  then have lib: "parse_suggest (rf_lib (lc_recv demo_lis)) ''N'' = None" "parse_announce (rf_lib (lc_recv demo_lis)) ''N'' = None"
    "parse_notification (rf_lib (lc_recv demo_lis)) ''N'' = Some demo_short" "ascii_str (n_sender demo_short)"
    by (simp_all add: demo_lis_lib demo_llib_def demo_rlib_def demo_short_def notification_new_def)
  have env: "ae_clock (li_arch demo_lenv) = Some 9" "ae_messages_ok (li_arch demo_lenv)" "li_hash demo_lenv ''N'' = ''N''"
    by (simp_all add: demo_lenv_def)
  have reads: "reads_printed read_json (rf_lib (lc_recv demo_lis))"
    by (rule reads_printed_json) (auto simp: prints_json_def demo_lis_lib)
  have trust: "r_trusted (ln_recv s) = {} \<or> n_sender demo_short \<in> r_trusted (ln_recv s)" using s(4) by simp
  obtain d log' a' where "l_sse (ln_recv t) = Some log'" "length ([] :: string list) < length log'"
    "l_db (ln_recv t) = Some a'" "li_hash demo_lenv ''N'' \<in> mr_hash ` set (messages a')"
    using delivered_for_good [OF s(1) lis_run.start s(5) lib(1-3) s(6-9) trust lib(4) s(3,2) env(1,2) t reads]
    by (elim exE conjE) (rule that)
  then show ?thesis unfolding env(3) by (intro exI [of _ t] exI [of _ a']) auto
qed

text \<open>C30. A dead listener recovers: whatever ended its receive task, a panic included, when nothing arrives
  over two watchdog turns the next reconnect turn out of the cooldown, if its subscription succeeds,
  starts a receive task of a new generation, with trust, archive and stream as they were.\<close>

theorem dead_listener_recovers:
  assumes "\<not> c_shutdown (ctl_of s)" and "c_stall (ctl_of s) = 0"
    and "REBOOTSTRAP_TIMEOUT \<le> n1 - c_last_notif (ctl_of s)" and "REBOOTSTRAP_TIMEOUT \<le> n2 - c_last_notif (ctl_of s)"
    and "COOLDOWN \<le> elapsed e (ctl_of s)" and "rc_subscribe_ok e"
  shows "(\<exists>t. lis_run C s [Watch n1, Watch n2, Reconnect e] t)
    \<and> (\<forall>t. lis_run C s [Watch n1, Watch n2, Reconnect e] t \<longrightarrow> r_status (ln_recv t) = Running
        \<and> ln_gen t = c_generation (ctl_of s) + 1 \<and> c_generation (ctl_of t) = ln_gen t \<and> c_failures (ctl_of t) = 0
        \<and> l_sse (ln_recv t) = l_sse (ln_recv s) \<and> l_db (ln_recv t) = l_db (ln_recv s) \<and> r_trusted (ln_recv t) = r_trusted (ln_recv s))"
proof -
  let ?pid = "rf_parse_id (lc_recv C)" and ?c = "ctl_of s" and ?f = "r_peers_file (ln_recv s)"
  obtain c1 j1 where w1: "l_watchdog_turn ?pid (lc_boot C) ?f n1 ?c = (c1, j1)" by fastforce
  obtain c2 j2 where w2: "l_watchdog_turn ?pid (lc_boot C) ?f n2 c1 = (c2, j2)" by fastforce
  let ?s1 = "l_add_join j1 (set_lctl c1 s)"
  let ?s2 = "l_add_join j2 (set_lctl c2 ?s1)"
  have same: "r_peers_file (ln_recv ?s1) = ?f" by (simp add: l_add_join_def split: option.split)
  have steps: "lis_run C s [Watch n1, Watch n2, Reconnect e] t \<longleftrightarrow> t = l_respawn (l_reconnect_turn e c2) ?s2" for t
    using w1 w2 by (simp add: lis_run_Cons lis_step_Watch lis_step_Reconnect same)
  have "turns (l_event ?pid (lc_boot C)) [Watchdog ?f n1, Watchdog ?f n2] ?c = c2" using w1 w2 by simp
  then have c2: "c2 = ?c\<lparr>c_failures := RECONNECT_AFTER_FAILURES, c_stall := 0\<rparr>"
    using two_stalls [OF assms(2-4), of ?pid "lc_boot C" ?f] by simp
  then have "\<not> c_shutdown c2" "COOLDOWN \<le> elapsed e c2" "RECONNECT_AFTER_FAILURES \<le> c_failures c2"
    using assms(1,5) by (simp_all add: elapsed_def)
  note acts = l_reconnect_acts [of c2 e]
  show ?thesis
    unfolding steps using acts c2 assms(1,5,6) by (simp add: l_respawn_def elapsed_def)
qed

theorem dead_listener_recovers_witness:
  "\<exists>t :: string listener. lis_run demo_lis
     \<lparr>ln_recv = (demo_lrecv {})\<lparr>r_status := Panicked\<rparr>, ln_gen = 0, ln_catchup = Off, ln_announced = [], ln_subscribers = []\<rparr>
     [Watch 1200, Watch 1400, Reconnect (demo_rc (40 * 10 ^ 9))] t \<and> r_status (ln_recv t) = Running"
  using dead_listener_recovers [of "\<lparr>ln_recv = (demo_lrecv {})\<lparr>r_status := Panicked\<rparr>, ln_gen = 0, ln_catchup = Off,
      ln_announced = [], ln_subscribers = []\<rparr>" 1200 1400 "demo_rc (40 * 10 ^ 9)" demo_lis]
  by (simp add: demo_lrecv_def demo_ctl_def demo_rc_def REBOOTSTRAP_TIMEOUT_def COOLDOWN_def elapsed_def) blast


lemma demo_catchup_open:
  "\<exists>peer. catchup_open demo_lis (demo_cu demo_served) since r = Copying (read_frames (cu_serve (demo_cu demo_served) peer (to_be 8 (unat since)))) 0"
proof -
  have "parse_bootstrap Some ''peer'' = [''peer'']" by code_simp
  then have "add_missing (parse_bootstrap (rf_parse_id (lc_recv demo_lis)) (lc_boot demo_lis)) ys \<noteq> []" for ys
    using set_add_missing [of "[''peer'']" ys] by (auto simp: demo_lis_def)
  then obtain peer ys where "add_missing (parse_bootstrap (rf_parse_id (lc_recv demo_lis)) (lc_boot demo_lis))
      (l_load_known_peers (rf_parse_id (lc_recv demo_lis)) (r_peers_file r)) = peer # ys"
    by (meson neq_Nil_conv)
  then show ?thesis by (simp add: catchup_open_def demo_cu_def catchup_peer_def Let_def)
qed


end
