(* ===== verification/Monitor_Swarm.thy ===== *)
theory Monitor_Swarm
  imports Writer_Receive "HOL-Library.AList" "HOL-Library.Product_Lexorder"
begin

text \<open>
  The swarm registry of the monitor (\<^verbatim>\<open>gossip-monitor/src/swarm.rs\<close>) and the monitor's receive task,
  which feeds it. A \<^verbatim>\<open>HashMap\<close> is an association list with unique keys, whose order stands for the
  iteration order; the lower-case mapping of Unicode is the parameter \<open>lower\<close>. The metric history of
  a peer and the suggestion log are capped logs.
\<close>

section \<open>Data\<close>

definition STALE_THRESHOLD_SECS :: u64 where
  "STALE_THRESHOLD_SECS = 600"

definition PRUNE_THRESHOLD_SECS :: u64 where
  "PRUNE_THRESHOLD_SECS = 1800"

definition MAX_HISTORY_SAMPLES :: nat where
  "MAX_HISTORY_SAMPLES = 60"

definition MAX_SUGGESTION_LOG :: nat where
  "MAX_SUGGESTION_LOG = 200"

text \<open>The monitor's own copy of the announcement has the same fields as the writer's.\<close>

type_synonym m_peer_announce = peer_announce

record metric_sample =
  ms_timestamp :: u64
  ms_cpu_percent :: "u32 option"
  ms_memory_mb :: "u64 option"

record suggestion_entry =
  se_timestamp :: u64
  se_target_node_id :: string
  se_target_name :: "string option"
  se_suggested_peers :: "string list"
  se_reason :: string

record peer_state =
  p_node_id :: string
  p_friendly_name :: "string option"
  p_version :: string
  p_last_seen :: u64
  p_stale :: bool
  p_cpu_percent :: "u32 option"
  p_memory_mb :: "u64 option"
  p_thread_count :: "u32 option"
  p_neighbor_count :: "u32 option"
  p_uptime_secs :: "u64 option"
  p_msgs_received :: "u64 option"
  p_msgs_sent :: "u64 option"
  p_last_msg_age_secs :: "u64 option"
  p_reconnect_count :: "u64 option"
  p_os :: "string option"
  p_build_type :: "string option"
  p_neighbors :: "string list"
  p_history :: "metric_sample list"

record swarm_snapshot =
  sn_peers :: "peer_state list"
  sn_edges :: "(string \<times> string) list"
  sn_total_peers :: nat
  sn_active_peers :: nat
  sn_stale_peers :: nat
  sn_timestamp :: u64

record registry =
  reg_peers :: "(string \<times> peer_state) list"
  reg_history :: "(string \<times> metric_sample list) list"

definition registry_new :: registry where
  "registry_new = \<lparr>reg_peers = [], reg_history = []\<rparr>"

section \<open>Operations\<close>

definition suggestion_push :: "suggestion_entry list \<Rightarrow> suggestion_entry \<Rightarrow> suggestion_entry list" where
  "suggestion_push entries e =
     (let es = entries @ [e] in if MAX_SUGGESTION_LOG < length es then tl es else es)"

definition push_sample :: "metric_sample list \<Rightarrow> metric_sample \<Rightarrow> metric_sample list" where
  "push_sample samples x =
     (let ss = samples @ [x]
      in if MAX_HISTORY_SAMPLES < length ss then drop (length ss - MAX_HISTORY_SAMPLES) ss else ss)"

definition peer_state_of :: "u64 \<Rightarrow> m_peer_announce \<Rightarrow> peer_state" where
  "peer_state_of now a =
     \<lparr>p_node_id = a_node_id a, p_friendly_name = a_friendly_name a, p_version = a_version a, p_last_seen = now,
      p_stale = False, p_cpu_percent = a_cpu_percent a, p_memory_mb = a_memory_mb a, p_thread_count = a_thread_count a,
      p_neighbor_count = a_neighbor_count a, p_uptime_secs = a_uptime_secs a, p_msgs_received = a_msgs_received a,
      p_msgs_sent = a_msgs_sent a, p_last_msg_age_secs = a_last_msg_age_secs a, p_reconnect_count = a_reconnect_count a,
      p_os = a_os a, p_build_type = a_build_type a,
      p_neighbors = (case a_neighbors a of Some ns \<Rightarrow> ns | None \<Rightarrow> []), p_history = []\<rparr>"

definition registry_update :: "u64 \<Rightarrow> m_peer_announce \<Rightarrow> registry \<Rightarrow> registry" where
  "registry_update now a r =
     (if a_msg_type a \<noteq> ''peer_announce'' then r
      else
        let node = a_node_id a;
            hist = (if a_cpu_percent a \<noteq> None \<or> a_memory_mb a \<noteq> None
                    then AList.update node
                           (push_sample (case map_of (reg_history r) node of Some xs \<Rightarrow> xs | None \<Rightarrow> [])
                              \<lparr>ms_timestamp = now, ms_cpu_percent = a_cpu_percent a, ms_memory_mb = a_memory_mb a\<rparr>)
                           (reg_history r)
                    else reg_history r)
        in r\<lparr>reg_history := hist, reg_peers := AList.update node (peer_state_of now a) (reg_peers r)\<rparr>)"

definition is_stale :: "u64 \<Rightarrow> peer_state \<Rightarrow> bool" where
  "is_stale now p \<longleftrightarrow> STALE_THRESHOLD_SECS < saturating_sub now (p_last_seen p)"

definition refresh_peer :: "u64 \<Rightarrow> (string \<times> metric_sample list) list \<Rightarrow> peer_state \<Rightarrow> peer_state" where
  "refresh_peer now hist p =
     p\<lparr>p_stale := is_stale now p,
       p_history := (case map_of hist (p_node_id p) of Some xs \<Rightarrow> xs | None \<Rightarrow> p_history p)\<rparr>"

definition edge_of :: "string \<Rightarrow> string \<Rightarrow> string \<times> string" where
  "edge_of a b = (if a < b then (a, b) else (b, a))"

definition topology_edges :: "peer_state list \<Rightarrow> (string \<times> string) list" where
  "topology_edges ps = sort (remdups (concat (map (\<lambda>p. map (edge_of (p_node_id p)) (p_neighbors p)) ps)))"

definition display_key :: "(string \<Rightarrow> string) \<Rightarrow> peer_state \<Rightarrow> string" where
  "display_key lower p = lower (case p_friendly_name p of Some n \<Rightarrow> n | None \<Rightarrow> p_node_id p)"

definition registry_snapshot :: "(string \<Rightarrow> string) \<Rightarrow> u64 \<Rightarrow> registry \<Rightarrow> registry \<times> swarm_snapshot" where
  "registry_snapshot lower now r =
     (let ps = map (\<lambda>(k, p). (k, refresh_peer now (reg_history r) p)) (reg_peers r);
          peers = sort_key (display_key lower) (map snd ps);
          stale = length (filter p_stale peers)
      in (r\<lparr>reg_peers := ps\<rparr>,
          \<lparr>sn_peers = peers, sn_edges = topology_edges peers, sn_total_peers = length peers,
           sn_active_peers = length peers - stale, sn_stale_peers = stale, sn_timestamp = now\<rparr>))"

definition prune_stale :: "u64 \<Rightarrow> registry \<Rightarrow> registry \<times> nat" where
  "prune_stale now r =
     (let ps = filter (\<lambda>(k, p). saturating_sub now (p_last_seen p) \<le> PRUNE_THRESHOLD_SECS) (reg_peers r);
          removed = length (reg_peers r) - length ps
      in (r\<lparr>reg_peers := ps,
            reg_history := (if 0 < removed then filter (\<lambda>(k, xs). k \<in> fst ` set ps) (reg_history r) else reg_history r)\<rparr>,
          removed))"

section \<open>The monitor's receive task\<close>

record mrecv =
  mr_ctl :: ctl
  mr_status :: task_status
  mr_peers_file :: "string option"
  mr_registry :: registry

definition m_task_end :: "'id recv_cfg \<Rightarrow> mrecv \<Rightarrow> mrecv" where
  "m_task_end C s =
     (let c = mr_ctl s; s1 = s\<lparr>mr_status := Ended\<rparr>
      in if c_shutdown c then s1
         else if c_generation c = rf_generation C then s1\<lparr>mr_ctl := raise_request c\<rparr> else s1)"

text \<open>An announcement updates the registry at the first clock reading and the counters at the second.\<close>

definition m_message :: "'id recv_cfg \<Rightarrow> recv_env \<Rightarrow> string \<Rightarrow> string \<Rightarrow> mrecv \<Rightarrow> mrecv" where
  "m_message C E content from_peer s =
     (let c = mr_ctl s; c1 = c\<lparr>c_sources := insert from_peer (c_sources c)\<rparr>
      in case parse_announce (rf_lib C) content of
           None \<Rightarrow> s\<lparr>mr_ctl := c1\<rparr>
         | Some a \<Rightarrow>
             if a_msg_type a \<noteq> ''peer_announce'' then s\<lparr>mr_ctl := c1\<rparr>
             else s\<lparr>mr_registry := registry_update (ri_now E) a (mr_registry s),
                    mr_ctl := c1\<lparr>c_last_notif := ri_now2 E, c_notifs := c_notifs c1 + 1\<rparr>,
                    mr_peers_file := m_save_peer_if_new (ri_peers_ok E) (a_node_id a) (rf_show_id C (rf_me C)) (mr_peers_file s)\<rparr>)"

fun m_event :: "'id recv_cfg \<Rightarrow> recv_env \<Rightarrow> 'id gossip_input \<Rightarrow> mrecv \<Rightarrow> mrecv" where
  "m_event C E (Msg content from_peer) s = m_message C E content from_peer s"
| "m_event C E (Neighbor_up node) s =
     (let c = mr_ctl s
      in s\<lparr>mr_ctl := c\<lparr>c_neighbor_count := c_neighbor_count c + 1,
                       c_neighbor_ids := insert (rf_show_id C node) (c_neighbor_ids c)\<rparr>,
           mr_peers_file := m_save_peer_if_new (ri_peers_ok E) (rf_show_id C node) (rf_show_id C (rf_me C)) (mr_peers_file s)\<rparr>)"
| "m_event C E (Neighbor_down node) s =
     (let c = mr_ctl s
      in s\<lparr>mr_ctl := c\<lparr>c_neighbor_count := c_neighbor_count c - 1,
                       c_neighbor_ids := c_neighbor_ids c - {rf_show_id C node}\<rparr>\<rparr>)"
| "m_event C E Lagged s = s"
| "m_event C E Receiver_error s = m_task_end C s"
| "m_event C E _ s = s"

definition m_receive_turn :: "'id recv_cfg \<Rightarrow> recv_env \<times> 'id gossip_input \<Rightarrow> mrecv \<Rightarrow> mrecv" where
  "m_receive_turn C ei s =
     (case ei of (E, i) \<Rightarrow>
       if mr_status s \<noteq> Running then s
       else if i = Receiver_closed then m_task_end C s
       else if i = Receive_timeout then
         (if 2 * REBOOTSTRAP_TIMEOUT < saturating_sub (ri_now E) (c_last_notif (mr_ctl s)) then m_task_end C s else s)
       else if c_generation (mr_ctl s) \<noteq> rf_generation C then s\<lparr>mr_status := Ended\<rparr>
       else if c_shutdown (mr_ctl s) then s\<lparr>mr_status := Ended\<rparr>
       else m_event C E i s)"

section \<open>Interfaces and invariant\<close>

interpretation suggestions: capped_log suggestion_push MAX_SUGGESTION_LOG
proof
  fix xs :: "suggestion_entry list" and x
  assume l: "length xs \<le> MAX_SUGGESTION_LOG"
  show "suggestion_push xs x = last_n MAX_SUGGESTION_LOG (xs @ [x])"
  proof (cases "length xs = MAX_SUGGESTION_LOG")
    case True
    then have "xs \<noteq> []" by (auto simp: MAX_SUGGESTION_LOG_def)
    with True show ?thesis by (cases xs) (simp_all add: suggestion_push_def last_n_def)
  next
    case False
    with l show ?thesis by (simp add: suggestion_push_def last_n_def)
  qed
qed (simp add: MAX_SUGGESTION_LOG_def)

interpretation samples: capped_log push_sample MAX_HISTORY_SAMPLES
  by unfold_locales (auto simp: push_sample_def last_n_def MAX_HISTORY_SAMPLES_def Let_def)

text \<open>
  Unique keys, each state under its own id, histories only for known peers and within the cap.
\<close>

definition registry_wf :: "registry \<Rightarrow> bool" where
  "registry_wf r \<longleftrightarrow> distinct (map fst (reg_peers r)) \<and> distinct (map fst (reg_history r))
     \<and> (\<forall>(k, p) \<in> set (reg_peers r). p_node_id p = k \<and> length (p_history p) \<le> MAX_HISTORY_SAMPLES)
     \<and> (\<forall>(k, xs) \<in> set (reg_history r). length xs \<le> MAX_HISTORY_SAMPLES)
     \<and> fst ` set (reg_history r) \<subseteq> fst ` set (reg_peers r)"

lemma registry_new_wf: "registry_wf registry_new"
  by (simp add: registry_wf_def registry_new_def)

lemma set_update_subset: "set (AList.update k v al) \<subseteq> insert (k, v) (set al)"
  by (induction al) auto

lemma keys_update: "fst ` set (AList.update k v al) = insert k (fst ` set al)"
  by (induction al) auto

lemma keys_retained: "fst ` set (filter (\<lambda>(k, x). k \<in> S) al) \<subseteq> S"
  by auto

lemma registry_update_wf [inv_intros]:
  assumes "registry_wf r"
  shows "registry_wf (registry_update now a r)"
proof (cases "a_msg_type a = ''peer_announce''")
  case True
  let ?old = "case map_of (reg_history r) (a_node_id a) of Some xs \<Rightarrow> xs | None \<Rightarrow> []"
  have "length ?old \<le> MAX_HISTORY_SAMPLES"
    using assms by (auto simp: registry_wf_def dest!: map_of_SomeD split: option.split)
  then have h: "length (push_sample ?old x) \<le> MAX_HISTORY_SAMPLES" for x by (rule samples.push_bound)
  let ?r = "registry_update now a r"
  have p: "reg_peers ?r = AList.update (a_node_id a) (peer_state_of now a) (reg_peers r)"
    using True by (simp add: registry_update_def Let_def)
  have H: "reg_history ?r = reg_history r \<or> (\<exists>x. reg_history ?r = AList.update (a_node_id a) (push_sample ?old x) (reg_history r))"
    using True by (auto simp: registry_update_def Let_def)
  have 1: "distinct (map fst (reg_peers ?r))" "distinct (map fst (reg_history ?r))"
    using assms H by (auto simp: p registry_wf_def distinct_update)
  have 2: "\<forall>(k, p) \<in> set (reg_peers ?r). p_node_id p = k \<and> length (p_history p) \<le> MAX_HISTORY_SAMPLES"
    using assms set_update_subset [of "a_node_id a" "peer_state_of now a" "reg_peers r"]
    by (fastforce simp: p registry_wf_def peer_state_of_def)
  have 3: "\<forall>(k, xs) \<in> set (reg_history ?r). length xs \<le> MAX_HISTORY_SAMPLES"
    using H
  proof
    assume "reg_history ?r = reg_history r"
    with assms show ?thesis by (simp add: registry_wf_def)
  next
    assume "\<exists>x. reg_history ?r = AList.update (a_node_id a) (push_sample ?old x) (reg_history r)"
    then obtain x where x: "reg_history ?r = AList.update (a_node_id a) (push_sample ?old x) (reg_history r)" by blast
    show ?thesis
      using assms h [of x] set_update_subset [of "a_node_id a" "push_sample ?old x" "reg_history r"]
      unfolding x registry_wf_def by fastforce
  qed
  have 4: "fst ` set (reg_history ?r) \<subseteq> fst ` set (reg_peers ?r)"
  proof -
    have "fst ` set (reg_history ?r) \<subseteq> insert (a_node_id a) (fst ` set (reg_history r))"
      using H
    proof
      assume "\<exists>x. reg_history ?r = AList.update (a_node_id a) (push_sample ?old x) (reg_history r)"
      then show ?thesis by (metis keys_update subset_refl)
    qed auto
    with assms show ?thesis unfolding p keys_update registry_wf_def by blast
  qed
  from 1 2 3 4 show ?thesis by (simp add: registry_wf_def)
next
  case False
  with assms show ?thesis by (simp add: registry_update_def)
qed

lemma registry_snapshot_wf [inv_intros]:
  assumes "registry_wf r"
  shows "registry_wf (fst (registry_snapshot lower now r))"
proof -
  let ?ps = "map (\<lambda>(k, p). (k, refresh_peer now (reg_history r) p)) (reg_peers r)"
  have keys: "map fst ?ps = map fst (reg_peers r)" by (induction "reg_peers r") auto
  then have k: "fst ` set ?ps = fst ` set (reg_peers r)" by (metis set_map)
  have "\<forall>(k, p) \<in> set ?ps. p_node_id p = k \<and> length (p_history p) \<le> MAX_HISTORY_SAMPLES"
    using assms by (fastforce simp: registry_wf_def refresh_peer_def dest!: map_of_SomeD split: option.split)
  then show ?thesis
    using assms keys k unfolding registry_snapshot_def registry_wf_def Let_def by (simp del: map_map map_eq_conv set_map)
qed

lemma prune_stale_wf [inv_intros]: "registry_wf r \<Longrightarrow> registry_wf (fst (prune_stale now r))"
proof -
  let ?P = "\<lambda>(k::string, p). saturating_sub now (p_last_seen p) \<le> PRUNE_THRESHOLD_SECS"
  let ?ps = "filter ?P (reg_peers r)"
  assume w: "registry_wf r"
  show ?thesis
  proof (cases "length ?ps < length (reg_peers r)")
    case True
    then have "fst (prune_stale now r) = r\<lparr>reg_peers := ?ps, reg_history := filter (\<lambda>(k, xs). k \<in> fst ` set ?ps) (reg_history r)\<rparr>"
      by (simp add: prune_stale_def Let_def)
    moreover have "fst ` set (filter (\<lambda>(k, xs). k \<in> fst ` set ?ps) (reg_history r)) \<subseteq> fst ` set ?ps"
      by (rule keys_retained)
    ultimately show ?thesis using w unfolding registry_wf_def by (simp add: distinct_map_filtered)
  next
    case False
    then have "?ps = reg_peers r" by (metis filter_True length_filter_less not_less)
    with w show ?thesis by (simp add: prune_stale_def registry_wf_def Let_def)
  qed
qed

text \<open>The operations the programs interleave on one registry.\<close>

datatype reg_op = Update u64 peer_announce | Snapshot u64 | Prune u64

fun apply_reg :: "(string \<Rightarrow> string) \<Rightarrow> reg_op \<Rightarrow> registry \<Rightarrow> registry" where
  "apply_reg lower (Update now a) r = registry_update now a r"
| "apply_reg lower (Snapshot now) r = fst (registry_snapshot lower now r)"
| "apply_reg lower (Prune now) r = fst (prune_stale now r)"

lemma apply_reg_wf: "registry_wf r \<Longrightarrow> registry_wf (apply_reg lower op r)"
  by (cases op) (simp_all add: registry_update_wf registry_snapshot_wf prune_stale_wf)

lemma turns_reg_wf: "registry_wf r \<Longrightarrow> registry_wf (turns (apply_reg lower) ops r)"
  by (induction ops arbitrary: r) (simp_all add: apply_reg_wf)

lemma snapshot_peers:
  "set (sn_peers (snd (registry_snapshot lower now r))) = (\<lambda>(k, p). refresh_peer now (reg_history r) p) ` set (reg_peers r)"
  by (force simp: registry_snapshot_def Let_def)

lemma update_same: "distinct (map fst al) \<Longrightarrow> (k, w) \<in> set (AList.update k v al) \<longleftrightarrow> w = v"
  by (induction al) (auto simp: rev_image_eqI)

lemma edge_of_commute: "edge_of a b = edge_of b a"
  by (auto simp: edge_of_def)

section \<open>Properties\<close>

text \<open>Registry invariant: from an empty registry, any sequence of updates, snapshots and prunes keeps
  one entry per node id, files every state under its own id, keeps at most 60 samples per peer and
  holds a history only for peers it knows.\<close>

theorem registry_invariant:
  "registry_wf (turns (apply_reg lower) ops registry_new)"
  by (rule turns_reg_wf [OF registry_new_wf])

definition demo_announce :: peer_announce where
  "demo_announce = announce_new 5 (None, Some 7, None) ''linux'' ''release'' ''n1'' ''1.0'' (Some ''Bob'')
     \<lparr>m_neighbor_count = None, m_neighbors = Some [''n2''], m_uptime_secs = None, m_msgs_received = None,
      m_msgs_sent = None, m_last_msg_age_secs = None, m_reconnect_count = None\<rparr>"

definition demo_registry :: registry where
  "demo_registry = registry_update 100 demo_announce registry_new"

lemma demo_registry_wf: "registry_wf demo_registry"
  unfolding demo_registry_def by (rule registry_update_wf [OF registry_new_wf])

text \<open>A snapshot shows the swarm as announced: an announcement taken at time \<open>t\<close> appears in a later
  snapshot with its name, version and neighbours, once, marked stale exactly when more than 600
  seconds have passed; the peers come in the order of their lower-case names, the counts add up, and
  the edges are exactly the undirected neighbour pairs, sorted and without duplicates.\<close>

theorem snapshot_reflects_announcements:
  assumes "registry_wf r" and "a_msg_type a = ''peer_announce''"
  shows "let snap = snd (registry_snapshot lower now (registry_update t a r)) in
    (\<exists>p \<in> set (sn_peers snap). p_node_id p = a_node_id a \<and> p_friendly_name p = a_friendly_name a
        \<and> p_version p = a_version a \<and> p_neighbors p = (case a_neighbors a of Some ns \<Rightarrow> ns | None \<Rightarrow> [])
        \<and> (p_stale p \<longleftrightarrow> 600 < unat now - unat t) \<and> (\<forall>q \<in> set (sn_peers snap). p_node_id q = a_node_id a \<longrightarrow> q = p))
    \<and> sorted (map (display_key lower) (sn_peers snap))
    \<and> sn_active_peers snap + sn_stale_peers snap = sn_total_peers snap \<and> sn_total_peers snap = length (sn_peers snap)
    \<and> set (sn_edges snap) = {edge_of (p_node_id p) n |p n. p \<in> set (sn_peers snap) \<and> n \<in> set (p_neighbors p)}
    \<and> sorted (sn_edges snap) \<and> distinct (sn_edges snap)"
proof -
  let ?r = "registry_update t a r" and ?k = "a_node_id a" and ?new = "peer_state_of t a"
  let ?snap = "snd (registry_snapshot lower now ?r)"
  let ?p = "refresh_peer now (reg_history ?r) ?new"
  have peers: "reg_peers ?r = AList.update ?k ?new (reg_peers r)" using assms(2) by (simp add: registry_update_def Let_def)
  have d: "distinct (map fst (reg_peers r))" using assms(1) by (simp add: registry_wf_def)
  have w: "registry_wf ?r" using assms(1) by (rule registry_update_wf)
  have in_p: "?p \<in> set (sn_peers ?snap)"
    using update_same [OF d, of ?k ?new ?new] by (force simp: snapshot_peers peers)
  have uniq: "q = ?p" if "q \<in> set (sn_peers ?snap)" "p_node_id q = ?k" for q
  proof -
    from that(1) obtain k p where kp: "(k, p) \<in> set (reg_peers ?r)" "q = refresh_peer now (reg_history ?r) p"
      by (auto simp: snapshot_peers)
    from kp(1) w have "p_node_id p = k" by (auto simp: registry_wf_def)
    with that(2) kp(2) have "k = ?k" by (simp add: refresh_peer_def)
    with kp update_same [OF d, of ?k p ?new] show ?thesis by (simp add: peers)
  qed
  have "is_stale now ?new \<longleftrightarrow> 600 < unat now - unat t"
    by (simp add: is_stale_def peer_state_of_def STALE_THRESHOLD_SECS_def word_less_nat_alt unat_saturating_sub)
  then have "p_node_id ?p = ?k \<and> p_friendly_name ?p = a_friendly_name a \<and> p_version ?p = a_version a
      \<and> p_neighbors ?p = (case a_neighbors a of Some ns \<Rightarrow> ns | None \<Rightarrow> []) \<and> (p_stale ?p \<longleftrightarrow> 600 < unat now - unat t)"
    by (simp add: refresh_peer_def) (simp add: peer_state_of_def)
  moreover have "sorted (map (display_key lower) (sn_peers ?snap))" by (simp add: registry_snapshot_def Let_def)
  moreover have "sn_active_peers ?snap + sn_stale_peers ?snap = sn_total_peers ?snap \<and> sn_total_peers ?snap = length (sn_peers ?snap)"
    by (simp add: registry_snapshot_def Let_def)
      (metis (no_types, lifting) le_add_diff_inverse2 length_filter_le length_map length_sort)
  moreover have e: "sn_edges ?snap = topology_edges (sn_peers ?snap)" by (simp add: registry_snapshot_def Let_def)
  have "set (sn_edges ?snap) = {edge_of (p_node_id p) n |p n. p \<in> set (sn_peers ?snap) \<and> n \<in> set (p_neighbors p)}"
    unfolding e topology_edges_def by auto
  moreover have "sorted (sn_edges ?snap) \<and> distinct (sn_edges ?snap)" by (simp add: e topology_edges_def)
  ultimately show ?thesis using in_p uniq unfolding Let_def by blast
qed

theorem snapshot_reflects_announcements_witness:
  "\<exists>p \<in> set (sn_peers (snd (registry_snapshot (\<lambda>x. x) 900 demo_registry))). p_node_id p = ''n1'' \<and> p_stale p"
proof -
  have "a_msg_type demo_announce = ''peer_announce''" by (simp add: demo_announce_def announce_new_def)
  from snapshot_reflects_announcements [OF registry_new_wf this, of "\<lambda>x. x" 900 100]
  show ?thesis unfolding Let_def demo_registry_def by (auto simp: demo_announce_def announce_new_def)
qed

text \<open>Pruning keeps exactly the peers heard from within 1800 seconds, reports how many it removed, and
  drops the history of every removed peer.\<close>

theorem prune_removes_exactly_the_silent:
  assumes "registry_wf r"
  shows "let (r', removed) = prune_stale now r in
    (\<forall>k p. (k, p) \<in> set (reg_peers r') \<longleftrightarrow> (k, p) \<in> set (reg_peers r) \<and> unat now - unat (p_last_seen p) \<le> 1800)
    \<and> removed + length (reg_peers r') = length (reg_peers r)
    \<and> (\<forall>k. k \<notin> fst ` set (reg_peers r') \<longrightarrow> map_of (reg_history r') k = None)"
proof -
  obtain r' removed where e: "prune_stale now r = (r', removed)" by fastforce
  then have "fst (prune_stale now r) = r'" by simp
  with prune_stale_wf [OF assms, of now] have "fst ` set (reg_history r') \<subseteq> fst ` set (reg_peers r')"
    by (simp add: registry_wf_def)
  then have "\<forall>k. k \<notin> fst ` set (reg_peers r') \<longrightarrow> map_of (reg_history r') k = None" by (auto simp: map_of_eq_None_iff)
  moreover have "\<forall>k p. (k, p) \<in> set (reg_peers r') \<longleftrightarrow> (k, p) \<in> set (reg_peers r) \<and> unat now - unat (p_last_seen p) \<le> 1800"
    using e by (auto simp: prune_stale_def Let_def PRUNE_THRESHOLD_SECS_def word_le_nat_alt unat_saturating_sub)
  moreover have "removed + length (reg_peers r') = length (reg_peers r)"
    using e by (auto simp: prune_stale_def Let_def)
  ultimately show ?thesis by (simp add: e)
qed

theorem prune_removes_exactly_the_silent_witness:
  "(''n1'', peer_state_of 100 demo_announce) \<in> set (reg_peers (fst (prune_stale 1900 demo_registry)))"
proof -
  have "(''n1'', peer_state_of 100 demo_announce) \<in> set (reg_peers demo_registry)"
    by (simp add: demo_registry_def registry_update_def registry_new_def demo_announce_def announce_new_def Let_def)
  moreover have "p_last_seen (peer_state_of 100 demo_announce) = 100" by (simp add: peer_state_of_def)
  ultimately show ?thesis
    using prune_removes_exactly_the_silent [OF demo_registry_wf, of 1900] by (auto simp: case_prod_beta)
qed

end
