(* ===== verification/Monitor_Topology.thy ===== *)
theory Monitor_Topology
  imports Monitor_Swarm
begin

text \<open>
  The topology analysis of the monitor (\<^verbatim>\<open>gossip-monitor/src/topology.rs\<close>): the undirected graph of
  the active peers, its connected components by breadth-first search, Brandes' betweenness and the
  join suggestions. Hash sets and maps are duplicate-free lists and association lists; they are
  iterated in the order of insertion, one of the orders the hash containers may have. Floating-point arithmetic is the record of operations \<open>f64_ops\<close>: what is proved holds whatever
  they compute. Indexing a map at a missing key panics.
\<close>

section \<open>The graph\<close>

type_synonym adjacency = "(string \<times> string list) list"

definition neighbors_of :: "adjacency \<Rightarrow> string \<Rightarrow> string list" where
  "neighbors_of adj v = (case map_of adj v of Some ns \<Rightarrow> ns | None \<Rightarrow> [])"

definition set_insert :: "string list \<Rightarrow> string \<Rightarrow> string list" where
  "set_insert xs x = (if x \<in> set xs then xs else xs @ [x])"

definition adj_extend :: "string \<Rightarrow> string list \<Rightarrow> adjacency \<Rightarrow> adjacency" where
  "adj_extend u vs adj = AList.update u (foldl set_insert (neighbors_of adj u) vs) adj"

definition active_ids :: "swarm_snapshot \<Rightarrow> string list" where
  "active_ids snap = remdups (map p_node_id (filter (\<lambda>p. \<not> p_stale p) (sn_peers snap)))"

definition add_peer_edges :: "string list \<Rightarrow> adjacency \<Rightarrow> peer_state \<Rightarrow> adjacency" where
  "add_peer_edges active adj p =
     (let ns = remdups (filter (\<lambda>n. n \<in> set active) (p_neighbors p));
          adj1 = foldl (\<lambda>A n. adj_extend n [p_node_id p] A) adj ns
      in adj_extend (p_node_id p) ns adj1)"

definition build_adj :: "swarm_snapshot \<Rightarrow> adjacency" where
  "build_adj snap = foldl (add_peer_edges (active_ids snap)) [] (filter (\<lambda>p. \<not> p_stale p) (sn_peers snap))"

definition edges :: "adjacency \<Rightarrow> (string \<times> string) set" where
  "edges adj = {(u, v). v \<in> set (neighbors_of adj u)}"

section \<open>Breadth-first search\<close>

fun push_unvisited :: "string list \<Rightarrow> string set \<Rightarrow> string list \<Rightarrow> string set \<times> string list" where
  "push_unvisited [] visited queue = (visited, queue)"
| "push_unvisited (n # ns) visited queue =
     (if n \<in> visited then push_unvisited ns visited queue
      else push_unvisited ns (insert n visited) (queue @ [n]))"

lemma push_unvisited_spec:
  "push_unvisited ns V q = (V', q') \<Longrightarrow>
     \<exists>new. q' = q @ new \<and> V' = V \<union> set new \<and> set new = set ns - V \<and> distinct new"
proof (induction ns V q rule: push_unvisited.induct)
  case (2 n ns V q)
  show ?case
  proof (cases "n \<in> V")
    case True
    with 2 show ?thesis by auto
  next
    case False
    with 2 obtain new where "q' = (q @ [n]) @ new" "V' = insert n V \<union> set new" "set new = set ns - insert n V" "distinct new"
      by auto
    then show ?thesis using False by (intro exI [of _ "n # new"]) auto
  qed
qed auto

definition all_neighbors :: "adjacency \<Rightarrow> string set" where
  "all_neighbors adj = \<Union> (set ` snd ` set adj)"

lemma finite_all_neighbors: "finite (all_neighbors adj)"
  by (simp add: all_neighbors_def)

lemma neighbors_of_subset: "set (neighbors_of adj v) \<subseteq> all_neighbors adj"
proof (cases "map_of adj v")
  case (Some ns)
  then have "ns \<in> snd ` set adj" by (metis image_eqI map_of_SomeD snd_conv)
  then show ?thesis using Some by (auto simp: neighbors_of_def all_neighbors_def)
qed (simp add: neighbors_of_def)

text \<open>
  The loop ends because every round marks new nodes or shortens the queue.
\<close>

function bfs_loop :: "adjacency \<Rightarrow> string list \<Rightarrow> string set \<Rightarrow> string list \<Rightarrow> string list \<times> string set" where
  "bfs_loop adj [] visited component = (component, visited)"
| "bfs_loop adj (node # queue) visited component =
     (case push_unvisited (neighbors_of adj node) visited queue of
        (visited', queue') \<Rightarrow> bfs_loop adj queue' visited' (component @ [node]))"
  by pat_completeness auto
termination
proof (relation "measures [\<lambda>(adj, q, V, c). card (all_neighbors adj - V), \<lambda>(adj, q, V, c). length q]")
  fix adj node and queue :: "string list" and visited component and visited' :: "string set" and queue'
  assume "(visited', queue') = push_unvisited (neighbors_of adj node) visited queue"
  then obtain new where n: "queue' = queue @ new" "visited' = visited \<union> set new" "set new = set (neighbors_of adj node) - visited"
    using push_unvisited_spec [of "neighbors_of adj node" visited queue visited' queue'] by metis
  show "((adj, queue', visited', component @ [node]), adj, node # queue, visited, component)
    \<in> measures [\<lambda>(adj, q, V, c). card (all_neighbors adj - V), \<lambda>(adj, q, V, c). length q]"
  proof (cases "new = []")
    case True
    with n show ?thesis by simp
  next
    case False
    then have "all_neighbors adj - visited' \<subset> all_neighbors adj - visited"
      using n neighbors_of_subset [of adj node] by (cases new) auto
    then have "card (all_neighbors adj - visited') < card (all_neighbors adj - visited)"
      by (intro psubset_card_mono) (simp_all add: finite_all_neighbors)
    then show ?thesis by simp
  qed
qed simp

definition bfs_component :: "adjacency \<Rightarrow> string \<Rightarrow> string set \<Rightarrow> string list \<times> string set" where
  "bfs_component adj start visited = bfs_loop adj [start] (insert start visited) []"

fun find_components :: "adjacency \<Rightarrow> string list \<Rightarrow> string set \<Rightarrow> string list list \<Rightarrow> string list list" where
  "find_components adj [] visited comps = comps"
| "find_components adj (n # ns) visited comps =
     (if n \<in> visited then find_components adj ns visited comps
      else (case bfs_component adj n visited of
              (c, visited') \<Rightarrow> find_components adj ns visited' (comps @ [c])))"

section \<open>Correctness of the search\<close>

text \<open>
  The loop invariant: what is marked is what was marked before, what is listed and what is queued;
  listed nodes have all their neighbours marked; everything new is reachable from the start.
\<close>

lemma bfs_loop_spec:
  assumes "bfs_loop adj q V c = (cp, V')" and "V = W \<union> set c \<union> set q" and "distinct (c @ q)"
    and "(set c \<union> set q) \<inter> W = {}" and "\<And>u. u \<in> set c \<Longrightarrow> set (neighbors_of adj u) \<subseteq> V"
    and "\<And>v. v \<in> set c \<union> set q \<Longrightarrow> (s, v) \<in> (edges adj)\<^sup>*"
  shows "V' = W \<union> set cp \<and> distinct cp \<and> set cp \<inter> W = {} \<and> set c \<union> set q \<subseteq> set cp
    \<and> (\<forall>u \<in> set cp. set (neighbors_of adj u) \<subseteq> V') \<and> (\<forall>v \<in> set cp. (s, v) \<in> (edges adj)\<^sup>*)"
  using assms
proof (induction adj q V c rule: bfs_loop.induct)
  case (2 adj node queue V c)
  obtain V1 q1 where pu: "push_unvisited (neighbors_of adj node) V queue = (V1, q1)" by fastforce
  then obtain new where n: "q1 = queue @ new" "V1 = V \<union> set new" "set new = set (neighbors_of adj node) - V" "distinct new"
    using push_unvisited_spec by blast
  have r: "(s, v) \<in> (edges adj)\<^sup>*" if "v \<in> set new" for v
  proof -
    have "(node, v) \<in> edges adj" using that n by (simp add: edges_def)
    with "2.prems"(6) [of node] show ?thesis by (auto intro: rtrancl_into_rtrancl)
  qed
  have "set (c @ [node]) \<union> set q1 = set c \<union> set (node # queue) \<union> set new" by (auto simp: n)
  moreover have "V' = W \<union> set cp \<and> distinct cp \<and> set cp \<inter> W = {} \<and> set (c @ [node]) \<union> set q1 \<subseteq> set cp
      \<and> (\<forall>u \<in> set cp. set (neighbors_of adj u) \<subseteq> V') \<and> (\<forall>v \<in> set cp. (s, v) \<in> (edges adj)\<^sup>*)"
  proof (rule "2.IH" [OF pu [symmetric]])
    show "bfs_loop adj q1 V1 (c @ [node]) = (cp, V')" using "2.prems"(1) pu by simp
    show "V1 = W \<union> set (c @ [node]) \<union> set q1" using "2.prems"(2) n by auto
    show "distinct ((c @ [node]) @ q1)" using "2.prems"(2,3) n by auto
    show "(set (c @ [node]) \<union> set q1) \<inter> W = {}" using "2.prems"(2,4) n by auto
    show "set (neighbors_of adj u) \<subseteq> V1" if "u \<in> set (c @ [node])" for u
      using that "2.prems"(5) n by fastforce
    show "(s, v) \<in> (edges adj)\<^sup>*" if "v \<in> set (c @ [node]) \<union> set q1" for v
      using that "2.prems"(6) r n by auto
  qed
  ultimately show ?case by auto
qed auto

text \<open>A set closed under the edges of a symmetric graph cannot be entered from outside.\<close>

lemma closed_rtrancl: "(u, v) \<in> E\<^sup>* \<Longrightarrow> u \<in> S \<Longrightarrow> E `` S \<subseteq> S \<Longrightarrow> v \<in> S"
  by (induction rule: rtrancl_induct) auto

definition closed_in :: "adjacency \<Rightarrow> string set \<Rightarrow> bool" where
  "closed_in adj S \<longleftrightarrow> edges adj `` S \<subseteq> S"

lemma bfs_component_spec:
  assumes "bfs_component adj s W = (cp, V')" and "s \<notin> W" and "sym (edges adj)" and "closed_in adj W"
  shows "set cp = {v. (s, v) \<in> (edges adj)\<^sup>*} \<and> distinct cp \<and> V' = W \<union> set cp \<and> set cp \<inter> W = {}
    \<and> closed_in adj V'"
proof -
  have l: "V' = W \<union> set cp \<and> distinct cp \<and> set cp \<inter> W = {} \<and> set [] \<union> set [s] \<subseteq> set cp
      \<and> (\<forall>u \<in> set cp. set (neighbors_of adj u) \<subseteq> V') \<and> (\<forall>v \<in> set cp. (s, v) \<in> (edges adj)\<^sup>*)"
    using assms(1,2) by (intro bfs_loop_spec [where W = W and V = "insert s W"]) (simp_all add: bfs_component_def del: bfs_loop.simps)
  then have closed: "closed_in adj V'" using assms(4) by (auto simp: closed_in_def edges_def)
  have "v \<in> set cp" if "(s, v) \<in> (edges adj)\<^sup>*" for v
  proof -
    have "v \<in> V'" using closed_rtrancl [OF that] l closed by (auto simp: closed_in_def)
    moreover have "v \<notin> W"
    proof
      assume "v \<in> W"
      moreover have "(v, s) \<in> (edges adj)\<^sup>*" using that assms(3) by (meson sym_rtrancl symE)
      ultimately have "s \<in> W" using closed_rtrancl [of v s] assms(4) by (auto simp: closed_in_def)
      with assms(2) show False by simp
    qed
    ultimately show ?thesis using l by simp
  qed
  with l closed show ?thesis by auto
qed

definition components_ok :: "adjacency \<Rightarrow> string set \<Rightarrow> string list list \<Rightarrow> bool" where
  "components_ok adj N comps \<longleftrightarrow> distinct (concat comps) \<and> set (concat comps) = N \<and> [] \<notin> set comps
     \<and> (\<forall>c \<in> set comps. \<forall>u \<in> set c. set c = {v. (u, v) \<in> (edges adj)\<^sup>*})"

lemma components_ok_snoc:
  assumes "components_ok adj V comps" and "distinct c" and "set c \<inter> V = {}" and "c \<noteq> []"
    and "\<And>u. u \<in> set c \<Longrightarrow> set c = {v. (u, v) \<in> (edges adj)\<^sup>*}"
  shows "components_ok adj (V \<union> set c) (comps @ [c])"
proof -
  have "distinct (concat (comps @ [c]))" using assms(1-3) by (simp add: components_ok_def) blast
  moreover have "\<forall>d \<in> set (comps @ [c]). \<forall>u \<in> set d. set d = {v. (u, v) \<in> (edges adj)\<^sup>*}"
    using assms(1,5) by (simp add: components_ok_def)
  ultimately show ?thesis using assms(1,4) by (simp add: components_ok_def)
qed

lemma component_class:
  assumes "sym E" and "C = {v. (s, v) \<in> E\<^sup>*}" and "u \<in> C"
  shows "C = {v. (u, v) \<in> E\<^sup>*}"
proof -
  have "(s, u) \<in> E\<^sup>*" "(u, s) \<in> E\<^sup>*" using assms by (auto dest: symD [OF sym_rtrancl])
  with assms(2) show ?thesis by (auto intro: rtrancl_trans)
qed

lemma find_components_spec:
  assumes "sym (edges adj)" and "components_ok adj V comps" and "closed_in adj V"
  shows "\<exists>N. components_ok adj N (find_components adj ns V comps) \<and> V \<union> set ns \<subseteq> N
    \<and> N \<subseteq> {v. \<exists>u \<in> V \<union> set ns. (u, v) \<in> (edges adj)\<^sup>*}"
  using assms
proof (induction adj ns V comps rule: find_components.induct)
  case (2 adj n ns V comps)
  show ?case
  proof (cases "n \<in> V")
    case True
    with 2 obtain N where "components_ok adj N (find_components adj ns V comps)" "V \<union> set ns \<subseteq> N"
      "N \<subseteq> {v. \<exists>u \<in> V \<union> set ns. (u, v) \<in> (edges adj)\<^sup>*}" by blast
    with True show ?thesis by (intro exI [of _ N]) auto
  next
    case False
    obtain c V' where b: "bfs_component adj n V = (c, V')" by fastforce
    from bfs_component_spec [OF b False "2.prems"(1,3)]
    have c: "set c = {v. (n, v) \<in> (edges adj)\<^sup>*}" "distinct c" "V' = V \<union> set c" "set c \<inter> V = {}" "closed_in adj V'" by auto
    have "n \<in> set c" using c(1) by simp
    moreover have "set c = {v. (u, v) \<in> (edges adj)\<^sup>*}" if "u \<in> set c" for u
      using component_class [OF "2.prems"(1) c(1) that] .
    moreover from \<open>n \<in> set c\<close> have "c \<noteq> []" by auto
    ultimately have ok: "components_ok adj V' (comps @ [c])"
      using components_ok_snoc [OF "2.prems"(2) c(2,4)] c(3) by simp
    obtain N where N: "components_ok adj N (find_components adj ns V' (comps @ [c]))" "V' \<union> set ns \<subseteq> N"
      "N \<subseteq> {v. \<exists>u \<in> V' \<union> set ns. (u, v) \<in> (edges adj)\<^sup>*}"
      using "2.IH"(2) [OF False b [symmetric] "2.prems"(1) ok c(5)] by blast
    have "N \<subseteq> {v. \<exists>u \<in> V \<union> set (n # ns). (u, v) \<in> (edges adj)\<^sup>*}"
    proof
      fix v assume "v \<in> N"
      with N(3) obtain u where u: "u \<in> V \<union> set c \<union> set ns" "(u, v) \<in> (edges adj)\<^sup>*" using c(3) by auto
      show "v \<in> {v. \<exists>u \<in> V \<union> set (n # ns). (u, v) \<in> (edges adj)\<^sup>*}"
      proof (cases "u \<in> set c")
        case True
        then have "(n, v) \<in> (edges adj)\<^sup>*" using u(2) c(1) by (auto intro: rtrancl_trans)
        then show ?thesis by auto
      qed (use u in auto)
    qed
    with N(1,2) False b c(3) \<open>n \<in> set c\<close> show ?thesis by (intro exI [of _ N]) auto
  qed
qed auto

section \<open>Betweenness\<close>

text \<open>What the code uses of \<^verbatim>\<open>f64\<close>; \<open>f_gt\<close> is the strict comparison that the sorts and thresholds use.\<close>

record 'f f64_ops =
  f_zero :: 'f
  f_one :: 'f
  f_two :: 'f
  f_half :: 'f
  f_dense :: 'f
  f_reach :: 'f
  f_add :: "'f \<Rightarrow> 'f \<Rightarrow> 'f"
  f_sub :: "'f \<Rightarrow> 'f \<Rightarrow> 'f"
  f_mul :: "'f \<Rightarrow> 'f \<Rightarrow> 'f"
  f_div :: "'f \<Rightarrow> 'f \<Rightarrow> 'f"
  f_of_nat :: "nat \<Rightarrow> 'f"
  f_gt :: "'f \<Rightarrow> 'f \<Rightarrow> bool"

text \<open>The maps of one source \<^verbatim>\<open>s\<close> of Brandes' algorithm.\<close>

record 'f brandes =
  br_stack :: "string list"
  br_queue :: "string list"
  br_pred :: "string \<rightharpoonup> string list"
  br_sigma :: "string \<rightharpoonup> 'f"
  br_dist :: "string \<rightharpoonup> int"

definition brandes_init :: "'f f64_ops \<Rightarrow> string list \<Rightarrow> string \<Rightarrow> 'f brandes" where
  "brandes_init F nodes s =
     \<lparr>br_stack = [], br_queue = [s],
      br_pred = (\<lambda>n. if n \<in> set nodes then Some [] else None),
      br_sigma = (\<lambda>n. if n \<in> set nodes then Some (f_zero F) else None)(s \<mapsto> f_one F),
      br_dist = (\<lambda>n. if n \<in> set nodes then Some (- 1) else None)(s \<mapsto> 0)\<rparr>"

definition visit_edge :: "'f f64_ops \<Rightarrow> string \<Rightarrow> int \<Rightarrow> string \<Rightarrow> 'f brandes \<Rightarrow> 'f brandes outcome" where
  "visit_edge F v d_v w st =
     bind_outcome (unwrap (br_dist st w)) (\<lambda>d.
       let st1 = (if d < 0 then st\<lparr>br_dist := (br_dist st)(w \<mapsto> d_v + 1), br_queue := br_queue st @ [w]\<rparr> else st)
       in if br_dist st1 w = Some (d_v + 1) then
            bind_outcome (unwrap (br_sigma st1 v)) (\<lambda>sv.
            bind_outcome (unwrap (br_sigma st1 w)) (\<lambda>sw.
            bind_outcome (unwrap (br_pred st1 w)) (\<lambda>ps.
              Ret (st1\<lparr>br_sigma := (br_sigma st1)(w \<mapsto> f_add F sw sv), br_pred := (br_pred st1)(w \<mapsto> ps @ [v])\<rparr>))))
          else Ret st1)"

fun visit_edges :: "'f f64_ops \<Rightarrow> string \<Rightarrow> int \<Rightarrow> string list \<Rightarrow> 'f brandes \<Rightarrow> 'f brandes outcome" where
  "visit_edges F v d_v [] st = Ret st"
| "visit_edges F v d_v (w # ws) st = bind_outcome (visit_edge F v d_v w st) (visit_edges F v d_v ws)"

text \<open>
  The search loop, with as much fuel as there are nodes: each round moves one node from the queue to
  the stack, and no node is queued twice (\<open>brandes_forward_ret\<close>).
\<close>

fun brandes_forward :: "'f f64_ops \<Rightarrow> adjacency \<Rightarrow> nat \<Rightarrow> 'f brandes \<Rightarrow> 'f brandes outcome" where
  "brandes_forward F adj fuel st =
     (case br_queue st of
        [] \<Rightarrow> Ret st
      | v # q \<Rightarrow>
          (case fuel of
             0 \<Rightarrow> Panic
           | Suc k \<Rightarrow>
               let st1 = st\<lparr>br_queue := q, br_stack := br_stack st @ [v]\<rparr>
               in bind_outcome (unwrap (br_dist st1 v)) (\<lambda>d_v.
                  bind_outcome (visit_edges F v d_v (neighbors_of adj v) st1) (\<lambda>st2.
                  brandes_forward F adj k st2))))"

declare brandes_forward.simps [simp del]

text \<open>The dependency of one predecessor, of all predecessors of a node, and the unwinding of the stack.\<close>

fun add_deltas :: "'f f64_ops \<Rightarrow> (string \<rightharpoonup> 'f) \<Rightarrow> string \<Rightarrow> string list \<Rightarrow> (string \<rightharpoonup> 'f) \<Rightarrow> (string \<rightharpoonup> 'f) outcome" where
  "add_deltas F sigma w [] delta = Ret delta"
| "add_deltas F sigma w (v # vs) delta =
     bind_outcome (unwrap (sigma v)) (\<lambda>sv.
     bind_outcome (unwrap (sigma w)) (\<lambda>sw.
     bind_outcome (unwrap (delta w)) (\<lambda>dw.
     bind_outcome (unwrap (delta v)) (\<lambda>dv.
       add_deltas F sigma w vs (delta(v \<mapsto> f_add F dv (f_mul F (f_div F sv sw) (f_add F (f_one F) dw))))))))"

fun brandes_back :: "'f f64_ops \<Rightarrow> string \<Rightarrow> 'f brandes \<Rightarrow> string list \<Rightarrow> (string \<rightharpoonup> 'f) \<Rightarrow> (string \<times> 'f) list
    \<Rightarrow> (string \<times> 'f) list outcome" where
  "brandes_back F s st [] delta bt = Ret bt"
| "brandes_back F s st (w # ws) delta bt =
     bind_outcome (unwrap (br_pred st w)) (\<lambda>ps.
     bind_outcome (add_deltas F (br_sigma st) w ps delta) (\<lambda>delta1.
       if w \<noteq> s then
         bind_outcome (unwrap (map_of bt w)) (\<lambda>b.
         bind_outcome (unwrap (delta1 w)) (\<lambda>dw.
           brandes_back F s st ws delta1 (AList.update w (f_add F b dw) bt)))
       else brandes_back F s st ws delta1 bt))"

definition brandes_source :: "'f f64_ops \<Rightarrow> string list \<Rightarrow> adjacency \<Rightarrow> string \<Rightarrow> (string \<times> 'f) list \<Rightarrow> (string \<times> 'f) list outcome" where
  "brandes_source F nodes adj s bt =
     bind_outcome (brandes_forward F adj (length nodes) (brandes_init F nodes s)) (\<lambda>st.
       brandes_back F s st (rev (br_stack st)) (\<lambda>n. if n \<in> set nodes then Some (f_zero F) else None) bt)"

fun brandes_sources :: "'f f64_ops \<Rightarrow> string list \<Rightarrow> adjacency \<Rightarrow> string list \<Rightarrow> (string \<times> 'f) list \<Rightarrow> (string \<times> 'f) list outcome" where
  "brandes_sources F nodes adj [] bt = Ret bt"
| "brandes_sources F nodes adj (s # ss) bt =
     bind_outcome (brandes_source F nodes adj s bt) (brandes_sources F nodes adj ss)"

definition compute_betweenness :: "'f f64_ops \<Rightarrow> string list \<Rightarrow> adjacency \<Rightarrow> (string \<times> 'f) list outcome" where
  "compute_betweenness F nodes adj =
     bind_outcome (brandes_sources F nodes adj nodes (map (\<lambda>n. (n, f_zero F)) nodes)) (\<lambda>bt.
       Ret (map (\<lambda>(k, v). (k, f_div F v (f_two F))) bt))"

section \<open>Betweenness never panics\<close>

definition brandes_wf :: "string list \<Rightarrow> 'f brandes \<Rightarrow> bool" where
  "brandes_wf nodes st \<longleftrightarrow>
     (\<forall>n \<in> set nodes. br_dist st n \<noteq> None \<and> br_sigma st n \<noteq> None)
     \<and> (\<forall>n \<in> set nodes. \<exists>ps. br_pred st n = Some ps \<and> set ps \<subseteq> set nodes)
     \<and> distinct (br_stack st @ br_queue st) \<and> set (br_stack st @ br_queue st) \<subseteq> set nodes
     \<and> (\<forall>n d. br_dist st n = Some d \<longrightarrow> (0 \<le> d \<longleftrightarrow> n \<in> set (br_stack st @ br_queue st)))"

lemma visit_edge_ret:
  assumes "brandes_wf nodes st" and "v \<in> set nodes" and "w \<in> set nodes" and "0 \<le> d_v"
  shows "\<exists>st'. visit_edge F v d_v w st = Ret st' \<and> brandes_wf nodes st' \<and> br_stack st' = br_stack st"
proof -
  obtain d sv sw ps where m: "br_dist st w = Some d" "br_sigma st v = Some sv" "br_sigma st w = Some sw" "br_pred st w = Some ps"
    using assms(1-3) unfolding brandes_wf_def by (metis not_None_eq)
  define st1 where "st1 = (if d < 0 then st\<lparr>br_dist := (br_dist st)(w \<mapsto> d_v + 1), br_queue := br_queue st @ [w]\<rparr> else st)"
  have "0 \<le> d \<longleftrightarrow> w \<in> set (br_stack st @ br_queue st)" using assms(1) m(1) by (simp add: brandes_wf_def)
  then have w1: "brandes_wf nodes st1"
    using assms unfolding st1_def brandes_wf_def by auto
  have s1: "br_stack st1 = br_stack st" "br_sigma st1 = br_sigma st" "br_pred st1 = br_pred st" by (simp_all add: st1_def)
  show ?thesis
  proof (cases "br_dist st1 w = Some (d_v + 1)")
    case True
    let ?st2 = "st1\<lparr>br_sigma := (br_sigma st1)(w \<mapsto> f_add F sw sv), br_pred := (br_pred st1)(w \<mapsto> ps @ [v])\<rparr>"
    have "visit_edge F v d_v w st = Ret ?st2"
      using True m s1 by (simp add: visit_edge_def Let_def st1_def [symmetric])
    moreover have "\<exists>ps. br_pred st w = Some ps \<and> set ps \<subseteq> set nodes" using assms(1,3) unfolding brandes_wf_def by blast
    then have "set ps \<subseteq> set nodes" using m(4) by simp
    then have "brandes_wf nodes ?st2" using w1 assms(2) unfolding brandes_wf_def by auto
    ultimately show ?thesis using s1 by auto
  next
    case False
    then have "visit_edge F v d_v w st = Ret st1" using m by (simp add: visit_edge_def Let_def st1_def [symmetric])
    with w1 s1 show ?thesis by auto
  qed
qed

lemma visit_edges_ret:
  assumes "brandes_wf nodes st" and "v \<in> set nodes" and "set ws \<subseteq> set nodes" and "0 \<le> d_v"
  shows "\<exists>st'. visit_edges F v d_v ws st = Ret st' \<and> brandes_wf nodes st' \<and> br_stack st' = br_stack st"
  using assms
proof (induction ws arbitrary: st)
  case (Cons w ws)
  then obtain st1 where "visit_edge F v d_v w st = Ret st1" "brandes_wf nodes st1" "br_stack st1 = br_stack st"
    using visit_edge_ret [of nodes st v w d_v F] by auto
  with Cons.IH [of st1] Cons.prems show ?case by simp
qed simp

lemma brandes_forward_ret:
  assumes "brandes_wf nodes st" and "\<And>u. set (neighbors_of adj u) \<subseteq> set nodes"
    and "length nodes \<le> length (br_stack st) + fuel"
  shows "\<exists>st'. brandes_forward F adj fuel st = Ret st' \<and> brandes_wf nodes st'"
  using assms(1,3)
proof (induction fuel arbitrary: st)
  case 0
  have "br_queue st = []"
  proof (rule ccontr)
    assume "br_queue st \<noteq> []"
    then have "length (br_stack st) < length (br_stack st @ br_queue st)" by simp
    also have "\<dots> = card (set (br_stack st @ br_queue st))" using 0 by (simp only: brandes_wf_def distinct_card)
    also have "\<dots> \<le> card (set nodes)" using 0 unfolding brandes_wf_def by (intro card_mono) blast+
    also have "\<dots> \<le> length nodes" by (rule card_length)
    finally show False using 0 by simp
  qed
  with 0 show ?case by (simp add: brandes_forward.simps)
next
  case (Suc k)
  show ?case
  proof (cases "br_queue st")
    case Nil
    with Suc show ?thesis by (simp add: brandes_forward.simps)
  next
    case (Cons v q)
    let ?st1 = "st\<lparr>br_queue := q, br_stack := br_stack st @ [v]\<rparr>"
    have w1: "brandes_wf nodes ?st1" using Suc.prems(1) Cons by (auto simp: brandes_wf_def)
    have v: "v \<in> set nodes" using Suc.prems(1) Cons by (simp add: brandes_wf_def)
    obtain d where d: "br_dist ?st1 v = Some d" using w1 v unfolding brandes_wf_def by blast
    then have "0 \<le> d" using w1 unfolding brandes_wf_def by simp
    then obtain st2 where st2: "visit_edges F v d (neighbors_of adj v) ?st1 = Ret st2" "brandes_wf nodes st2"
      "br_stack st2 = br_stack st @ [v]"
      using visit_edges_ret [OF w1 v assms(2)] by fastforce
    moreover have "length nodes \<le> length (br_stack st2) + k" using Suc.prems(2) st2(3) by simp
    ultimately show ?thesis using Suc.IH [of st2] Cons d by (simp add: brandes_forward.simps [of F adj "Suc k"] Let_def)
  qed
qed

lemma add_deltas_ret:
  assumes "set ps \<subseteq> N" and "w \<in> N" and "\<And>n. n \<in> N \<Longrightarrow> sigma n \<noteq> None" and "\<And>n. n \<in> N \<Longrightarrow> delta n \<noteq> None"
  shows "\<exists>delta'. add_deltas F sigma w ps delta = Ret delta' \<and> (\<forall>n \<in> N. delta' n \<noteq> None)"
  using assms
proof (induction ps arbitrary: delta)
  case (Cons v vs)
  then obtain sv sw dw dv where "sigma v = Some sv" "sigma w = Some sw" "delta w = Some dw" "delta v = Some dv"
    by (metis list.set_intros(1) not_Some_eq subsetD)
  with Cons show ?case by simp
qed simp

lemma brandes_back_ret:
  assumes "brandes_wf nodes st" and "set ws \<subseteq> set nodes" and "\<And>n. n \<in> set nodes \<Longrightarrow> delta n \<noteq> None"
    and "map fst bt = nodes"
  shows "\<exists>bt'. brandes_back F s st ws delta bt = Ret bt' \<and> map fst bt' = nodes"
  using assms(2-4)
proof (induction ws arbitrary: delta bt)
  case (Cons w ws)
  then have w: "w \<in> set nodes" by simp
  obtain ps where ps: "br_pred st w = Some ps" "set ps \<subseteq> set nodes" using assms(1) w by (auto simp: brandes_wf_def)
  obtain delta1 where d: "add_deltas F (br_sigma st) w ps delta = Ret delta1" "\<forall>n \<in> set nodes. delta1 n \<noteq> None"
    using add_deltas_ret [of ps "set nodes" w "br_sigma st" delta F] ps(2) w Cons.prems(2) assms(1)
    by (auto simp: brandes_wf_def)
  obtain b dw where b: "map_of bt w = Some b" "delta1 w = Some dw"
    using w d(2) Cons.prems(3) by (metis (no_types) list.set_map map_of_eq_None_iff not_None_eq)
  have "map fst (AList.update w x bt) = nodes" for x
    using w Cons.prems(3) by (auto simp: update_keys)
  with Cons ps(1) d b show ?case by simp
qed simp

lemma compute_betweenness_ret:
  assumes "distinct nodes" and "\<And>u. set (neighbors_of adj u) \<subseteq> set nodes"
  shows "\<exists>bt. compute_betweenness F nodes adj = Ret bt \<and> map fst bt = nodes"
proof -
  have one: "\<exists>bt'. brandes_source F nodes adj s bt = Ret bt' \<and> map fst bt' = nodes"
    if "s \<in> set nodes" "map fst bt = nodes" for s bt
  proof -
    have "brandes_wf nodes (brandes_init F nodes s)" using that(1) by (auto simp: brandes_wf_def brandes_init_def)
    then obtain st where st: "brandes_forward F adj (length nodes) (brandes_init F nodes s) = Ret st" "brandes_wf nodes st"
      using brandes_forward_ret [of nodes "brandes_init F nodes s" adj "length nodes" F] assms(2) by auto
    then have "set (rev (br_stack st)) \<subseteq> set nodes" by (simp add: brandes_wf_def)
    from brandes_back_ret [OF st(2) this _ that(2), of "\<lambda>n. if n \<in> set nodes then Some (f_zero F) else None" F s]
    show ?thesis using st(1) by (simp add: brandes_source_def)
  qed
  have "\<exists>bt'. brandes_sources F nodes adj ss bt = Ret bt' \<and> map fst bt' = nodes"
    if "set ss \<subseteq> set nodes" "map fst bt = nodes" for ss bt
    using that
  proof (induction ss arbitrary: bt)
    case (Cons s ss)
    with one [of s bt] show ?case by auto
  qed simp
  from this [of nodes "map (\<lambda>n. (n, f_zero F)) nodes"]
  obtain bt where "brandes_sources F nodes adj nodes (map (\<lambda>n. (n, f_zero F)) nodes) = Ret bt" "map fst bt = nodes"
    by (auto simp: comp_def)
  then show ?thesis by (auto simp: compute_betweenness_def comp_def case_prod_beta)
qed

section \<open>Suggestions\<close>

text \<open>A stable sort in descending order of a key.\<close>

fun insert_desc :: "('f \<Rightarrow> 'f \<Rightarrow> bool) \<Rightarrow> ('a \<Rightarrow> 'f) \<Rightarrow> 'a \<Rightarrow> 'a list \<Rightarrow> 'a list" where
  "insert_desc gt key x [] = [x]"
| "insert_desc gt key x (y # ys) = (if gt (key y) (key x) then y # insert_desc gt key x ys else x # y # ys)"

definition sort_desc :: "('f \<Rightarrow> 'f \<Rightarrow> bool) \<Rightarrow> ('a \<Rightarrow> 'f) \<Rightarrow> 'a list \<Rightarrow> 'a list" where
  "sort_desc gt key xs = foldr (insert_desc gt key) xs []"

definition top_betweenness :: "'f f64_ops \<Rightarrow> (string \<times> 'f) list \<Rightarrow> string set \<Rightarrow> nat \<Rightarrow> string list" where
  "top_betweenness F bt exclude n =
     map fst (take n (sort_desc (f_gt F) snd (filter (\<lambda>(k, v). k \<notin> exclude) bt)))"

record 'f peer_suggestion =
  ps_target_node_id :: string
  ps_suggested_peers :: "string list"
  ps_reason :: string
  ps_isolation_score :: 'f

record 'f topology_analysis =
  ta_suggestions :: "'f peer_suggestion list"
  ta_node_betweenness :: "(string \<times> 'f) list"
  ta_timestamp :: u64

text \<open>\<^verbatim>\<open>max_by_key\<close> keeps the last of equal maxima.\<close>

fun largest_from :: "string list list \<Rightarrow> nat \<Rightarrow> nat \<Rightarrow> nat \<Rightarrow> nat" where
  "largest_from [] i best len = best"
| "largest_from (c # cs) i best len =
     (if len \<le> length c then largest_from cs (Suc i) i (length c) else largest_from cs (Suc i) best len)"

definition largest_idx :: "string list list \<Rightarrow> nat" where
  "largest_idx comps = largest_from comps 0 0 0"

text \<open>The suggestions for the members of a component that is not the largest.\<close>

definition clique_suggestions :: "'f f64_ops \<Rightarrow> (string \<times> 'f) list \<Rightarrow> string list \<Rightarrow> string list \<Rightarrow> 'f peer_suggestion list" where
  "clique_suggestions F bt main component =
     (let suggested = top_betweenness F (filter (\<lambda>(k, v). k \<in> set main) bt) (set component) 3
      in map (\<lambda>n. \<lparr>ps_target_node_id = n, ps_suggested_peers = suggested, ps_reason = ''isolated_clique'',
                   ps_isolation_score = f_one F\<rparr>) component)"

fun edges_among :: "adjacency \<Rightarrow> string list \<Rightarrow> nat" where
  "edges_among adj [] = 0"
| "edges_among adj (x # xs) = length (filter (\<lambda>y. y \<in> set (neighbors_of adj x)) xs) + edges_among adj xs"

definition two_hop :: "adjacency \<Rightarrow> string \<Rightarrow> string list" where
  "two_hop adj n =
     (let ns = neighbors_of adj n
      in remdups (filter (\<lambda>m. m \<noteq> n \<and> m \<notin> set ns) (concat (map (neighbors_of adj) ns))))"

definition main_suggestion :: "'f f64_ops \<Rightarrow> adjacency \<Rightarrow> (string \<times> 'f) list \<Rightarrow> nat \<Rightarrow> string \<Rightarrow> 'f peer_suggestion option" where
  "main_suggestion F adj bt total_known n =
     (let ns = neighbors_of adj n; cnt = length ns; exclude = insert n (set ns);
          suggest = (\<lambda>why score. Some \<lparr>ps_target_node_id = n, ps_suggested_peers = top_betweenness F bt exclude 3,
            ps_reason = why, ps_isolation_score = score\<rparr>)
      in if cnt < 2 then suggest ''low_connectivity'' (if cnt = 0 then f_one F else f_half F)
         else
           let max_edges = cnt * (cnt - 1) div 2;
               density = (if 0 < max_edges then f_div F (f_of_nat F (edges_among adj ns)) (f_of_nat F max_edges) else f_zero F);
               reach = (if 1 < total_known then f_div F (f_of_nat F (length (two_hop adj n))) (f_of_nat F (total_known - 1)) else f_zero F);
               score = f_mul F density (f_sub F (f_one F) reach)
           in if f_gt F density (f_dense F) \<and> f_gt F (f_reach F) reach then suggest ''isolated_clique'' score else None)"

definition analyze_topology :: "'f f64_ops \<Rightarrow> u64 \<Rightarrow> swarm_snapshot \<Rightarrow> 'f topology_analysis outcome" where
  "analyze_topology F now snap =
     (let nodes = active_ids snap; adj = build_adj snap
      in if nodes = [] then Ret \<lparr>ta_suggestions = [], ta_node_betweenness = [], ta_timestamp = now\<rparr>
         else
           let comps = find_components adj nodes {} []; k = largest_idx comps
           in if length comps \<le> k then Panic
              else
                bind_outcome (compute_betweenness F nodes adj) (\<lambda>bt.
                  let main = comps ! k;
                      others = concat (map (\<lambda>i. if i = k then [] else clique_suggestions F bt main (comps ! i)) [0..<length comps]);
                      own = List.map_filter (main_suggestion F adj bt (length nodes)) main
                  in Ret \<lparr>ta_suggestions = sort_desc (f_gt F) ps_isolation_score (others @ own),
                          ta_node_betweenness = sort_desc (f_gt F) snd bt, ta_timestamp = now\<rparr>))"

section \<open>Lemmas on the analysis\<close>

lemma set_insert_desc: "set (insert_desc gt key x ys) = insert x (set ys)"
  by (induction ys) auto

lemma set_sort_desc [simp]: "set (sort_desc gt key xs) = set xs"
  unfolding sort_desc_def by (induction xs) (simp_all add: set_insert_desc)

lemma top_betweenness_spec:
  "length (top_betweenness F bt ex n) \<le> n \<and> set (top_betweenness F bt ex n) \<subseteq> fst ` set bt - ex"
proof -
  have "set (take n (sort_desc (f_gt F) snd (filter (\<lambda>(k, v). k \<notin> ex) bt))) \<subseteq> set (filter (\<lambda>(k, v). k \<notin> ex) bt)"
    using set_take_subset by fastforce
  then show ?thesis by (auto simp: top_betweenness_def)
qed

lemma largest_from_bound: "largest_from cs i best len = best \<or> largest_from cs i best len < i + length cs"
proof (induction cs i best len rule: largest_from.induct)
  case (2 c cs i best len)
  then show ?case by (cases "len \<le> length c") auto
qed simp

lemma largest_idx_bound: "comps \<noteq> [] \<Longrightarrow> largest_idx comps < length comps"
  using largest_from_bound [of comps 0 0 0] by (auto simp: largest_idx_def)

lemma neighbors_extend:
  "set (neighbors_of (adj_extend u vs adj) w) = (if w = u then set (neighbors_of adj u) \<union> set vs else set (neighbors_of adj w))"
proof -
  have "set (foldl set_insert xs vs) = set xs \<union> set vs" for xs
    by (induction vs arbitrary: xs) (auto simp: set_insert_def)
  then show ?thesis by (auto simp: neighbors_of_def adj_extend_def update_conv')
qed

lemma edges_extend: "edges (adj_extend u vs adj) = edges adj \<union> {u} \<times> set vs"
  by (auto simp: edges_def neighbors_extend split: if_splits)

lemma edges_fold_extend: "edges (foldl (\<lambda>A n. adj_extend n [p] A) adj ns) = edges adj \<union> set ns \<times> {p}"
  by (induction ns arbitrary: adj) (auto simp: edges_extend)

lemma edges_add_peer:
  "edges (add_peer_edges active adj p) = edges adj
     \<union> (set (p_neighbors p) \<inter> set active) \<times> {p_node_id p} \<union> {p_node_id p} \<times> (set (p_neighbors p) \<inter> set active)"
  by (auto simp: add_peer_edges_def edges_extend edges_fold_extend Let_def)

text \<open>The graph: two active peers are joined when one of them lists the other.\<close>

lemma edges_build:
  "edges (build_adj snap) = {(u, v). u \<in> set (active_ids snap) \<and> v \<in> set (active_ids snap)
     \<and> (\<exists>p \<in> set (sn_peers snap). \<not> p_stale p \<and> (p_node_id p = u \<and> v \<in> set (p_neighbors p) \<or> p_node_id p = v \<and> u \<in> set (p_neighbors p)))}"
proof -
  have "edges (foldl (add_peer_edges A) adj ps) = edges adj \<union> (\<Union>p \<in> set ps. (set (p_neighbors p) \<inter> set A) \<times> {p_node_id p}
      \<union> {p_node_id p} \<times> (set (p_neighbors p) \<inter> set A))" for A adj ps
    by (induction ps arbitrary: adj) (auto simp: edges_add_peer)
  moreover have "edges [] = {}" by (simp add: edges_def neighbors_of_def)
  ultimately show ?thesis by (auto simp: build_adj_def active_ids_def)
qed

lemma sym_build: "sym (edges (build_adj snap))"
  by (rule symI) (auto simp: edges_build)

lemma neighbors_active: "set (neighbors_of (build_adj snap) u) \<subseteq> set (active_ids snap)"
  using edges_build [of snap] by (auto simp: edges_def)

lemma components_build:
  "components_ok (build_adj snap) (set (active_ids snap)) (find_components (build_adj snap) (active_ids snap) {} [])"
proof -
  let ?E = "edges (build_adj snap)" and ?N = "set (active_ids snap)"
  obtain N where N: "components_ok (build_adj snap) N (find_components (build_adj snap) (active_ids snap) {} [])"
    "?N \<subseteq> N" "N \<subseteq> {v. \<exists>u \<in> ?N. (u, v) \<in> ?E\<^sup>*}"
    using find_components_spec [OF sym_build [of snap], of "{}" "[]" "active_ids snap"]
    by (auto simp: components_ok_def closed_in_def)
  have "?E `` ?N \<subseteq> ?N" using neighbors_active [of snap] by (auto simp: edges_def)
  with N(3) have "N \<subseteq> ?N" using closed_rtrancl [where E = ?E and S = ?N] by blast
  with N(1,2) show ?thesis by (metis subset_antisym)
qed

definition suggestion_useful :: "swarm_snapshot \<Rightarrow> 'f peer_suggestion \<Rightarrow> bool" where
  "suggestion_useful snap g \<longleftrightarrow>
     ps_target_node_id g \<in> set (active_ids snap) \<and> length (ps_suggested_peers g) \<le> 3
     \<and> set (ps_suggested_peers g) \<subseteq> set (active_ids snap) - {ps_target_node_id g}
     \<and> (\<forall>v \<in> set (ps_suggested_peers g). (ps_target_node_id g, v) \<notin> edges (build_adj snap))"

lemma main_suggestion_useful:
  assumes "main_suggestion F (build_adj snap) bt t n = Some g" and "n \<in> set (active_ids snap)" and "fst ` set bt = set (active_ids snap)"
  shows "suggestion_useful snap g \<and> ps_target_node_id g = n"
proof -
  have g: "ps_target_node_id g = n"
    "ps_suggested_peers g = top_betweenness F bt (insert n (set (neighbors_of (build_adj snap) n))) 3"
    using assms(1) by (auto simp: main_suggestion_def Let_def split: if_splits)
  have "length (ps_suggested_peers g) \<le> 3"
    "set (ps_suggested_peers g) \<subseteq> set (active_ids snap) - insert n (set (neighbors_of (build_adj snap) n))"
    using top_betweenness_spec [of F bt "insert n (set (neighbors_of (build_adj snap) n))" 3] assms(3) g(2) by simp_all
  with g(1) assms(2) show ?thesis by (auto simp: suggestion_useful_def edges_def)
qed

lemma clique_suggestions_useful:
  assumes "g \<in> set (clique_suggestions F bt main c)" and "fst ` set bt = set (active_ids snap)"
    and "components_ok (build_adj snap) (set (active_ids snap)) comps" and "c \<in> set comps"
  shows "suggestion_useful snap g"
proof -
  let ?n = "ps_target_node_id g"
  let ?bt = "filter (\<lambda>(k, v). k \<in> set main) bt"
  have g: "?n \<in> set c" "ps_suggested_peers g = top_betweenness F ?bt (set c) 3"
    using assms(1) by (auto simp: clique_suggestions_def Let_def)
  have "set (ps_suggested_peers g) \<subseteq> fst ` set ?bt - set c" "length (ps_suggested_peers g) \<le> 3"
    using top_betweenness_spec [of F ?bt "set c" 3] g(2) by simp_all
  moreover have "fst ` set ?bt \<subseteq> set (active_ids snap)" using assms(2) by auto
  moreover have "?n \<in> set (active_ids snap)" "set c = {v. (?n, v) \<in> (edges (build_adj snap))\<^sup>*}"
    using assms(3,4) g(1) by (auto simp: components_ok_def)
  ultimately show ?thesis using g(1) by (auto simp: suggestion_useful_def)
qed

lemma set_map_filter_eq: "set (List.map_filter f xs) = {y. \<exists>x \<in> set xs. f x = Some y}"
  by (force simp: List.map_filter_def)

lemma analyze_topology_ret:
  assumes "active_ids snap \<noteq> []"
  obtains bt comps k where "compute_betweenness F (active_ids snap) (build_adj snap) = Ret bt"
    "fst ` set bt = set (active_ids snap)" "components_ok (build_adj snap) (set (active_ids snap)) comps" "k < length comps"
    "\<exists>ta. analyze_topology F now snap = Ret ta \<and> set (ta_suggestions ta)
      = (\<Union>i \<in> {0..<length comps} - {k}. set (clique_suggestions F bt (comps ! k) (comps ! i)))
        \<union> {g. \<exists>n \<in> set (comps ! k). main_suggestion F (build_adj snap) bt (length (active_ids snap)) n = Some g}"
proof -
  let ?adj = "build_adj snap" and ?nodes = "active_ids snap"
  let ?comps = "find_components ?adj ?nodes {} []"
  have "distinct ?nodes" by (simp add: active_ids_def)
  then obtain bt where bt: "compute_betweenness F ?nodes ?adj = Ret bt" "map fst bt = ?nodes"
    using compute_betweenness_ret [of ?nodes ?adj F] neighbors_active [of snap] by blast
  have c: "components_ok ?adj (set ?nodes) ?comps" by (rule components_build)
  with assms have "?comps \<noteq> []" by (auto simp: components_ok_def)
  then have k: "largest_idx ?comps < length ?comps" by (rule largest_idx_bound)
  have "fst ` set bt = set ?nodes" by (metis bt(2) list.set_map)
  moreover define others where "others = concat (map (\<lambda>i. if i = largest_idx ?comps then []
      else clique_suggestions F bt (?comps ! largest_idx ?comps) (?comps ! i)) [0..<length ?comps])"
  moreover define own where "own = List.map_filter (main_suggestion F ?adj bt (length ?nodes)) (?comps ! largest_idx ?comps)"
  ultimately have "analyze_topology F now snap = Ret \<lparr>ta_suggestions = sort_desc (f_gt F) ps_isolation_score (others @ own),
      ta_node_betweenness = sort_desc (f_gt F) snd bt, ta_timestamp = now\<rparr>"
    using assms bt(1) k by (simp add: analyze_topology_def Let_def)
  moreover have "set others = (\<Union>i \<in> {0..<length ?comps} - {largest_idx ?comps}.
      set (clique_suggestions F bt (?comps ! largest_idx ?comps) (?comps ! i)))"
    unfolding others_def set_concat set_map by (force split: if_splits)
  moreover have "set own = {g. \<exists>n \<in> set (?comps ! largest_idx ?comps). main_suggestion F ?adj bt (length ?nodes) n = Some g}"
    unfolding own_def by (rule set_map_filter_eq)
  ultimately have "\<exists>ta. analyze_topology F now snap = Ret ta \<and> set (ta_suggestions ta)
      = (\<Union>i \<in> {0..<length ?comps} - {largest_idx ?comps}. set (clique_suggestions F bt (?comps ! largest_idx ?comps) (?comps ! i)))
        \<union> {g. \<exists>n \<in> set (?comps ! largest_idx ?comps). main_suggestion F ?adj bt (length ?nodes) n = Some g}"
    by simp
  then show thesis using that [OF bt(1) _ c k] \<open>fst ` set bt = set ?nodes\<close> by blast
qed

lemma analyze_topology_useful:
  "\<exists>ta. analyze_topology F now snap = Ret ta \<and> (\<forall>g \<in> set (ta_suggestions ta). suggestion_useful snap g)
     \<and> (\<forall>n \<in> set (active_ids snap). length (neighbors_of (build_adj snap) n) < 2 \<longrightarrow>
          n \<in> ps_target_node_id ` set (ta_suggestions ta))"
proof (cases "active_ids snap = []")
  case True
  then show ?thesis by (simp add: analyze_topology_def Let_def)
next
  case False
  obtain bt comps k ta where a: "fst ` set bt = set (active_ids snap)"
    "components_ok (build_adj snap) (set (active_ids snap)) comps" "k < length comps"
    "analyze_topology F now snap = Ret ta"
    "set (ta_suggestions ta) = (\<Union>i \<in> {0..<length comps} - {k}. set (clique_suggestions F bt (comps ! k) (comps ! i)))
      \<union> {g. \<exists>n \<in> set (comps ! k). main_suggestion F (build_adj snap) bt (length (active_ids snap)) n = Some g}"
    by (rule analyze_topology_ret [OF False, of F now]) blast
  have main: "set (comps ! k) \<subseteq> set (active_ids snap)" using a(2,3) by (auto simp: components_ok_def)
  have "suggestion_useful snap g" if "g \<in> set (ta_suggestions ta)" for g
    using that main_suggestion_useful [OF _ _ a(1)] clique_suggestions_useful [OF _ a(1,2)] main
    unfolding a(5) by (auto dest: nth_mem)
  moreover have "n \<in> ps_target_node_id ` set (ta_suggestions ta)"
    if n: "n \<in> set (active_ids snap)" "length (neighbors_of (build_adj snap) n) < 2" for n
  proof -
    from n(1) a(2) obtain i where i: "i < length comps" "n \<in> set (comps ! i)"
      unfolding components_ok_def by (metis (no_types, lifting) UN_E in_set_conv_nth set_concat)
    show ?thesis
    proof (cases "i = k")
      case True
      obtain g where "main_suggestion F (build_adj snap) bt (length (active_ids snap)) n = Some g" "ps_target_node_id g = n"
        using n(2) by (simp add: main_suggestion_def Let_def)
      with True i(2) show ?thesis unfolding a(5) by force
    next
      case False
      obtain g where "g \<in> set (clique_suggestions F bt (comps ! k) (comps ! i))" "ps_target_node_id g = n"
        using i(2) by (force simp: clique_suggestions_def Let_def)
      with False i(1) show ?thesis unfolding a(5) by force
    qed
  qed
  ultimately show ?thesis using a(4) by blast
qed

section \<open>Properties\<close>

text \<open>C31. The search finds the connected components: on the graph of any snapshot, the components that the
  loop of breadth-first searches returns partition the active peers, and each is exactly the set of
  peers reachable from any of its members.\<close>

theorem components_are_connected_components:
  "let comps = find_components (build_adj snap) (active_ids snap) {} [] in
     distinct (concat comps) \<and> set (concat comps) = set (active_ids snap)
     \<and> (\<forall>c \<in> set comps. c \<noteq> [] \<and> (\<forall>u \<in> set c. set c = {v. (u, v) \<in> (edges (build_adj snap))\<^sup>*}))"
  using components_build [of snap] by (auto simp: components_ok_def Let_def)

definition demo_snap :: swarm_snapshot where
  "demo_snap = snd (registry_snapshot (\<lambda>x. x) 200 demo_registry)"

lemma demo_snap_active: "active_ids demo_snap = [''n1'']"
  by (simp add: demo_snap_def active_ids_def registry_snapshot_def demo_registry_def registry_update_def registry_new_def
      demo_announce_def announce_new_def refresh_peer_def is_stale_def peer_state_of_def saturating_sub_def
      STALE_THRESHOLD_SECS_def Let_def)

theorem components_are_connected_components_witness:
  "concat (find_components (build_adj demo_snap) (active_ids demo_snap) {} []) = [''n1'']"
proof -
  let ?cs = "concat (find_components (build_adj demo_snap) (active_ids demo_snap) {} [])"
  have "distinct ?cs" "set ?cs = {''n1''}"
    using components_are_connected_components [of demo_snap] demo_snap_active by (simp_all add: Let_def)
  then show ?thesis by (cases ?cs rule: remdups_adj.cases) auto
qed

text \<open>C32. The analysis never panics, whatever floating point computes, and its suggestions are useful: each
  is addressed to an active peer and names at most three other active peers, none of them already a
  neighbour; and every active peer with fewer than two neighbours gets one.\<close>

theorem suggestions_are_useful:
  "\<exists>ta. analyze_topology F now snap = Ret ta \<and> (\<forall>g \<in> set (ta_suggestions ta). suggestion_useful snap g)
     \<and> (\<forall>n \<in> set (active_ids snap). length (neighbors_of (build_adj snap) n) < 2 \<longrightarrow>
          n \<in> ps_target_node_id ` set (ta_suggestions ta))"
  by (rule analyze_topology_useful)

definition demo_f64 :: "int f64_ops" where
  "demo_f64 = \<lparr>f_zero = 0, f_one = 10, f_two = 20, f_half = 5, f_dense = 8, f_reach = 3, f_add = (+), f_sub = (-),
     f_mul = (\<lambda>a b. a * b div 10), f_div = (\<lambda>a b. 10 * a div b), f_of_nat = (\<lambda>n. 10 * int n), f_gt = (\<lambda>a b. b < a)\<rparr>"

lemma demo_snap_adj: "neighbors_of (build_adj demo_snap) ''n1'' = []"
  using demo_snap_active
  by (simp add: build_adj_def demo_snap_def registry_snapshot_def demo_registry_def registry_update_def registry_new_def
      demo_announce_def announce_new_def refresh_peer_def is_stale_def peer_state_of_def saturating_sub_def
      STALE_THRESHOLD_SECS_def add_peer_edges_def adj_extend_def neighbors_of_def Let_def)

theorem suggestions_are_useful_witness:
  "\<exists>ta. analyze_topology demo_f64 200 demo_snap = Ret ta \<and> ''n1'' \<in> ps_target_node_id ` set (ta_suggestions ta)"
  using suggestions_are_useful [of demo_f64 200 demo_snap] demo_snap_active demo_snap_adj by auto

end
