(* ===== verification/Monitor_Suggest.thy ===== *)
theory Monitor_Suggest
  imports Monitor_Topology Writer_Broadcast
begin

text \<open>
  The monitor's suggestion task (\<^verbatim>\<open>gossip-monitor/src/main.rs\<close>): every minute it takes a snapshot of the
  registry, analyses it and broadcasts signed join suggestions, at most one per target in 300
  seconds. \<open>mg_sent\<close> records the successful broadcasts with the time of their turn.
\<close>

section \<open>State\<close>

record 'f suggest_state =
  mg_registry :: registry
  mg_analysis :: "'f topology_analysis option"
  mg_failures :: u64
  mg_log :: "suggestion_entry list"
  mg_last :: "string \<rightharpoonup> nat"
  mg_sent :: "(nat \<times> peer_suggest) list"
  mg_panicked :: bool

text \<open>
  The environment of a turn: the clocks of the snapshot and of the analysis, the monotonic time of the
  turn in nanoseconds, and for the i-th suggestion the wall clock, the answer of the broadcast and the
  clock of the snapshot that looks the name up.
\<close>

record suggest_env =
  sg_snapshot_now :: u64
  sg_analysis_now :: u64
  sg_instant :: nat
  sg_clock :: "nat \<Rightarrow> u64"
  sg_result :: "nat \<Rightarrow> bcast_result"
  sg_lookup_now :: "nat \<Rightarrow> u64"

section \<open>Operations\<close>

definition m_canonical_suggest :: "string \<Rightarrow> string \<Rightarrow> string list \<Rightarrow> string \<Rightarrow> u64 \<Rightarrow> string \<Rightarrow> json" where
  "m_canonical_suggest why sn peers target ts ty = JObj
     [(''reason'', JStr why), (''sender'', JStr sn), (''suggested_peers'', JStrs peers),
      (''target_node_id'', JStr target), (''timestamp'', JU ts), (''type'', JStr ty)]"

definition build_suggest :: "gossip_lib \<Rightarrow> string \<Rightarrow> u64 \<Rightarrow> 'f peer_suggestion \<Rightarrow> peer_suggest" where
  "build_suggest L k ts g =
     (let sn = hex_encode L (ed_pubkey L k);
          canonical = to_vec L (m_canonical_suggest (ps_reason g) sn (ps_suggested_peers g) (ps_target_node_id g) ts ''peer_suggest'')
      in \<lparr>s_msg_type = ''peer_suggest'', s_sender = sn, s_target_node_id = ps_target_node_id g,
          s_suggested_peers = ps_suggested_peers g, s_reason = ps_reason g, s_timestamp = ts,
          s_signature = hex_encode L (ed_sign L k canonical)\<rparr>)"

definition recently :: "nat \<Rightarrow> (string \<rightharpoonup> nat) \<Rightarrow> string \<Rightarrow> bool" where
  "recently t last_suggest target =
     (case last_suggest target of Some l \<Rightarrow> (t - l) div 10 ^ 9 < 300 | None \<Rightarrow> False)"

definition suggest_one :: "(string \<Rightarrow> string) \<Rightarrow> gossip_lib \<Rightarrow> string \<Rightarrow> suggest_env \<Rightarrow> nat \<Rightarrow> 'f peer_suggestion
    \<Rightarrow> 'f suggest_state \<Rightarrow> 'f suggest_state" where
  "suggest_one lower L k E i g s =
     (if recently (sg_instant E) (mg_last s) (ps_target_node_id g) then s
      else
        let ts = sg_clock E i; msg = build_suggest L k ts g
        in case sg_result E i of
             Sent \<Rightarrow>
               (case registry_snapshot lower (sg_lookup_now E i) (mg_registry s) of (r, snap) \<Rightarrow>
                  let name = Option.bind (find (\<lambda>p. p_node_id p = ps_target_node_id g) (sn_peers snap)) p_friendly_name
                  in s\<lparr>mg_failures := 0, mg_registry := r,
                       mg_log := suggestion_push (mg_log s)
                         \<lparr>se_timestamp = ts, se_target_node_id = ps_target_node_id g, se_target_name = name,
                          se_suggested_peers = ps_suggested_peers g, se_reason = ps_reason g\<rparr>,
                       mg_last := (mg_last s)(ps_target_node_id g \<mapsto> sg_instant E),
                       mg_sent := mg_sent s @ [(sg_instant E, msg)]\<rparr>)
           | Failed \<Rightarrow> s\<lparr>mg_failures := mg_failures s + 1\<rparr>
           | Timed_out \<Rightarrow> s\<lparr>mg_failures := mg_failures s + 1\<rparr>)"

fun suggest_all :: "(string \<Rightarrow> string) \<Rightarrow> gossip_lib \<Rightarrow> string \<Rightarrow> suggest_env \<Rightarrow> nat \<Rightarrow> 'f peer_suggestion list
    \<Rightarrow> 'f suggest_state \<Rightarrow> 'f suggest_state" where
  "suggest_all lower L k E i [] s = s"
| "suggest_all lower L k E i (g # gs) s = suggest_all lower L k E (Suc i) gs (suggest_one lower L k E i g s)"

definition suggest_turn :: "(string \<Rightarrow> string) \<Rightarrow> 'f f64_ops \<Rightarrow> gossip_lib \<Rightarrow> string \<Rightarrow> suggest_env \<Rightarrow> 'f suggest_state \<Rightarrow> 'f suggest_state" where
  "suggest_turn lower F L k E s =
     (case registry_snapshot lower (sg_snapshot_now E) (mg_registry s) of (r, snap) \<Rightarrow>
        (case analyze_topology F (sg_analysis_now E) snap of
           Panic \<Rightarrow> s\<lparr>mg_registry := r, mg_panicked := True\<rparr>
         | Ret ta \<Rightarrow> suggest_all lower L k E 0 (ta_suggestions ta) (s\<lparr>mg_registry := r, mg_analysis := Some ta\<rparr>)))"

section \<open>Lemmas\<close>

text \<open>The times at which a target was sent a suggestion.\<close>

definition sent_to :: "string \<Rightarrow> (nat \<times> peer_suggest) list \<Rightarrow> nat list" where
  "sent_to target sent = map fst (filter (\<lambda>(t, m). s_target_node_id m = target) sent)"

definition spaced :: "nat \<Rightarrow> nat \<Rightarrow> bool" where
  "spaced a b \<longleftrightarrow> a + 300 * 10 ^ 9 \<le> b"

definition suggest_inv :: "nat \<Rightarrow> 'f suggest_state \<Rightarrow> bool" where
  "suggest_inv t s \<longleftrightarrow>
     (\<forall>target. successively spaced (sent_to target (mg_sent s))
        \<and> mg_last s target = (if sent_to target (mg_sent s) = [] then None else Some (last (sent_to target (mg_sent s)))))
     \<and> (\<forall>(u, m) \<in> set (mg_sent s). u \<le> t)"

lemma sent_to_snoc:
  "sent_to target (sent @ [(t, m)]) = (if s_target_node_id m = target then sent_to target sent @ [t] else sent_to target sent)"
  by (simp add: sent_to_def)

lemma build_suggest_target [simp]: "s_target_node_id (build_suggest L k ts g) = ps_target_node_id g"
  by (simp add: build_suggest_def Let_def)

lemma not_recently_spaced:
  assumes "\<not> recently t m target" and "m target = Some l" and "l \<le> t"
  shows "spaced l t"
proof -
  have "300 \<le> (t - l) div 10 ^ 9" using assms(1,2) by (simp add: recently_def)
  then have "300 * 10 ^ 9 \<le> (t - l) div 10 ^ 9 * 10 ^ 9" by (rule mult_le_mono1)
  also have "\<dots> \<le> t - l" by (rule div_times_less_eq_dividend)
  finally show ?thesis using assms(3) by (simp add: spaced_def)
qed

lemma suggest_one_inv:
  assumes "suggest_inv (sg_instant E) s"
  shows "suggest_inv (sg_instant E) (suggest_one lower L k E i g s)"
proof (cases "recently (sg_instant E) (mg_last s) (ps_target_node_id g) \<or> sg_result E i \<noteq> Sent")
  case True
  then have "mg_sent (suggest_one lower L k E i g s) = mg_sent s \<and> mg_last (suggest_one lower L k E i g s) = mg_last s"
    by (auto simp: suggest_one_def Let_def split: bcast_result.split)
  with assms show ?thesis by (simp add: suggest_inv_def)
next
  case False
  let ?t = "sg_instant E" and ?g = "ps_target_node_id g"
  let ?s = "suggest_one lower L k E i g s"
  obtain m where m: "mg_sent ?s = mg_sent s @ [(?t, m)]" "s_target_node_id m = ?g" "mg_last ?s = (mg_last s)(?g \<mapsto> ?t)"
    using False by (simp add: suggest_one_def Let_def case_prod_beta)
  have "spaced (last (sent_to ?g (mg_sent s))) ?t" if ne: "sent_to ?g (mg_sent s) \<noteq> []"
  proof -
    have l: "mg_last s ?g = Some (last (sent_to ?g (mg_sent s)))" using assms ne by (simp add: suggest_inv_def)
    have "last (sent_to ?g (mg_sent s)) \<in> set (sent_to ?g (mg_sent s))" using ne by (rule last_in_set)
    then have "last (sent_to ?g (mg_sent s)) \<le> ?t" using assms by (auto simp: suggest_inv_def sent_to_def)
    with not_recently_spaced l False show ?thesis by blast
  qed
  then have "successively spaced (sent_to target (mg_sent ?s))" for target
    using assms m(2) by (auto simp: suggest_inv_def m(1) sent_to_snoc successively_append_iff)
  moreover have "mg_last ?s target = (if sent_to target (mg_sent ?s) = [] then None else Some (last (sent_to target (mg_sent ?s))))" for target
    using assms m(2,3) by (auto simp: suggest_inv_def m(1) sent_to_snoc)
  ultimately show ?thesis using assms m(1) unfolding suggest_inv_def by auto
qed

lemma suggest_all_inv: "suggest_inv (sg_instant E) s \<Longrightarrow> suggest_inv (sg_instant E) (suggest_all lower L k E i gs s)"
  by (induction gs arbitrary: i s) (simp_all add: suggest_one_inv)

lemma suggest_inv_later: "suggest_inv t s \<Longrightarrow> t \<le> u \<Longrightarrow> suggest_inv u s"
  by (auto simp: suggest_inv_def intro: order_trans)

lemma suggest_turn_inv: "suggest_inv (sg_instant E) s \<Longrightarrow> suggest_inv (sg_instant E) (suggest_turn lower F L k E s)"
proof -
  assume a: "suggest_inv (sg_instant E) s"
  then have "suggest_inv (sg_instant E) (s\<lparr>mg_registry := r, mg_analysis := x\<rparr>)"
    "suggest_inv (sg_instant E) (s\<lparr>mg_registry := r, mg_panicked := b\<rparr>)" for r x b by (simp_all add: suggest_inv_def)
  then show ?thesis by (auto simp: suggest_turn_def suggest_all_inv split: prod.split outcome.split)
qed

lemma suggest_turns_inv:
  "suggest_inv t s \<Longrightarrow> sorted (t # map sg_instant Es) \<Longrightarrow> \<exists>u. suggest_inv u (turns (suggest_turn lower F L k) Es s)"
proof (induction Es arbitrary: t s)
  case (Cons E Es)
  then have "suggest_inv (sg_instant E) (suggest_turn lower F L k E s)"
    by (auto intro: suggest_turn_inv suggest_inv_later [OF Cons.prems(1)])
  moreover have "sorted (sg_instant E # map sg_instant Es)" using Cons.prems(2) by simp
  ultimately have "\<exists>u. suggest_inv u (turns (suggest_turn lower F L k) Es (suggest_turn lower F L k E s))"
    by (rule Cons.IH)
  then show ?case by (simp only: turns.simps)
qed (auto simp only: turns.simps)

lemma m_canonical_suggest_eq:
  "m_canonical_suggest (s_reason m) (s_sender m) (s_suggested_peers m) (s_target_node_id m) (s_timestamp m) (s_msg_type m) = canonical_suggest m"
  by (simp add: m_canonical_suggest_def canonical_suggest_def)

lemma build_suggest_verifies:
  assumes "crypto_ok L k"
  shows "suggest_verify_signature L (build_suggest L k ts g) = Ok True"
proof -
  let ?m = "build_suggest L k ts g"
  have "s_sender ?m = pubkey_hex L k" "s_signature ?m = hex_encode L (ed_sign L k (to_vec L (canonical_suggest ?m)))"
    by (simp_all add: build_suggest_def pubkey_hex_def canonical_suggest_def m_canonical_suggest_def Let_def)
  with check_sig_complete [OF assms] show ?thesis by (simp add: suggest_verify_signature_def)
qed

lemma analyze_topology_returns: "\<exists>ta. analyze_topology F now snap = Ret ta"
proof (cases "active_ids snap = []")
  case True
  then show ?thesis by (simp add: analyze_topology_def Let_def)
next
  case False
  show ?thesis by (rule analyze_topology_ret [OF False, of F now]) blast
qed

lemma suggest_all_panicked: "mg_panicked (suggest_all lower L k E i gs s) = mg_panicked s"
  by (induction gs arbitrary: i s)
     (simp_all add: suggest_one_def Let_def case_prod_beta split: bcast_result.split)

lemma suggest_turn_panicked: "mg_panicked (suggest_turn lower F L k E s) = mg_panicked s"
proof -
  obtain r snap where r: "registry_snapshot lower (sg_snapshot_now E) (mg_registry s) = (r, snap)" by fastforce
  obtain ta where "analyze_topology F (sg_analysis_now E) snap = Ret ta" using analyze_topology_returns by blast
  with r show ?thesis by (simp add: suggest_turn_def suggest_all_panicked)
qed

lemma suggest_turns_panicked: "mg_panicked (turns (suggest_turn lower F L k) Es s) = mg_panicked s"
  by (induction Es arbitrary: s) (simp_all add: suggest_turn_panicked)

text \<open>A target that was not suggested to recently is sent the first suggestion to it.\<close>

lemma suggest_one_sent:
  assumes "sg_result E i = Sent" and "\<not> recently (sg_instant E) (mg_last s) (ps_target_node_id g)"
  shows "mg_sent (suggest_one lower L k E i g s) = mg_sent s @ [(sg_instant E, build_suggest L k (sg_clock E i) g)]"
  using assms by (simp add: suggest_one_def Let_def case_prod_beta)

lemma suggest_one_other:
  "ps_target_node_id g \<noteq> n \<Longrightarrow> mg_last (suggest_one lower L k E i g s) n = mg_last s n"
  by (simp add: suggest_one_def Let_def case_prod_beta split: bcast_result.split)

lemma suggest_one_keeps: "set (mg_sent s) \<subseteq> set (mg_sent (suggest_one lower L k E i g s))"
  by (auto simp: suggest_one_def Let_def case_prod_beta split: bcast_result.split)

lemma suggest_all_keeps: "set (mg_sent s) \<subseteq> set (mg_sent (suggest_all lower L k E i gs s))"
proof (induction gs arbitrary: i s)
  case (Cons g gs)
  then show ?case using suggest_one_keeps [of s lower L k E i g] by (force intro: order_trans)
qed simp

lemma suggest_all_reaches:
  assumes "\<And>j. sg_result E j = Sent" and "\<not> recently (sg_instant E) (mg_last s) n" and "n \<in> ps_target_node_id ` set gs"
  shows "\<exists>g \<in> set gs. \<exists>j. ps_target_node_id g = n
    \<and> (sg_instant E, build_suggest L k (sg_clock E j) g) \<in> set (mg_sent (suggest_all lower L k E i gs s))"
  using assms(2,3)
proof (induction gs arbitrary: i s)
  case (Cons g gs)
  let ?s = "suggest_one lower L k E i g s"
  show ?case
  proof (cases "ps_target_node_id g = n")
    case True
    have "(sg_instant E, build_suggest L k (sg_clock E i) g) \<in> set (mg_sent ?s)"
      using Cons.prems(1) True by (simp add: suggest_one_sent [OF assms(1)])
    then have "(sg_instant E, build_suggest L k (sg_clock E i) g) \<in> set (mg_sent (suggest_all lower L k E i (g # gs) s))"
      using suggest_all_keeps [of ?s lower L k E "Suc i" gs] by auto
    with True show ?thesis by (intro bexI [of _ g] exI [of _ i] conjI) simp_all
  next
    case False
    then have "\<not> recently (sg_instant E) (mg_last ?s) n" "n \<in> ps_target_node_id ` set gs"
      using Cons.prems suggest_one_other [OF False] by (auto simp: recently_def)
    from Cons.IH [OF this, of "Suc i"] show ?thesis by auto
  qed
qed simp

definition suggest_start :: "registry \<Rightarrow> 'f suggest_state" where
  "suggest_start r = \<lparr>mg_registry = r, mg_analysis = None, mg_failures = 0, mg_log = [], mg_last = Map.empty, mg_sent = [], mg_panicked = False\<rparr>"

lemma suggest_start_inv: "suggest_inv 0 (suggest_start r)"
  by (simp add: suggest_inv_def suggest_start_def sent_to_def)

section \<open>Properties\<close>

text \<open>The monitor does not flood: over any number of turns at non-decreasing times, consecutive
  suggestions to one target are at least 300 seconds apart, also within one turn, and the task never
  panics.\<close>

theorem suggestions_are_rate_limited:
  assumes "sorted (map sg_instant Es)"
  shows "successively (\<lambda>a b. a + 300 * 10 ^ 9 \<le> b)
      (sent_to target (mg_sent (turns (suggest_turn lower F L k) Es (suggest_start r))))
    \<and> \<not> mg_panicked (turns (suggest_turn lower F L k) Es (suggest_start r))"
proof -
  obtain u where "suggest_inv u (turns (suggest_turn lower F L k) Es (suggest_start r))"
    using suggest_turns_inv [OF suggest_start_inv] assms by (metis sorted_simps(2) le0)
  then have "successively spaced (sent_to target (mg_sent (turns (suggest_turn lower F L k) Es (suggest_start r))))"
    by (simp add: suggest_inv_def)
  moreover have "spaced = (\<lambda>a b. a + 300 * 10 ^ 9 \<le> b)" by (simp add: spaced_def fun_eq_iff)
  moreover have "\<not> mg_panicked (turns (suggest_turn lower F L k) Es (suggest_start r))"
    by (simp add: suggest_turns_panicked) (simp add: suggest_start_def)
  ultimately show ?thesis by (simp only: simp_thms)
qed

definition demo_suggest_env :: "nat \<Rightarrow> suggest_env" where
  "demo_suggest_env t = \<lparr>sg_snapshot_now = 200, sg_analysis_now = 200, sg_instant = t, sg_clock = (\<lambda>_. 200),
     sg_result = (\<lambda>_. Sent), sg_lookup_now = (\<lambda>_. 200)\<rparr>"

theorem suggestions_are_rate_limited_witness:
  "successively (\<lambda>a b. a + 300 * 10 ^ 9 \<le> b)
      (sent_to ''n1'' (mg_sent (turns (suggest_turn (\<lambda>x. x) demo_f64 demo_wlib ''k'')
         [demo_suggest_env 0, demo_suggest_env (60 * 10 ^ 9), demo_suggest_env (300 * 10 ^ 9)] (suggest_start demo_registry))))
   \<and> \<not> mg_panicked (turns (suggest_turn (\<lambda>x. x) demo_f64 demo_wlib ''k'')
         [demo_suggest_env 0, demo_suggest_env (60 * 10 ^ 9), demo_suggest_env (300 * 10 ^ 9)] (suggest_start demo_registry))"
  by (rule suggestions_are_rate_limited) (simp add: demo_suggest_env_def)

end
