(* ===== verification/Monitor_Web.thy ===== *)
theory Monitor_Web
  imports Monitor_Suggest
begin

text \<open>
  The web server of the monitor (\<^verbatim>\<open>gossip-monitor/src/web.rs\<close>): the route table, the handlers and the
  stream of swarm snapshots. The derived \<^verbatim>\<open>Serialize\<close> of the snapshot types is a map to JSON trees;
  a tree that the code builds with \<^verbatim>\<open>json!\<close> has its keys in the order of the sorted map of
  \<^verbatim>\<open>serde_json\<close>. The server, the broadcast channel, the static files and the printing of an \<^verbatim>\<open>f64\<close> are
  outside the theory: the files are the parameter \<open>asset\<close>, the number printer is \<open>num\<close>.
\<close>

section \<open>JSON of the snapshot types\<close>

definition opt_json :: "('a \<Rightarrow> json) \<Rightarrow> 'a option \<Rightarrow> json" where
  "opt_json f x = (case x of Some v \<Rightarrow> f v | None \<Rightarrow> JNull)"

definition JN :: "nat \<Rightarrow> json" where
  "JN n = JInt (int n)"

definition sample_json :: "metric_sample \<Rightarrow> json" where
  "sample_json m = JObj
     [(''timestamp'', JU (ms_timestamp m)), (''cpu_percent'', opt_json JFloat (ms_cpu_percent m)),
      (''memory_mb'', opt_json JU (ms_memory_mb m))]"

definition peer_json :: "peer_state \<Rightarrow> json" where
  "peer_json p = JObj
     [(''node_id'', JStr (p_node_id p)), (''friendly_name'', opt_json JStr (p_friendly_name p)),
      (''version'', JStr (p_version p)), (''last_seen'', JU (p_last_seen p)), (''stale'', JBool (p_stale p)),
      (''cpu_percent'', opt_json JFloat (p_cpu_percent p)), (''memory_mb'', opt_json JU (p_memory_mb p)),
      (''thread_count'', opt_json JU (p_thread_count p)), (''neighbor_count'', opt_json JU (p_neighbor_count p)),
      (''uptime_secs'', opt_json JU (p_uptime_secs p)), (''msgs_received'', opt_json JU (p_msgs_received p)),
      (''msgs_sent'', opt_json JU (p_msgs_sent p)), (''last_msg_age_secs'', opt_json JU (p_last_msg_age_secs p)),
      (''reconnect_count'', opt_json JU (p_reconnect_count p)), (''os'', opt_json JStr (p_os p)),
      (''build_type'', opt_json JStr (p_build_type p)), (''neighbors'', JStrs (p_neighbors p)),
      (''history'', JArr (map sample_json (p_history p)))]"

definition edge_json :: "string \<times> string \<Rightarrow> json" where
  "edge_json e = JObj [(''source'', JStr (fst e)), (''target'', JStr (snd e))]"

definition snapshot_json :: "swarm_snapshot \<Rightarrow> json" where
  "snapshot_json sn = JObj
     [(''peers'', JArr (map peer_json (sn_peers sn))), (''edges'', JArr (map edge_json (sn_edges sn))),
      (''total_peers'', JN (sn_total_peers sn)), (''active_peers'', JN (sn_active_peers sn)),
      (''stale_peers'', JN (sn_stale_peers sn)), (''timestamp'', JU (sn_timestamp sn))]"

text \<open>Values built with \<^verbatim>\<open>json!\<close>, their keys sorted.\<close>

definition suggestion_json :: "('f \<Rightarrow> json) \<Rightarrow> 'f peer_suggestion \<Rightarrow> json" where
  "suggestion_json num g = JObj
     [(''isolation_score'', num (ps_isolation_score g)), (''reason'', JStr (ps_reason g)),
      (''suggested_peers'', JStrs (ps_suggested_peers g)), (''target_node_id'', JStr (ps_target_node_id g))]"

definition analysis_json :: "('f \<Rightarrow> json) \<Rightarrow> 'f topology_analysis \<Rightarrow> json" where
  "analysis_json num ta = JObj
     [(''node_betweenness'', JArr (map (\<lambda>(n, b). JArr [JStr n, num b]) (ta_node_betweenness ta))),
      (''suggestions'', JArr (map (suggestion_json num) (ta_suggestions ta))), (''timestamp'', JU (ta_timestamp ta))]"

definition entry_json :: "suggestion_entry \<Rightarrow> json" where
  "entry_json e = JObj
     [(''reason'', JStr (se_reason e)), (''suggested_peers'', JStrs (se_suggested_peers e)),
      (''target_name'', opt_json JStr (se_target_name e)), (''target_node_id'', JStr (se_target_node_id e)),
      (''timestamp'', JU (se_timestamp e))]"

section \<open>Routes and handlers\<close>

datatype web_handler = Index_page | Monitor_js | Style_css | Swarm | Topology | Events | Version | Suggestions

definition web_routes :: "(string \<times> web_handler) list" where
  "web_routes =
     [(''/'', Index_page), (''/js/monitor.js'', Monitor_js), (''/css/style.css'', Style_css), (''/api/swarm'', Swarm),
      (''/api/topology'', Topology), (''/api/events'', Events), (''/api/version'', Version),
      (''/api/suggestions'', Suggestions)]"

text \<open>What a handler hands to the server: a page, a file with its headers, a JSON body, the event stream.\<close>

datatype web_reply =
    Html string
  | File "(string \<times> string) list" string
  | Json json
  | Stream

record 'f web_state =
  wb_registry :: registry
  wb_analysis :: "'f topology_analysis option"
  wb_log :: "suggestion_entry list"

text \<open>The build of the program: the included files, the crate version, the number printer.\<close>

record 'f web_build =
  wu_asset :: "string \<Rightarrow> string"
  wu_version :: string
  wu_num :: "'f \<Rightarrow> json"

definition js_headers :: "(string \<times> string) list" where
  "js_headers = [(''content-type'', ''application/javascript''), (''cache-control'', ''no-cache, must-revalidate'')]"

definition css_headers :: "(string \<times> string) list" where
  "css_headers = [(''content-type'', ''text/css''), (''cache-control'', ''no-cache, must-revalidate'')]"

definition swarm_handler :: "(string \<Rightarrow> string) \<Rightarrow> u64 \<Rightarrow> 'f web_state \<Rightarrow> 'f web_state \<times> web_reply" where
  "swarm_handler lower now s =
     (case registry_snapshot lower now (wb_registry s) of (r, snap) \<Rightarrow> (s\<lparr>wb_registry := r\<rparr>, Json (snapshot_json snap)))"

definition topology_handler :: "('f \<Rightarrow> json) \<Rightarrow> 'f web_state \<Rightarrow> web_reply" where
  "topology_handler num s = (case wb_analysis s of Some ta \<Rightarrow> Json (analysis_json num ta) | None \<Rightarrow> Json (JObj []))"

definition suggestions_handler :: "'f web_state \<Rightarrow> web_reply" where
  "suggestions_handler s = Json (JObj [(''entries'', JArr (map entry_json (wb_log s)))])"

definition version_handler :: "string \<Rightarrow> web_reply" where
  "version_handler ver = Json (JObj [(''version'', JStr ver)])"

fun handle :: "'f web_build \<Rightarrow> (string \<Rightarrow> string) \<Rightarrow> u64 \<Rightarrow> web_handler \<Rightarrow> 'f web_state \<Rightarrow> 'f web_state \<times> web_reply" where
  "handle B lower now Index_page s = (s, Html (wu_asset B ''static/index.html''))"
| "handle B lower now Monitor_js s = (s, File js_headers (wu_asset B ''static/monitor.js''))"
| "handle B lower now Style_css s = (s, File css_headers (wu_asset B ''static/style.css''))"
| "handle B lower now Swarm s = swarm_handler lower now s"
| "handle B lower now Topology s = (s, topology_handler (wu_num B) s)"
| "handle B lower now Events s = (s, Stream)"
| "handle B lower now Version s = (s, version_handler (wu_version B))"
| "handle B lower now Suggestions s = (s, suggestions_handler s)"

text \<open>A GET request; no reply when no route matches.\<close>

definition web_get :: "'f web_build \<Rightarrow> (string \<Rightarrow> string) \<Rightarrow> u64 \<Rightarrow> string \<Rightarrow> 'f web_state \<Rightarrow> 'f web_state \<times> web_reply option" where
  "web_get B lower now path s =
     (case map_of web_routes path of
        None \<Rightarrow> (s, None)
      | Some h \<Rightarrow> (case handle B lower now h s of (s', r) \<Rightarrow> (s', Some r)))"

section \<open>Events\<close>

text \<open>The event a subscriber is sent for each result of its channel; a lag is skipped.\<close>

definition events_stream :: "string option list \<Rightarrow> (string \<times> string) list" where
  "events_stream results = List.map_filter (map_option (\<lambda>d. (''swarm'', d))) results"

text \<open>The data of one push.\<close>

definition push_snapshot :: "gossip_lib \<Rightarrow> (string \<Rightarrow> string) \<Rightarrow> u64 \<Rightarrow> registry \<Rightarrow> registry \<times> string" where
  "push_snapshot L lower now r =
     (case registry_snapshot lower now r of (r', snap) \<Rightarrow> (r', to_vec L (snapshot_json snap)))"

section \<open>Lemmas\<close>

lemma opt_json_eq [simp]:
  "opt_json JStr a = opt_json JStr b \<longleftrightarrow> a = b"
  "opt_json JFloat c = opt_json JFloat d \<longleftrightarrow> c = d"
  "opt_json JU e = opt_json JU f \<longleftrightarrow> e = f"
  by (auto simp: opt_json_def JU_def word_uint_eq_iff split: option.splits)

lemma JN_eq [simp]: "JN a = JN b \<longleftrightarrow> a = b"
  by (simp add: JN_def)

lemma sample_json_eq [simp]: "sample_json a = sample_json b \<longleftrightarrow> a = b"
  by (cases a; cases b) (auto simp: sample_json_def)

lemma map_inj_eq: "(\<And>a b. f a = f b \<longleftrightarrow> a = b) \<Longrightarrow> map f xs = map f ys \<longleftrightarrow> xs = ys"
  by (metis inj_def inj_map_eq_map)

lemma peer_json_eq [simp]: "peer_json a = peer_json b \<longleftrightarrow> a = b"
  by (cases a; cases b) (auto simp: peer_json_def map_inj_eq)

lemma edge_json_eq [simp]: "edge_json a = edge_json b \<longleftrightarrow> a = b"
  by (cases a; cases b) (auto simp: edge_json_def)

lemma snapshot_json_eq [simp]: "snapshot_json a = snapshot_json b \<longleftrightarrow> a = b"
  by (cases a; cases b) (auto simp: snapshot_json_def map_inj_eq)

lemma handle_keeps:
  "wb_analysis (fst (handle B lower now h s)) = wb_analysis s \<and> wb_log (fst (handle B lower now h s)) = wb_log s"
  by (cases h) (simp_all add: swarm_handler_def case_prod_beta)

lemma web_get_keeps:
  "wb_analysis (fst (web_get B lower now path s)) = wb_analysis s \<and> wb_log (fst (web_get B lower now path s)) = wb_log s"
  by (simp add: web_get_def case_prod_beta handle_keeps split: option.split)

lemma handle_wf: "registry_wf (wb_registry s) \<Longrightarrow> registry_wf (wb_registry (fst (handle B lower now h s)))"
  by (cases h) (simp_all add: swarm_handler_def case_prod_beta registry_snapshot_wf)

lemma web_get_wf: "registry_wf (wb_registry s) \<Longrightarrow> registry_wf (wb_registry (fst (web_get B lower now path s)))"
  by (simp add: web_get_def case_prod_beta handle_wf split: option.split)

lemma web_get_swarm:
  "web_get B lower now ''/api/swarm'' s =
     (s\<lparr>wb_registry := fst (registry_snapshot lower now (wb_registry s))\<rparr>,
      Some (Json (snapshot_json (snd (registry_snapshot lower now (wb_registry s))))))"
  by (simp add: web_get_def web_routes_def swarm_handler_def case_prod_beta)

lemma events_stream_complete: "events_stream (map Some ds) = map (Pair ''swarm'') ds"
  by (induction ds) (simp_all add: events_stream_def List.map_filter_simps)

end
