(* ===== verification/Monitor_Program.thy ===== *)
theory Monitor_Program
  imports Monitor_Web Startup
begin

text \<open>
  The monitor as a whole (\<^verbatim>\<open>main\<close> of \<^verbatim>\<open>gossip-monitor/src/main.rs\<close>): its tasks share the registry, the
  counters, the latest analysis and the suggestion log. A step of the relation is one turn of one task
  between two awaits, so a suggestion round is one analysis step and one step per suggestion; a run is
  any interleaving.
\<close>

section \<open>State\<close>

record ('id, 'f) monitor =
  mo_recv :: mrecv
  mo_gen :: u64
  mo_analysis :: "'f topology_analysis option"
  mo_log :: "suggestion_entry list"
  mo_last :: "string \<rightharpoonup> nat"
  mo_sent :: "(nat \<times> peer_suggest) list"
  mo_pending :: "(suggest_env \<times> nat \<times> 'f peer_suggestion list) option"
  mo_stream :: "string list"
  mo_joins :: "'id list list"

text \<open>What \<^verbatim>\<open>main\<close> fixes at the start. \<open>mc_recv\<close> configures the receive task but for its generation.\<close>

record ('id, 'f) mon_cfg =
  mc_recv :: "'id recv_cfg"
  mc_boot :: string
  mc_key :: string
  mc_lower :: "string \<Rightarrow> string"
  mc_f64 :: "'f f64_ops"
  mc_build :: "'f web_build"

definition suggest_view :: "('id, 'f) monitor \<Rightarrow> 'f suggest_state" where
  "suggest_view s =
     \<lparr>mg_registry = mr_registry (mo_recv s), mg_analysis = mo_analysis s, mg_failures = c_failures (mr_ctl (mo_recv s)),
      mg_log = mo_log s, mg_last = mo_last s, mg_sent = mo_sent s, mg_panicked = False\<rparr>"

definition put_suggest :: "'f suggest_state \<Rightarrow> ('id, 'f) monitor \<Rightarrow> ('id, 'f) monitor" where
  "put_suggest g s =
     s\<lparr>mo_recv := (mo_recv s)\<lparr>mr_registry := mg_registry g, mr_ctl := (mr_ctl (mo_recv s))\<lparr>c_failures := mg_failures g\<rparr>\<rparr>,
       mo_analysis := mg_analysis g, mo_log := mg_log g, mo_last := mg_last g, mo_sent := mg_sent g\<rparr>"

definition web_view :: "('id, 'f) monitor \<Rightarrow> 'f web_state" where
  "web_view s = \<lparr>wb_registry = mr_registry (mo_recv s), wb_analysis = mo_analysis s, wb_log = mo_log s\<rparr>"

abbreviation set_registry :: "registry \<Rightarrow> ('id, 'f) monitor \<Rightarrow> ('id, 'f) monitor" where
  "set_registry r s \<equiv> s\<lparr>mo_recv := (mo_recv s)\<lparr>mr_registry := r\<rparr>\<rparr>"

abbreviation set_ctl :: "ctl \<Rightarrow> ('id, 'f) monitor \<Rightarrow> ('id, 'f) monitor" where
  "set_ctl c s \<equiv> s\<lparr>mo_recv := (mo_recv s)\<lparr>mr_ctl := c\<rparr>\<rparr>"

section \<open>Start\<close>

definition m_first_joins :: "(string \<Rightarrow> 'id option) \<Rightarrow> string \<Rightarrow> string option \<Rightarrow> 'id list list" where
  "m_first_joins parse_id boot file =
     (let ps = add_missing (parse_bootstrap parse_id boot) (m_load_known_peers parse_id file)
      in if ps = [] then [] else [ps])"

definition monitor_initial :: "(string \<Rightarrow> 'id option) \<Rightarrow> m_settings \<Rightarrow> files \<Rightarrow> start_env \<Rightarrow> ('id, 'f) monitor" where
  "monitor_initial parse_id cfg fs S =
     \<lparr>mo_recv = \<lparr>mr_ctl = ctl_start (st_now S) (st_inst S), mr_status = Running,
                 mr_peers_file = fs (ms_peers_file cfg), mr_registry = registry_new\<rparr>,
      mo_gen = 1, mo_analysis = None, mo_log = [], mo_last = Map.empty, mo_sent = [], mo_pending = None,
      mo_stream = [], mo_joins = m_first_joins parse_id (ms_bootstrap cfg) (fs (ms_peers_file cfg))\<rparr>"

definition monitor_start :: "(string \<Rightarrow> bool) \<Rightarrow> (string \<Rightarrow> 'id option) \<Rightarrow> env_vars \<Rightarrow> files \<Rightarrow> start_env
    \<Rightarrow> (string + ('id, 'f) monitor) outcome" where
  "monitor_start addr_ok parse_id V fs S =
     bind_outcome (monitor_settings addr_ok V) (\<lambda>cfg.
       case st_node_key S of
         Inl e \<Rightarrow> Ret (Err e)
       | Inr _ \<Rightarrow> (case network_start (st_bound S) (st_topic S) of
             Inl e \<Rightarrow> Ret (Err e)
           | Inr _ \<Rightarrow> Ret (Ok (monitor_initial parse_id cfg fs S))))"

section \<open>Steps\<close>

text \<open>
  \<open>Reconnect\<close> spawns the receive task of a new subscription with the new generation. \<open>Analyse\<close> opens a
  round of suggestions, each \<open>Suggest\<close> handles the next of them, and the \<open>Suggest\<close> after the last ends
  the round. \<open>Push\<close> and \<open>Prune\<close> are the turns of the five second and five minute tasks, \<open>Get\<close> is a web
  request.
\<close>

datatype 'id mon_event =
    Receive recv_env "'id gossip_input"
  | Reconnect rc_env
  | Watch u64
  | Rejoin
  | Isolation
  | Health nat u64 u64
  | Analyse suggest_env
  | Suggest
  | Push u64
  | Prune_tick u64
  | Get u64 string
  | Ctrl_c

definition respawn :: "ctl \<Rightarrow> ('id, 'f) monitor \<Rightarrow> ('id, 'f) monitor" where
  "respawn c s =
     (if c_sender c = c_sender (mr_ctl (mo_recv s)) then set_ctl c s
      else (set_ctl c s)\<lparr>mo_gen := c_generation c, mo_recv := (mo_recv s)\<lparr>mr_ctl := c, mr_status := Running\<rparr>\<rparr>)"

definition add_join :: "'id list option \<Rightarrow> ('id, 'f) monitor \<Rightarrow> ('id, 'f) monitor" where
  "add_join j s = (case j of None \<Rightarrow> s | Some ps \<Rightarrow> s\<lparr>mo_joins := mo_joins s @ [ps]\<rparr>)"

inductive mon_step :: "('id, 'f) mon_cfg \<Rightarrow> 'id mon_event \<Rightarrow> ('id, 'f) monitor \<Rightarrow> ('id, 'f) monitor \<Rightarrow> bool"
  for C :: "('id, 'f) mon_cfg" where
  Receive: "mon_step C (Receive E i) s (s\<lparr>mo_recv := m_receive_turn ((mc_recv C)\<lparr>rf_generation := mo_gen s\<rparr>) (E, i) (mo_recv s)\<rparr>)"
| Reconnect: "mon_step C (Reconnect e) s (respawn (m_reconnect_turn e (mr_ctl (mo_recv s))) s)"
| Watch: "m_watchdog_turn (rf_parse_id (mc_recv C)) (mc_boot C) (mr_peers_file (mo_recv s)) now (mr_ctl (mo_recv s)) = (c, j)
    \<Longrightarrow> mon_step C (Watch now) s (add_join j (set_ctl c s))"
| Rejoin: "mon_step C Rejoin s (add_join (m_rejoin_turn (rf_parse_id (mc_recv C)) (mc_boot C) (mr_peers_file (mo_recv s))) s)"
| Isolation: "mon_step C Isolation s (set_ctl (m_isolation_turn (mr_ctl (mo_recv s))) s)"
| Health: "mon_step C (Health t now rss) s (set_ctl (fst (m_health_turn t now rss (mr_ctl (mo_recv s)))) s)"
| Analyse: "mo_pending s = None
    \<Longrightarrow> registry_snapshot (mc_lower C) (sg_snapshot_now E) (mr_registry (mo_recv s)) = (r, snap)
    \<Longrightarrow> analyze_topology (mc_f64 C) (sg_analysis_now E) snap = Ret ta
    \<Longrightarrow> mon_step C (Analyse E) s ((set_registry r s)\<lparr>mo_analysis := Some ta, mo_pending := Some (E, 0, ta_suggestions ta)\<rparr>)"
| Suggest: "mo_pending s = Some (E, i, g # gs)
    \<Longrightarrow> mon_step C Suggest s
          ((put_suggest (suggest_one (mc_lower C) (rf_lib (mc_recv C)) (mc_key C) E i g (suggest_view s)) s)\<lparr>mo_pending := Some (E, Suc i, gs)\<rparr>)"
| Suggested: "mo_pending s = Some (E, i, []) \<Longrightarrow> mon_step C Suggest s (s\<lparr>mo_pending := None\<rparr>)"
| Push: "push_snapshot (rf_lib (mc_recv C)) (mc_lower C) now (mr_registry (mo_recv s)) = (r, d)
    \<Longrightarrow> mon_step C (Push now) s ((set_registry r s)\<lparr>mo_stream := mo_stream s @ [d]\<rparr>)"
| Prune: "mon_step C (Prune_tick now) s (set_registry (fst (prune_stale now (mr_registry (mo_recv s)))) s)"
| Get: "web_get (mc_build C) (mc_lower C) now path (web_view s) = (w, reply)
    \<Longrightarrow> mon_step C (Get now path) s (set_registry (wb_registry w) s)"
| Ctrl_c: "mon_step C Ctrl_c s (set_ctl ((mr_ctl (mo_recv s))\<lparr>c_shutdown := True\<rparr>) s)"

inductive mon_run :: "('id, 'f) mon_cfg \<Rightarrow> ('id, 'f) monitor \<Rightarrow> 'id mon_event list \<Rightarrow> ('id, 'f) monitor \<Rightarrow> bool"
  for C :: "('id, 'f) mon_cfg" where
  start: "mon_run C s [] s"
| step: "mon_run C s es t \<Longrightarrow> mon_step C e t u \<Longrightarrow> mon_run C s (es @ [e]) u"

inductive_cases mon_step_ReceiveE: "mon_step C (Receive E i) s t"
inductive_cases mon_step_SuggestE: "mon_step C Suggest s t"
inductive_cases mon_step_AnalyseE: "mon_step C (Analyse E) s t"
inductive_simps mon_step_Prune [simp]: "mon_step C (Prune_tick now) s t"
inductive_simps mon_step_Isolation [simp]: "mon_step C Isolation s t"
inductive_simps mon_run_Nil [simp]: "mon_run C s [] t"
inductive_simps mon_run_snoc: "mon_run C s (es @ [e]) t"

lemma mon_step_Receive:
  "mon_step C (Receive E i) s t \<Longrightarrow> mo_recv t = m_receive_turn ((mc_recv C)\<lparr>rf_generation := mo_gen s\<rparr>) (E, i) (mo_recv s)
     \<and> mo_gen t = mo_gen s"
  by (erule mon_step_ReceiveE) simp

lemma mon_run_append: "mon_run C s es t \<Longrightarrow> mon_run C t fs u \<Longrightarrow> mon_run C s (es @ fs) u"
proof (induction fs arbitrary: u rule: rev_induct)
  case (snoc f fs)
  then obtain v where "mon_run C t fs v" "mon_step C f v u" by (auto simp: mon_run_snoc)
  with snoc show ?case by (metis append_assoc mon_run.step)
qed simp

lemma mon_run_Cons:
  assumes "mon_run C s (e # es) u"
  obtains t where "mon_step C e s t" "mon_run C t es u"
  using assms
proof (induction es arbitrary: u thesis rule: rev_induct)
  case Nil
  then show ?case by (metis append_Nil mon_run_Nil mon_run_snoc)
next
  case (snoc f es)
  then obtain v where v: "mon_run C s (e # es) v" "mon_step C f v u" by (metis append_Cons mon_run_snoc)
  from snoc.IH [OF _ v(1)] obtain t where "mon_step C e s t" "mon_run C t es v" by blast
  with v(2) snoc.prems(1) show ?case by (metis mon_run.step)
qed

section \<open>The registry along a run\<close>

abbreviation registry_of :: "('id, 'f) monitor \<Rightarrow> registry" where
  "registry_of s \<equiv> mr_registry (mo_recv s)"

text \<open>The registry operations that an event may perform.\<close>

fun op_of :: "('id, 'f) mon_cfg \<Rightarrow> 'id mon_event \<Rightarrow> reg_op \<Rightarrow> bool" where
  "op_of C e (reg_op.Update now a) \<longleftrightarrow>
     (\<exists>E content from_peer. e = Receive E (Msg content from_peer) \<and> now = ri_now E
        \<and> parse_announce (rf_lib (mc_recv C)) content = Some a \<and> a_msg_type a = ''peer_announce'')"
| "op_of C e (reg_op.Snapshot now) \<longleftrightarrow> True"
| "op_of C e (reg_op.Prune now) \<longleftrightarrow> e = Prune_tick now"

lemma m_receive_registry:
  "mr_registry (m_receive_turn K (E, i) r) = mr_registry r
   \<or> (\<exists>content from_peer a. i = Msg content from_peer \<and> parse_announce (rf_lib K) content = Some a
        \<and> a_msg_type a = ''peer_announce'' \<and> mr_registry (m_receive_turn K (E, i) r) = registry_update (ri_now E) a (mr_registry r))"
  by (cases i) (auto simp: m_receive_turn_def m_task_end_def m_message_def Let_def split: option.splits if_split_asm)

lemma add_join_keeps [simp]:
  "mo_recv (add_join j s) = mo_recv s" "mo_gen (add_join j s) = mo_gen s" "mo_log (add_join j s) = mo_log s"
  "mo_last (add_join j s) = mo_last s" "mo_sent (add_join j s) = mo_sent s" "mo_pending (add_join j s) = mo_pending s"
  "mo_analysis (add_join j s) = mo_analysis s" "mo_stream (add_join j s) = mo_stream s"
  by (simp_all add: add_join_def split: option.splits)

lemma respawn_keeps [simp]:
  "mr_registry (mo_recv (respawn c s)) = mr_registry (mo_recv s)" "mr_ctl (mo_recv (respawn c s)) = c" "mo_log (respawn c s) = mo_log s"
  "mo_last (respawn c s) = mo_last s" "mo_sent (respawn c s) = mo_sent s" "mo_pending (respawn c s) = mo_pending s"
  "mo_analysis (respawn c s) = mo_analysis s" "mo_stream (respawn c s) = mo_stream s"
  by (simp_all add: respawn_def)

lemma suggest_one_registry:
  "mg_registry (suggest_one lower L k E i g v) = mg_registry v
   \<or> mg_registry (suggest_one lower L k E i g v) = fst (registry_snapshot lower (sg_lookup_now E i) (mg_registry v))"
  by (simp add: suggest_one_def Let_def case_prod_beta split: bcast_result.split)

lemma web_get_registry:
  "wb_registry (fst (web_get B lower now path w)) = wb_registry w
   \<or> wb_registry (fst (web_get B lower now path w)) = fst (registry_snapshot lower now (wb_registry w))"
proof (cases "map_of web_routes path")
  case (Some h)
  then show ?thesis by (cases h) (simp_all add: web_get_def swarm_handler_def case_prod_beta)
qed (simp add: web_get_def)

lemma mon_step_op:
  assumes "mon_step C e s t"
  shows "registry_of t = registry_of s \<or> (\<exists>op. op_of C e op \<and> registry_of t = apply_reg (mc_lower C) op (registry_of s))"
  using assms
proof cases
  case (Receive E i)
  let ?r = "m_receive_turn ((mc_recv C)\<lparr>rf_generation := mo_gen s\<rparr>) (E, i) (mo_recv s)"
  have t: "registry_of t = mr_registry ?r" using Receive by simp
  consider "mr_registry ?r = registry_of s"
    | content from_peer a where "i = Msg content from_peer" "parse_announce (rf_lib (mc_recv C)) content = Some a"
        "a_msg_type a = ''peer_announce''" "mr_registry ?r = registry_update (ri_now E) a (registry_of s)"
    using m_receive_registry [of "(mc_recv C)\<lparr>rf_generation := mo_gen s\<rparr>" E i "mo_recv s"] by auto
  then show ?thesis
  proof cases
    case (2 content from_peer a)
    then have "op_of C e (reg_op.Update (ri_now E) a)" using Receive(1) by auto
    with 2(4) t show ?thesis by (metis apply_reg.simps(1))
  qed (simp add: t)
next
  case (Analyse E r snap ta)
  then have "registry_of t = apply_reg (mc_lower C) (reg_op.Snapshot (sg_snapshot_now E)) (registry_of s)" by simp
  then show ?thesis using op_of.simps(2) by blast
next
  case (Suggest E i g gs)
  then show ?thesis
    using suggest_one_registry [of "mc_lower C" "rf_lib (mc_recv C)" "mc_key C" E i g "suggest_view s"]
    by (auto simp: put_suggest_def suggest_view_def intro!: exI [of _ "reg_op.Snapshot (sg_lookup_now E i)"])
next
  case (Push now r d)
  then have "registry_of t = apply_reg (mc_lower C) (reg_op.Snapshot now) (registry_of s)"
    by (auto simp: push_snapshot_def case_prod_beta)
  then show ?thesis using op_of.simps(2) by blast
next
  case (Prune now)
  then have "registry_of t = apply_reg (mc_lower C) (reg_op.Prune now) (registry_of s)" by simp
  then show ?thesis using Prune(1) op_of.simps(3) by blast
next
  case (Get now path w reply)
  then have "registry_of t = wb_registry (fst (web_get (mc_build C) (mc_lower C) now path (web_view s)))" by simp
  then have "registry_of t = registry_of s \<or> registry_of t = apply_reg (mc_lower C) (reg_op.Snapshot now) (registry_of s)"
    using web_get_registry [of "mc_build C" "mc_lower C" now path "web_view s"] by (simp add: web_view_def)
  then show ?thesis using op_of.simps(2) by blast
qed simp_all

lemma mon_step_wf: "mon_step C e s t \<Longrightarrow> registry_wf (registry_of s) \<Longrightarrow> registry_wf (registry_of t)"
  using mon_step_op [of C e s t] apply_reg_wf by metis

text \<open>What a registry entry keeps of the announcement it came from.\<close>

definition core :: "peer_state \<Rightarrow> peer_state" where
  "core p = p\<lparr>p_stale := False, p_history := []\<rparr>"

lemma core_refresh [simp]: "core (refresh_peer now hist p) = core p"
  by (simp add: core_def refresh_peer_def)

lemma core_peer_state_of [simp]: "core (peer_state_of now a) = peer_state_of now a"
  by (simp add: core_def peer_state_of_def)

lemma apply_reg_entry:
  assumes "(k, p) \<in> set (reg_peers (apply_reg lower op r))"
  shows "(\<exists>q. (k, q) \<in> set (reg_peers r) \<and> core p = core q)
    \<or> (\<exists>now a. op = reg_op.Update now a \<and> k = a_node_id a \<and> p = peer_state_of now a)"
proof (cases op)
  case (Update now a)
  then show ?thesis using assms set_update_subset [of "a_node_id a" "peer_state_of now a" "reg_peers r"]
    by (auto simp: registry_update_def Let_def split: if_split_asm)
next
  case (Snapshot now)
  then show ?thesis using assms by (auto simp: registry_snapshot_def Let_def)
next
  case (Prune now)
  then show ?thesis using assms by (auto simp: prune_stale_def Let_def)
qed

lemma update_present: "k \<noteq> k' \<Longrightarrow> (k, p) \<in> set al \<Longrightarrow> (k, p) \<in> set (AList.update k' v al)"
  by (induction al) auto

lemma update_in: "(k, v) \<in> set (AList.update k v al)"
  by (induction al) auto

definition present_since :: "string \<Rightarrow> u64 \<Rightarrow> registry \<Rightarrow> bool" where
  "present_since k t r \<longleftrightarrow> (\<exists>p. (k, p) \<in> set (reg_peers r) \<and> t \<le> p_last_seen p)"

fun op_within :: "u64 \<Rightarrow> reg_op \<Rightarrow> bool" where
  "op_within t (reg_op.Update now a) \<longleftrightarrow> t \<le> now"
| "op_within t (reg_op.Snapshot now) \<longleftrightarrow> True"
| "op_within t (reg_op.Prune now) \<longleftrightarrow> unat now \<le> unat t + 1800"

lemma present_since_apply:
  assumes "present_since k t r" and "op_within t op"
  shows "present_since k t (apply_reg lower op r)"
proof -
  obtain p where p: "(k, p) \<in> set (reg_peers r)" "t \<le> p_last_seen p" using assms(1) by (auto simp: present_since_def)
  show ?thesis
  proof (cases op)
    case (Update now a)
    show ?thesis
    proof (cases "k = a_node_id a \<and> a_msg_type a = ''peer_announce''")
      case True
      then have "(k, peer_state_of now a) \<in> set (reg_peers (apply_reg lower op r))"
        using Update by (simp add: registry_update_def Let_def update_in)
      moreover have "t \<le> p_last_seen (peer_state_of now a)" using assms(2) Update by (simp add: peer_state_of_def)
      ultimately show ?thesis unfolding present_since_def by blast
    next
      case False
      then have "(k, p) \<in> set (reg_peers (apply_reg lower op r))"
        using Update p(1) by (auto simp: registry_update_def Let_def update_present)
      with p(2) show ?thesis unfolding present_since_def by blast
    qed
  next
    case (Snapshot now)
    then have "(k, refresh_peer now (reg_history r) p) \<in> set (reg_peers (apply_reg lower op r))"
      using p(1) by (force simp: registry_snapshot_def Let_def)
    moreover have "p_last_seen (refresh_peer now (reg_history r) p) = p_last_seen p" by (simp add: refresh_peer_def)
    ultimately show ?thesis using p(2) unfolding present_since_def by metis
  next
    case (Prune now)
    have "unat t \<le> unat (p_last_seen p)" using p(2) by (simp add: word_le_nat_alt)
    then have "unat now - unat (p_last_seen p) \<le> 1800" using assms(2) Prune by simp
    then have "saturating_sub now (p_last_seen p) \<le> PRUNE_THRESHOLD_SECS"
      by (simp add: PRUNE_THRESHOLD_SECS_def word_le_nat_alt unat_saturating_sub)
    then have "(k, p) \<in> set (reg_peers (apply_reg lower op r))"
      using Prune p(1) by (simp add: prune_stale_def Let_def)
    with p(2) show ?thesis unfolding present_since_def by blast
  qed
qed


lemma respawn_gen: "mo_gen (respawn c s) = (if c_sender c = c_sender (mr_ctl (mo_recv s)) then mo_gen s else c_generation c)"
  by (simp add: respawn_def)

section \<open>The invariant\<close>

text \<open>A log entry and a sent message, without the name that was looked up for the entry.\<close>

definition seen_entry :: "suggestion_entry \<Rightarrow> u64 \<times> string \<times> string list \<times> string" where
  "seen_entry e = (se_timestamp e, se_target_node_id e, se_suggested_peers e, se_reason e)"

definition sent_entry :: "nat \<times> peer_suggest \<Rightarrow> u64 \<times> string \<times> string list \<times> string" where
  "sent_entry x = (s_timestamp (snd x), s_target_node_id (snd x), s_suggested_peers (snd x), s_reason (snd x))"

definition log_matches :: "suggestion_entry list \<Rightarrow> (nat \<times> peer_suggest) list \<Rightarrow> bool" where
  "log_matches log sent \<longleftrightarrow> map seen_entry log = last_n MAX_SUGGESTION_LOG (map sent_entry sent)"

lemma log_matches_length: "log_matches log sent \<Longrightarrow> length log \<le> MAX_SUGGESTION_LOG"
proof -
  assume "log_matches log sent"
  then have "length (map seen_entry log) \<le> MAX_SUGGESTION_LOG" by (simp only: log_matches_def) (simp add: last_n_def)
  then show ?thesis by simp
qed

lemma map_last_n: "map f (last_n n xs) = last_n n (map f xs)"
  by (simp add: last_n_def drop_map)

lemma log_matches_push:
  assumes "log_matches log sent" and "seen_entry e = sent_entry x"
  shows "log_matches (suggestion_push log e) (sent @ [x])"
proof -
  have "suggestion_push log e = last_n MAX_SUGGESTION_LOG (log @ [e])"
    using log_matches_length [OF assms(1)] by (rule suggestions.push_law)
  then have "map seen_entry (suggestion_push log e) = last_n MAX_SUGGESTION_LOG (map seen_entry log @ [seen_entry e])"
    by (simp add: map_last_n)
  also have "\<dots> = last_n MAX_SUGGESTION_LOG (map sent_entry sent @ [sent_entry x])"
    using assms by (simp add: log_matches_def last_n_snoc)
  finally show ?thesis by (simp add: log_matches_def)
qed

definition mon_inv :: "nat \<Rightarrow> ('id, 'f) monitor \<Rightarrow> bool" where
  "mon_inv t s \<longleftrightarrow> registry_wf (registry_of s) \<and> mo_gen s = c_generation (mr_ctl (mo_recv s))
     \<and> log_matches (mo_log s) (mo_sent s) \<and> suggest_inv t (suggest_view s)
     \<and> (\<forall>E i gs. mo_pending s = Some (E, i, gs) \<longrightarrow> sg_instant E = t)"

lemma mon_step_Suggest_cases:
  assumes "mon_step C Suggest s t"
  obtains E i g gs where "mo_pending s = Some (E, i, g # gs)"
      "t = (put_suggest (suggest_one (mc_lower C) (rf_lib (mc_recv C)) (mc_key C) E i g (suggest_view s)) s)\<lparr>mo_pending := Some (E, Suc i, gs)\<rparr>"
    | E i where "mo_pending s = Some (E, i, [])" "t = s\<lparr>mo_pending := None\<rparr>"
  using assms by (auto elim!: mon_step_SuggestE)

lemma suggest_inv_cong:
  "mg_sent a = mg_sent b \<Longrightarrow> mg_last a = mg_last b \<Longrightarrow> suggest_inv t a = suggest_inv t b"
  by (simp add: suggest_inv_def)

lemma m_receive_generation: "c_generation (mr_ctl (m_receive_turn K ei r)) = c_generation (mr_ctl r)"
proof (cases ei)
  case (Pair E i)
  then show ?thesis
    by (cases i) (simp_all add: m_receive_turn_def m_task_end_def m_message_def raise_request_def Let_def split: option.splits)
qed

lemma m_reconnect_generation:
  "(c_sender (m_reconnect_turn e c) = c_sender c \<and> c_generation (m_reconnect_turn e c) = c_generation c)
   \<or> c_sender (m_reconnect_turn e c) = Suc (c_sender c)"
  by (simp add: m_reconnect_turn_def Let_def)

lemma m_ctl_generation:
  "c_generation (fst (m_watchdog_turn pid boot f now c)) = c_generation c"
  "c_generation (m_isolation_turn c) = c_generation c"
  "c_generation (fst (m_health_turn n now rss c)) = c_generation c"
  by (simp_all add: m_watchdog_turn_def stall_step_def raise_request_def m_isolation_turn_def m_health_turn_def recycle_def Let_def)

lemma mon_step_generation:
  assumes "mon_step C e s t" and "mo_gen s = c_generation (mr_ctl (mo_recv s))"
  shows "mo_gen t = c_generation (mr_ctl (mo_recv t))"
  using assms
proof cases
  case (Reconnect e)
  then show ?thesis using assms(2) m_reconnect_generation [of e "mr_ctl (mo_recv s)"] by (auto simp: respawn_gen)
next
  case (Watch now c j)
  then show ?thesis using assms(2) m_ctl_generation(1) by (metis add_join_keeps(1,2) fst_conv monitor.select_convs(1,2)
      monitor.surjective monitor.update_convs(1) mrecv.select_convs(1) mrecv.surjective mrecv.update_convs(1))
qed (simp_all add: m_receive_generation m_ctl_generation put_suggest_def)

lemma mon_step_quiet:
  assumes "mon_step C e s t" and "e \<noteq> Suggest"
  shows "mo_log t = mo_log s \<and> mo_sent t = mo_sent s \<and> mo_last t = mo_last s
    \<and> mo_pending t = (case e of Analyse E \<Rightarrow> mo_pending t | _ \<Rightarrow> mo_pending s)"
  using assms by cases simp_all

text \<open>A suggestion leaves log and messages alone or adds to both.\<close>

lemma suggest_one_logged:
  "log_matches (mg_log v) (mg_sent v) \<Longrightarrow>
   log_matches (mg_log (suggest_one lower L k E i g v)) (mg_sent (suggest_one lower L k E i g v))"
  by (auto simp: suggest_one_def Let_def case_prod_beta seen_entry_def sent_entry_def build_suggest_def
      intro!: log_matches_push split: bcast_result.split)

fun instants :: "'id mon_event list \<Rightarrow> nat list" where
  "instants (Analyse E # es) = sg_instant E # instants es"
| "instants (e # es) = instants es"
| "instants [] = []"

lemma instants_append: "instants (es @ fs) = instants es @ instants fs"
  by (induction es rule: instants.induct) simp_all

definition now_of :: "nat list \<Rightarrow> nat" where
  "now_of ts = (if ts = [] then 0 else last ts)"

lemma mon_step_inv:
  assumes step: "mon_step C e s t" and inv: "mon_inv n s"
    and late: "\<And>E. e = Analyse E \<Longrightarrow> n \<le> sg_instant E"
  shows "mon_inv (now_of (n # instants [e])) t"
proof -
  have wf: "registry_wf (registry_of t)" using mon_step_wf [OF step] inv by (simp add: mon_inv_def)
  have gen: "mo_gen t = c_generation (mr_ctl (mo_recv t))" using mon_step_generation [OF step] inv by (simp add: mon_inv_def)
  show ?thesis
  proof (cases "e = Suggest")
    case True
    from step [unfolded True] show ?thesis
    proof (cases rule: mon_step_Suggest_cases)
      case (1 E i g gs)
      let ?v = "suggest_one (mc_lower C) (rf_lib (mc_recv C)) (mc_key C) E i g (suggest_view s)"
      have E: "sg_instant E = n" using inv 1(1) by (simp add: mon_inv_def)
      have "suggest_inv n ?v" using inv E suggest_one_inv by (metis mon_inv_def)
      moreover have "log_matches (mg_log ?v) (mg_sent ?v)"
        by (rule suggest_one_logged) (use inv in \<open>simp add: mon_inv_def suggest_view_def\<close>)
      moreover have "mo_log t = mg_log ?v" "mo_sent t = mg_sent ?v" "mo_last t = mg_last ?v" "mo_pending t = Some (E, Suc i, gs)"
        using 1(2) by (simp_all add: put_suggest_def)
      moreover from this have "suggest_inv n (suggest_view t) = suggest_inv n ?v"
        by (intro suggest_inv_cong) (simp_all add: suggest_view_def)
      ultimately show ?thesis using wf gen E True by (simp add: mon_inv_def now_of_def)
    next
      case (2 E i)
      then have "suggest_view t = suggest_view s" by (simp add: suggest_view_def)
      with 2 inv True show ?thesis by (simp add: mon_inv_def now_of_def)
    qed
  next
    case False
    note q = mon_step_quiet [OF step False]
    then have v: "suggest_inv m (suggest_view t) = suggest_inv m (suggest_view s)" for m
      by (intro suggest_inv_cong) (simp_all add: suggest_view_def)
    show ?thesis
    proof (cases "\<exists>E. e = Analyse E")
      case True
      then obtain E where E: "e = Analyse E" by blast
      from step [unfolded E] obtain r ta where "mo_pending t = Some (E, 0, ta_suggestions (ta :: 'b topology_analysis))"
        by (rule mon_step_AnalyseE) simp
      moreover have "suggest_inv (sg_instant E) (suggest_view t)"
        using v suggest_inv_later [OF _ late [OF E]] inv by (auto simp: mon_inv_def)
      ultimately show ?thesis using q wf gen inv E by (simp add: mon_inv_def now_of_def)
    next
      case ne: False
      then have "instants [e] = []" by (cases e) auto
      moreover have "mo_pending t = mo_pending s" using q ne by (cases e) auto
      ultimately show ?thesis using q v wf gen inv by (simp add: mon_inv_def now_of_def)
    qed
  qed
qed

lemma now_of_snoc: "now_of (now_of ts # us) = now_of (ts @ us)"
  by (simp add: now_of_def)

lemma mon_run_inv:
  assumes "mon_run C s es t" and "mon_inv 0 s" and "sorted (instants es)"
  shows "mon_inv (now_of (instants es)) t"
  using assms
proof (induction rule: mon_run.induct)
  case start
  then show ?case by (simp add: now_of_def)
next
  case (step s es t e u)
  have sorted: "sorted (instants es)" "\<And>E. e = Analyse E \<Longrightarrow> now_of (instants es) \<le> sg_instant E"
    using step.prems(2) by (auto simp: instants_append sorted_append now_of_def)
  then have "mon_inv (now_of (now_of (instants es) # instants [e])) u"
    using step.IH step.prems(1) by (intro mon_step_inv [OF step.hyps(2)]) simp_all
  then show ?case by (simp only: now_of_snoc instants_append)
qed


lemma monitor_start_Ok:
  assumes "monitor_start addr_ok parse_id V fs S = Ret (Ok s)"
  shows "registry_of s = registry_new" "mo_gen s = 1" "c_generation (mr_ctl (mo_recv s)) = 1" "mr_status (mo_recv s) = Running"
    "mo_analysis s = None" "mo_log s = []" "mo_last s = Map.empty" "mo_sent s = []" "mo_pending s = None"
proof -
  obtain cfg where "s = monitor_initial parse_id cfg fs S"
    using assms by (cases "st_node_key S"; cases "network_start (st_bound S) (st_topic S)")
      (auto simp: monitor_start_def bind_outcome_Ret_iff split: if_split_asm)
  then show "registry_of s = registry_new" "mo_gen s = 1" "c_generation (mr_ctl (mo_recv s)) = 1" "mr_status (mo_recv s) = Running"
    "mo_analysis s = None" "mo_log s = []" "mo_last s = Map.empty" "mo_sent s = []" "mo_pending s = None"
    by (simp_all add: monitor_initial_def ctl_start_def)
qed

lemma started_monitor_inv:
  assumes "monitor_start addr_ok parse_id V fs S = Ret (Ok s)"
  shows "mon_inv 0 s"
proof -
  have "suggest_inv 0 (suggest_view s) = suggest_inv 0 (suggest_start registry_new :: 'c suggest_state)"
    by (intro suggest_inv_cong) (simp_all add: suggest_view_def suggest_start_def monitor_start_Ok [OF assms])
  then show ?thesis
    by (simp add: mon_inv_def monitor_start_Ok [OF assms] registry_new_wf suggest_start_inv log_matches_def last_n_def)
qed

lemma mon_run_wf_gen:
  "mon_run C s es t \<Longrightarrow> registry_wf (registry_of s) \<and> mo_gen s = c_generation (mr_ctl (mo_recv s))
    \<Longrightarrow> registry_wf (registry_of t) \<and> mo_gen t = c_generation (mr_ctl (mo_recv t))"
  by (induction rule: mon_run.induct) (auto intro: mon_step_wf mon_step_generation)

lemma started_run_wf_gen:
  assumes "monitor_start addr_ok parse_id V fs S = Ret (Ok s)" and "mon_run C s es t"
  shows "registry_wf (registry_of t)" "mo_gen t = c_generation (mr_ctl (mo_recv t))"
  using mon_run_wf_gen [OF assms(2)] by (simp_all add: monitor_start_Ok [OF assms(1)] registry_new_wf)

section \<open>What the web page shows\<close>

text \<open>The events that can have announced an entry of the registry.\<close>

definition announced :: "('id, 'f) mon_cfg \<Rightarrow> 'id mon_event list \<Rightarrow> peer_state \<Rightarrow> bool" where
  "announced C es p \<longleftrightarrow> (\<exists>E content from_peer a. Receive E (Msg content from_peer) \<in> set es
     \<and> parse_announce (rf_lib (mc_recv C)) content = Some a \<and> a_msg_type a = ''peer_announce''
     \<and> core p = peer_state_of (ri_now E) a)"

lemma mon_run_announced:
  assumes "mon_run C s es t" and "registry_of s = registry_new" and "(k, p) \<in> set (reg_peers (registry_of t))"
  shows "announced C es p"
  using assms
proof (induction arbitrary: p rule: mon_run.induct)
  case start
  then show ?case by (simp add: registry_new_def)
next
  case (step s es t e u)
  have mono: "announced C es q \<Longrightarrow> core p = core q \<Longrightarrow> announced C (es @ [e]) p" for q
    unfolding announced_def by (metis Un_iff set_append)
  from mon_step_op [OF step.hyps(2)] show ?case
  proof
    assume "registry_of u = registry_of t"
    with step mono show ?thesis by metis
  next
    assume "\<exists>op. op_of C e op \<and> registry_of u = apply_reg (mc_lower C) op (registry_of t)"
    then obtain op where op: "op_of C e op" "registry_of u = apply_reg (mc_lower C) op (registry_of t)" by blast
    from step.prems(2) op(2) have "(k, p) \<in> set (reg_peers (apply_reg (mc_lower C) op (registry_of t)))" by simp
    from apply_reg_entry [OF this] show ?thesis
    proof
      assume "\<exists>q. (k, q) \<in> set (reg_peers (registry_of t)) \<and> core p = core q"
      with step mono show ?thesis by metis
    next
      assume "\<exists>now a. op = reg_op.Update now a \<and> k = a_node_id a \<and> p = peer_state_of now a"
      then obtain now a where "op = reg_op.Update now a" "p = peer_state_of now a" by blast
      with op(1) show ?thesis unfolding announced_def by fastforce
    qed
  qed
qed

lemma swarm_page:
  assumes "snd (web_get B lower now ''/api/swarm'' (web_view t)) = Some (Json (snapshot_json snap))"
  shows "snap = snd (registry_snapshot lower now (registry_of t))"
  using assms by (simp add: web_get_swarm web_view_def)

lemma snapshot_member:
  assumes "p \<in> set (sn_peers (snd (registry_snapshot lower now r)))"
  obtains k q where "(k, q) \<in> set (reg_peers r)" "p = refresh_peer now (reg_history r) q"
  using assms by (auto simp: snapshot_peers)

lemma distinct_map_sort_key: "distinct (map f xs) \<Longrightarrow> distinct (map f (sort_key g xs))"
  by (simp add: distinct_map)

lemma snapshot_ids_distinct:
  assumes "registry_wf r"
  shows "distinct (map p_node_id (sn_peers (snd (registry_snapshot lower now r))))"
proof -
  let ?ps = "map (\<lambda>(k, p). refresh_peer now (reg_history r) p) (reg_peers r)"
  have "map p_node_id ?ps = map fst (reg_peers r)"
    using assms by (auto simp: registry_wf_def refresh_peer_def)
  moreover have "distinct (map fst (reg_peers r))" using assms by (simp add: registry_wf_def)
  ultimately have "distinct (map p_node_id ?ps)" by (simp only:)
  then have "distinct (map p_node_id (sort_key (display_key lower) ?ps))" by (rule distinct_map_sort_key)
  moreover have "sn_peers (snd (registry_snapshot lower now r)) = sort_key (display_key lower) ?ps"
    by (simp add: registry_snapshot_def Let_def comp_def case_prod_beta')
  ultimately show ?thesis by simp
qed

fun clock_within :: "u64 \<Rightarrow> 'id mon_event \<Rightarrow> bool" where
  "clock_within t (Receive E i) \<longleftrightarrow> t \<le> ri_now E"
| "clock_within t (Prune_tick now) \<longleftrightarrow> unat now \<le> unat t + 1800"
| "clock_within t _ \<longleftrightarrow> True"

lemma mon_run_present:
  assumes "mon_run C s es u" and "present_since k t (registry_of s)" and "list_all (clock_within t) es"
  shows "present_since k t (registry_of u)"
  using assms
proof (induction rule: mon_run.induct)
  case (step s es v e u)
  then have p: "present_since k t (registry_of v)" and c: "clock_within t e" by simp_all
  have within: "op_of C e op \<Longrightarrow> op_within t op" for op
    using c by (cases op) auto
  from mon_step_op [OF step.hyps(2)] show ?case
    using p present_since_apply within by metis
qed simp

lemma m_receive_announcement:
  assumes "mr_status r = Running" and "c_generation (mr_ctl r) = rf_generation K" and "\<not> c_shutdown (mr_ctl r)"
    and "parse_announce (rf_lib K) content = Some a" and "a_msg_type a = ''peer_announce''"
  shows "mr_registry (m_receive_turn K (E, Msg content from_peer) r) = registry_update (ri_now E) a (mr_registry r)"
  using assms by (simp add: m_receive_turn_def m_message_def Let_def)

lemma update_present_since: "a_msg_type a = ''peer_announce'' \<Longrightarrow> present_since (a_node_id a) now (registry_update now a r)"
  unfolding present_since_def
  by (rule exI [of _ "peer_state_of now a"]) (simp add: registry_update_def Let_def update_in, simp add: peer_state_of_def)

section \<open>A round of suggestions\<close>

lemma suggest_view_put: "\<not> mg_panicked v \<Longrightarrow> suggest_view (put_suggest v s) = v"
  by (cases v) (simp add: suggest_view_def put_suggest_def)

lemma suggest_view_pending [simp]: "suggest_view (s\<lparr>mo_pending := x\<rparr>) = suggest_view s"
  by (simp add: suggest_view_def)

lemma suggest_one_panicked: "mg_panicked (suggest_one lower L k E i g v) = mg_panicked v"
  using suggest_all_panicked [of lower L k E i "[g]" v] by simp

lemma suggests_run:
  assumes "mo_pending s = Some (E, i, gs)"
  shows "\<exists>t. mon_run C s (replicate (Suc (length gs)) Suggest) t \<and> mo_pending t = None
    \<and> suggest_view t = suggest_all (mc_lower C) (rf_lib (mc_recv C)) (mc_key C) E i gs (suggest_view s)"
  using assms
proof (induction gs arbitrary: s i)
  case Nil
  have "mon_run C s ([] @ [Suggest]) (s\<lparr>mo_pending := None\<rparr>)"
    by (rule mon_run.step [OF mon_run.start mon_step.Suggested [OF Nil]])
  then show ?case by (intro exI [of _ "s\<lparr>mo_pending := None\<rparr>"]) simp
next
  case (Cons g gs)
  let ?v = "suggest_one (mc_lower C) (rf_lib (mc_recv C)) (mc_key C) E i g (suggest_view s)"
  let ?s = "(put_suggest ?v s)\<lparr>mo_pending := Some (E, Suc i, gs)\<rparr>"
  have "\<not> mg_panicked ?v" by (simp add: suggest_one_panicked) (simp add: suggest_view_def)
  then have v: "suggest_view (put_suggest ?v s) = ?v" by (rule suggest_view_put)
  have "mon_run C s ([] @ [Suggest]) ?s" by (rule mon_run.step [OF mon_run.start mon_step.Suggest [OF Cons.prems]])
  moreover obtain t where "mon_run C ?s (replicate (Suc (length gs)) Suggest) t" "mo_pending t = None"
    "suggest_view t = suggest_all (mc_lower C) (rf_lib (mc_recv C)) (mc_key C) E (Suc i) gs (suggest_view ?s)"
    using Cons.IH [of ?s "Suc i"] by auto
  ultimately show ?case
    using mon_run_append [of C s "[] @ [Suggest]" ?s] by (intro exI [of _ t]) (simp add: v)
qed

section \<open>Properties\<close>

text \<open>C15. A consistent monitor: however its tasks and web requests interleave, the registry stays well
  formed, the receive task in charge is that of the newest subscription, and the suggestion log, which
  the web server shows, is exactly the last 200 suggestions sent, in order; when the rounds of
  suggestions happen at non-decreasing times, consecutive suggestions to one node are at least 300
  seconds apart, across rounds and reconnects.\<close>

theorem monitor_invariant:
  assumes "monitor_start addr_ok parse_id V fs S = Ret (Ok s)" and "mon_run C s es t" and "sorted (instants es)"
  shows "registry_wf (registry_of t) \<and> mo_gen t = c_generation (mr_ctl (mo_recv t))
    \<and> map seen_entry (mo_log t) = last_n 200 (map sent_entry (mo_sent t))
    \<and> (\<forall>target. successively (\<lambda>a b. a + 300 * 10 ^ 9 \<le> b) (sent_to target (mo_sent t)))"
proof -
  have inv: "mon_inv (now_of (instants es)) t" using mon_run_inv [OF assms(2) started_monitor_inv [OF assms(1)] assms(3)] .
  then have "\<forall>target. successively spaced (sent_to target (mo_sent t))"
    by (simp add: mon_inv_def suggest_inv_def suggest_view_def)
  moreover have "spaced = (\<lambda>a b. a + 300 * 10 ^ 9 \<le> b)" by (simp add: spaced_def fun_eq_iff)
  ultimately have "\<forall>target. successively (\<lambda>a b. a + 300 * 10 ^ 9 \<le> b) (sent_to target (mo_sent t))" by (simp only: simp_thms)
  moreover have "map seen_entry (mo_log t) = last_n 200 (map sent_entry (mo_sent t))"
    using inv by (simp add: mon_inv_def log_matches_def MAX_SUGGESTION_LOG_def)
  ultimately show ?thesis using inv unfolding mon_inv_def by blast
qed

definition demo_mcfg :: "(string, int) mon_cfg" where
  "demo_mcfg = \<lparr>mc_recv = demo_lcfg\<lparr>rf_lib := demo_wlib\<lparr>parse_announce := \<lambda>_. Some demo_announce\<rparr>\<rparr>, mc_boot = '''',
     mc_key = ''k'', mc_lower = (\<lambda>x. x), mc_f64 = demo_f64,
     mc_build = \<lparr>wu_asset = (\<lambda>_. ''''), wu_version = ''0.1.0'', wu_num = JInt\<rparr>\<rparr>"

definition demo_minput :: recv_env where
  "demo_minput = \<lparr>ri_now = 100, ri_now2 = 100, ri_peers_ok = True, ri_trusted_ok = True, ri_order = (\<lambda>_. [])\<rparr>"

definition demo_monitor :: "(string, int) monitor" where
  "demo_monitor = monitor_initial Some (case monitor_settings (\<lambda>_. True) Map.empty of Ret c \<Rightarrow> c) Map.empty demo_start_env"

definition demo_mon_events :: "string mon_event list" where
  "demo_mon_events = [Receive demo_minput (Msg ''A'' ''q''), Analyse (demo_suggest_env 5), Prune_tick 1800]"

lemma demo_monitor_start: "monitor_start (\<lambda>_. True) Some Map.empty Map.empty demo_start_env = Ret (Ok demo_monitor)"
  using demo_network by (auto simp: monitor_start_def demo_monitor_def monitor_settings_def) (auto simp: demo_start_env_def)

lemma demo_monitor_run: "\<exists>t. mon_run demo_mcfg demo_monitor demo_mon_events t"
proof -
  let ?f = "demo_monitor\<lparr>mo_recv := m_receive_turn ((mc_recv demo_mcfg)\<lparr>rf_generation := mo_gen demo_monitor\<rparr>)
    (demo_minput, Msg ''A'' ''q'') (mo_recv demo_monitor)\<rparr>"
  have 1: "mon_run demo_mcfg demo_monitor ([] @ [Receive demo_minput (Msg ''A'' ''q'')]) ?f"
    by (intro mon_run.step [OF mon_run.start] mon_step.Receive)
  obtain r snap where r: "registry_snapshot (mc_lower demo_mcfg) (sg_snapshot_now (demo_suggest_env 5)) (registry_of ?f) = (r, snap)"
    by fastforce
  obtain ta where "analyze_topology (mc_f64 demo_mcfg) (sg_analysis_now (demo_suggest_env 5)) snap = Ret ta"
    using analyze_topology_returns by blast
  moreover have "mo_pending ?f = None" by (simp add: demo_monitor_def monitor_initial_def)
  ultimately obtain u where "mon_step demo_mcfg (Analyse (demo_suggest_env 5)) ?f u"
    using r mon_step.Analyse by blast
  from mon_run.step [OF mon_run.step [OF 1 this] mon_step.Prune [of demo_mcfg 1800]]
  show ?thesis by (auto simp: demo_mon_events_def)
qed

theorem monitor_invariant_witness:
  "\<exists>t. mon_run demo_mcfg demo_monitor demo_mon_events t \<and> registry_wf (registry_of t)"
proof -
  obtain t where t: "mon_run demo_mcfg demo_monitor demo_mon_events t" using demo_monitor_run by blast
  moreover have "sorted (instants demo_mon_events)" by (simp add: demo_mon_events_def)
  ultimately show ?thesis using monitor_invariant [OF demo_monitor_start t] by blast
qed

text \<open>C16. The swarm page is truthful: every peer it lists was announced by a message received since the start,
  and is shown with the data of that message, the time it came, and the stale mark exactly when more
  than 600 seconds have passed; no node is listed twice.\<close>

theorem swarm_page_is_truthful:
  assumes "monitor_start addr_ok parse_id V fs S = Ret (Ok s)" and "mon_run C s es t"
    and "snd (web_get B lower now ''/api/swarm'' (web_view t)) = Some (Json (snapshot_json snap))"
  shows "(\<forall>p \<in> set (sn_peers snap). \<exists>E content from_peer a. Receive E (Msg content from_peer) \<in> set es
      \<and> parse_announce (rf_lib (mc_recv C)) content = Some a \<and> a_msg_type a = ''peer_announce''
      \<and> core p = peer_state_of (ri_now E) a \<and> (p_stale p \<longleftrightarrow> 600 < unat now - unat (ri_now E)))
    \<and> distinct (map p_node_id (sn_peers snap))"
proof -
  have snap: "snap = snd (registry_snapshot lower now (registry_of t))" by (rule swarm_page [OF assms(3)])
  have "\<exists>E content from_peer a. Receive E (Msg content from_peer) \<in> set es
      \<and> parse_announce (rf_lib (mc_recv C)) content = Some a \<and> a_msg_type a = ''peer_announce''
      \<and> core p = peer_state_of (ri_now E) a \<and> (p_stale p \<longleftrightarrow> 600 < unat now - unat (ri_now E))"
    if p: "p \<in> set (sn_peers snap)" for p
  proof -
    from p [unfolded snap] obtain k q where q: "(k, q) \<in> set (reg_peers (registry_of t))"
      "p = refresh_peer now (reg_history (registry_of t)) q"
      by (rule snapshot_member)
    from mon_run_announced [OF assms(2) monitor_start_Ok(1) [OF assms(1)] q(1)] obtain E content from_peer a
      where a: "Receive E (Msg content from_peer) \<in> set es" "parse_announce (rf_lib (mc_recv C)) content = Some a"
        "a_msg_type a = ''peer_announce''" "core q = peer_state_of (ri_now E) a"
      unfolding announced_def by blast
    from a(4) have "p_last_seen (core q) = ri_now E" by (simp add: peer_state_of_def)
    then have "p_last_seen q = ri_now E" by (simp add: core_def)
    then have "p_stale p \<longleftrightarrow> 600 < unat now - unat (ri_now E)"
      by (simp add: q(2) refresh_peer_def is_stale_def STALE_THRESHOLD_SECS_def word_less_nat_alt unat_saturating_sub)
    with a q(2) show ?thesis by (metis core_refresh)
  qed
  moreover have "distinct (map p_node_id (sn_peers snap))"
    unfolding snap by (rule snapshot_ids_distinct [OF started_run_wf_gen(1) [OF assms(1,2)]])
  ultimately show ?thesis by blast
qed

theorem swarm_page_is_truthful_witness:
  "\<exists>t snap. mon_run demo_mcfg demo_monitor demo_mon_events t
     \<and> snd (web_get (mc_build demo_mcfg) (\<lambda>x. x) 1500 ''/api/swarm'' (web_view t)) = Some (Json (snapshot_json snap))
     \<and> distinct (map p_node_id (sn_peers snap))"
proof -
  obtain t where t: "mon_run demo_mcfg demo_monitor demo_mon_events t" using demo_monitor_run by blast
  let ?snap = "snd (registry_snapshot (\<lambda>x. x) 1500 (registry_of t))"
  have "snd (web_get (mc_build demo_mcfg) (\<lambda>x. x) 1500 ''/api/swarm'' (web_view t)) = Some (Json (snapshot_json ?snap))"
    by (simp add: web_get_swarm web_view_def)
  with t swarm_page_is_truthful [OF demo_monitor_start t this] show ?thesis by blast
qed

text \<open>C17. An announced peer is visible: from the turn that takes its announcement, and for as long as no clock
  reading is more than 1800 seconds later or earlier than it, every swarm page lists the node, whatever
  else the monitor does.\<close>

theorem announced_peer_stays_visible:
  assumes "monitor_start addr_ok parse_id V fs S = Ret (Ok s0)" and "mon_run C s0 es0 s"
    and "mr_status (mo_recv s) = Running" and "\<not> c_shutdown (mr_ctl (mo_recv s))"
    and "parse_announce (rf_lib (mc_recv C)) content = Some a" and "a_msg_type a = ''peer_announce''"
    and "mon_run C s (Receive E (Msg content from_peer) # es) t" and "list_all (clock_within (ri_now E)) es"
  shows "\<exists>snap. snd (web_get B lower now ''/api/swarm'' (web_view t)) = Some (Json (snapshot_json snap))
    \<and> a_node_id a \<in> p_node_id ` set (sn_peers snap)"
proof -
  obtain u where u: "mon_step C (Receive E (Msg content from_peer)) s u" "mon_run C u es t"
    using mon_run_Cons [OF assms(7)] by blast
  have gen: "mo_gen s = c_generation (mr_ctl (mo_recv s))" by (rule started_run_wf_gen(2) [OF assms(1,2)])
  have wf: "registry_wf (registry_of t)" by (rule started_run_wf_gen(1) [OF assms(1) mon_run_append [OF assms(2,7)]])
  have "registry_of u = registry_update (ri_now E) a (registry_of s)"
    using mon_step_Receive [OF u(1)] assms(3-6) gen by (simp add: m_receive_announcement)
  then have "present_since (a_node_id a) (ri_now E) (registry_of u)" using assms(6) by (simp add: update_present_since)
  from mon_run_present [OF u(2) this assms(8)] obtain p where "(a_node_id a, p) \<in> set (reg_peers (registry_of t))"
    by (auto simp: present_since_def)
  moreover from this wf have "p_node_id p = a_node_id a" by (auto simp: registry_wf_def)
  ultimately have "a_node_id a \<in> p_node_id ` set (sn_peers (snd (registry_snapshot lower now (registry_of t))))"
    by (force simp: snapshot_peers refresh_peer_def)
  then show ?thesis by (simp add: web_get_swarm web_view_def)
qed

theorem announced_peer_stays_visible_witness:
  "\<exists>t snap. mon_run demo_mcfg demo_monitor demo_mon_events t
     \<and> snd (web_get (mc_build demo_mcfg) (\<lambda>x. x) 1500 ''/api/swarm'' (web_view t)) = Some (Json (snapshot_json snap))
     \<and> ''n1'' \<in> p_node_id ` set (sn_peers snap)"
proof -
  obtain t where t: "mon_run demo_mcfg demo_monitor demo_mon_events t" using demo_monitor_run by blast
  have "mr_status (mo_recv demo_monitor) = Running" "\<not> c_shutdown (mr_ctl (mo_recv demo_monitor))"
    by (simp_all add: demo_monitor_def monitor_initial_def ctl_start_def)
  moreover have "parse_announce (rf_lib (mc_recv demo_mcfg)) ''A'' = Some demo_announce" by (simp add: demo_mcfg_def)
  moreover have "a_msg_type demo_announce = ''peer_announce''" "a_node_id demo_announce = ''n1''"
    by (simp_all add: demo_announce_def announce_new_def)
  moreover have "list_all (clock_within (ri_now demo_minput)) [Analyse (demo_suggest_env 5), Prune_tick 1800 :: string mon_event]"
    by (simp add: demo_minput_def)
  ultimately show ?thesis
    using announced_peer_stays_visible [OF demo_monitor_start mon_run.start, of demo_mcfg "''A''" demo_announce demo_minput "''q''" _ t
        "mc_build demo_mcfg" "\<lambda>x. x" 1500] t unfolding demo_mon_events_def by metis
qed

text \<open>C33. Rounds of suggestions complete: from any state without an open round, an analysis and as many
  suggestion turns as it needs can run and end the round, and together they do what the task does in
  one piece.\<close>

theorem suggestion_round_completes:
  assumes "mo_pending s = None"
  shows "\<exists>n t. mon_run C s (Analyse E # replicate n Suggest) t \<and> mo_pending t = None
    \<and> suggest_view t = suggest_turn (mc_lower C) (mc_f64 C) (rf_lib (mc_recv C)) (mc_key C) E (suggest_view s)"
proof -
  obtain r snap where r: "registry_snapshot (mc_lower C) (sg_snapshot_now E) (registry_of s) = (r, snap)" by fastforce
  obtain ta where ta: "analyze_topology (mc_f64 C) (sg_analysis_now E) snap = Ret ta" using analyze_topology_returns by blast
  let ?s = "(set_registry r s)\<lparr>mo_analysis := Some ta, mo_pending := Some (E, 0, ta_suggestions ta)\<rparr>"
  have "mon_run C s ([] @ [Analyse E]) ?s"
    by (rule mon_run.step [OF mon_run.start mon_step.Analyse [OF assms r ta]])
  moreover have "suggest_view ?s = (suggest_view s)\<lparr>mg_registry := r, mg_analysis := Some ta\<rparr>" by (simp add: suggest_view_def)
  moreover have "mg_registry (suggest_view s) = registry_of s" by (simp add: suggest_view_def)
  moreover obtain t where "mon_run C ?s (replicate (Suc (length (ta_suggestions ta))) Suggest) t" "mo_pending t = None"
    "suggest_view t = suggest_all (mc_lower C) (rf_lib (mc_recv C)) (mc_key C) E 0 (ta_suggestions ta) (suggest_view ?s)"
    using suggests_run [of ?s E 0 "ta_suggestions ta" C] by auto
  ultimately show ?thesis
    using mon_run_append [of C s "[] @ [Analyse E]" ?s] r ta
    by (intro exI [of _ "Suc (length (ta_suggestions ta))"] exI [of _ t]) (simp add: suggest_turn_def)
qed

theorem suggestion_round_completes_witness:
  "\<exists>n t. mon_run demo_mcfg demo_monitor (Analyse (demo_suggest_env 5) # replicate n Suggest) t \<and> mo_pending t = None"
proof -
  have "mo_pending demo_monitor = None" by (simp add: demo_monitor_def monitor_initial_def)
  from suggestion_round_completes [OF this, of demo_mcfg "demo_suggest_env 5"] show ?thesis by blast
qed

end
