(* ===== verification/Spec2Isabelle.thy ===== *)
theory Spec2Isabelle
  imports Frontend_Start Stresser Process_Metrics Writer_Program Listener_Program Monitor_Program
begin

text \<open>
  \<^bold>\<open>Verification of podping.alpha.\<close> The repository carries podcast update notifications ("pings") from
  HTTP requests to subscribers over a gossip network.

  \<^bold>\<open>Parts and how they interact.\<close>
  The front-end (\<^verbatim>\<open>podping\<close>) authorises HTTP requests and queues pings in SQLite; its queue thread sends
  them to a writer over ZMQ and removes them when the writer replies. The writer (\<^verbatim>\<open>gossip-writer\<close>)
  batches pings into signed notifications, archives them and broadcasts them on a gossip topic. The
  listener (\<^verbatim>\<open>gossip-listener\<close>) receives them, filters by trusted publisher, archives them and streams
  them to subscribers; it serves and uses an archive-sync protocol to catch up. The monitor
  (\<^verbatim>\<open>gossip-monitor\<close>) collects announcements, analyses the topology of the swarm and broadcasts join
  suggestions. The topic tracker (\<^verbatim>\<open>dtt-fork\<close>) finds members of the topic through records in the
  mainline DHT. Writer, listener and monitor keep their subscription alive with the same kind of
  watchdog, isolation, health and reconnect tasks.

  \<^bold>\<open>Theories and sources.\<close>
  \<^item> \<open>Podping_Prelude\<close>: machine integers, results and panics, and the interfaces \<open>codec\<close> and \<open>capped_log\<close>.
    \<open>Rust_Strings\<close>: UTF-8 slices, case, splitting. \<open>Byte_Codecs\<close>: integers as bytes, \<^verbatim>\<open>split_at\<close>.
  \<^item> \<open>Dbif\<close>: \<^verbatim>\<open>podping/dbif/src/lib.rs\<close>, tables as lists of rows, every SQL statement as a function on
    them. \<open>Ping_Lifecycle\<close>: the abstract life cycle of a url (absent, queued, in flight) as an inductive
    relation, and that the database operations refine it.
  \<^item> \<open>Handler\<close>: \<^verbatim>\<open>podping/src/handler.rs\<close> and \<^verbatim>\<open>router.rs\<close>. \<open>Frontend\<close>: the queue thread of
    \<^verbatim>\<open>podping/src/main.rs\<close>, with the interleaving of the HTTP thread explicit.
  \<^item> \<open>Gossip_Messages\<close>: \<^verbatim>\<open>gossip-writer/src/notification.rs\<close> and the announcements, endorsements and
    suggestions of \<^verbatim>\<open>main.rs\<close>. \<open>Json_Text\<close>: the compact text of JSON that the programs rely on, and a reader
    that shows it to be unambiguous. \<open>Listener_Messages\<close>: the listener's own copies. \<open>Archive\<close>: both
    \<^verbatim>\<open>archive.rs\<close>, an interface \<open>dedup_store\<close>. \<open>Peer_Files\<close>: known peers, trusted publishers, node keys.
  \<^item> \<open>Writer_Batch\<close>: the ZMQ thread, splitting and flushing. \<open>Reconnect\<close>: the resilience tasks, interface
    \<open>cooled\<close>. \<open>Writer_Broadcast\<close>: the broadcast task with its retry queue. \<open>Writer_Receive\<close>: the receive
    task, interface \<open>trust_keeper\<close>. \<open>Writer_Program\<close>: the writer as one program, an event-labelled step relation
    over its tasks, the channel between them and the shutdown (all \<^verbatim>\<open>gossip-writer/src/main.rs\<close>).
  \<^item> \<open>Listener_Receive\<close>, \<open>Listener_Sync\<close>, \<open>Listener_Sse\<close>: the receive task, catch-up and the event stream of
    \<^verbatim>\<open>gossip-listener/src\<close>. \<open>Listener_Program\<close>: the listener as one program, an event-labelled step relation
    over its tasks, the payloads of a catch-up interleaved with the gossip, and its subscribers.
  \<^item> \<open>Monitor_Swarm\<close>: \<^verbatim>\<open>gossip-monitor/src/swarm.rs\<close>. \<open>Monitor_Topology\<close>: \<^verbatim>\<open>topology.rs\<close>. \<open>Monitor_Suggest\<close>: the
    suggestion task of \<^verbatim>\<open>main.rs\<close>. \<open>Monitor_Web\<close>: \<^verbatim>\<open>web.rs\<close>, the JSON it prints and its event stream.
    \<open>Monitor_Program\<close>: the monitor as one program, an event-labelled step relation over the receive, push,
    prune, analysis, suggestion and resilience tasks, with the round of suggestions cut into its steps.
  \<^item> \<open>Dht_Records\<close>: \<^verbatim>\<open>dtt-fork/src/crypto\<close>, \<^verbatim>\<open>dht.rs\<close>, \<^verbatim>\<open>lib.rs\<close>. \<open>Dht_Receiver\<close>: the receiver and sender
    actors. \<open>Dht_Topic\<close>: bootstrap, publishing and merging. \<open>Topic_Tasks\<close>: the periodic actors around them,
    interface \<open>paced_actor\<close>, and the topic handle that starts them. \<open>Network\<close>: how the gossip programs join.
  \<^item> \<open>Startup\<close>: the configuration of the three gossip programs and the states in which their tasks begin.
    \<open>Frontend_Start\<close>: \<^verbatim>\<open>main\<close> of the front-end, its sockets, privileges and connection pool.
    \<open>Process_Metrics\<close>: the metrics that announcements carry, read from \<^verbatim>\<open>/proc\<close>. \<open>Stresser\<close>: the load generator
    \<^verbatim>\<open>stresser/src/main.rs\<close>, run against the handlers of the front-end.
  \<^item> This theory: the properties that span programs.

  State is a record per task, passed explicitly; an operation that can panic returns \<open>outcome\<close>, a Rust
  \<^verbatim>\<open>Result\<close> is a sum. A loop is a turn on a state, and a run is a list of turns with the environment of
  each: clocks, answers of the network, failures of files, the iteration order of a hash container.

  \<^bold>\<open>What is shown.\<close>
  \<^item> Front-end: only authorised requests change the queue, an accepted one is queued; the database refines the life cycle; fetches
    follow the priorities; a ping leaves the queue only when acknowledged.
  \<^item> Writer: a flush sends each pending ping once, in order, signed, within the size limit, with consecutive
    sequence numbers, and answers it; on every run of the program each ping is pending or in exactly one notification, and
    nothing is broadcast more often than it was built; a dead receive task is replaced; trust grows only
    along signed endorsements.
  \<^item> Listener: on every run it publishes and archives only what it accepted, and what it accepted stays
    archived, published and delivered to subscribers who keep up; a completed catch-up has stored what the
    peer served, a prefix of it when the stream was cut; the signature covers every field; a dead
    receive task is replaced.
  \<^item> Resilience: reconnects are rate limited, and a stalled subscription is replaced.
  \<^item> Monitor: on every run of the program the registry stays well formed and the suggestions in the log were
    sent, spaced and to distinct pairs; the web page shows the registry; an announced peer stays on it; a
    round of suggestions completes; the search computes the connected components; suggestions are useful.
  \<^item> Topic tracker: published records are found, decrypted and verified; bootstrap joins only nodes
    that records answered by the DHT vouch for; a publishing member stays discoverable and two programs with one secret find each other; the
    merge actors keep their pace; the receiver is a first-in first-out channel.
  \<^item> Between the programs: a flushed ping is acknowledged and leaves the queue of the front-end; on runs of
    the whole writer and the whole listener it is broadcast, archived and sent to the subscribers it
    concerns; a badly connected writer follows the suggestion of the monitor.
  \<^item> Flaws that the model exposes are properties too: token wildcards, late replies, a full channel,
    poisoned locks, malformed values of the DHT, unrecorded message hashes, pings lost at an interrupt.

  \<^bold>\<open>Bounds and fuel.\<close> The search of Brandes' algorithm has one unit of fuel per node and is proved never to
  need more (\<open>brandes_forward_ret\<close>). All other loops terminate by a measure or run on a list of turns.
  Unsigned arithmetic wraps as in a release build.

  \<^bold>\<open>Parameters.\<close> Code outside the repository is an argument with its documented behaviour as a hypothesis:
  Cap'n Proto readers and writers, hashing, Ed25519, HPKE, postcard, the parser of endpoint ids,
  URL parsing, floating point (an uninterpreted record of operations), SQLite (statements on lists).
  JSON is printed by a parameter; where its text matters the hypothesis is \<open>prints_json\<close>, the documented
  compact form with any text for floats, or that notifications read back.

  \<^bold>\<open>Not modelled.\<close> Building the endpoint, the protocol router and the HTTP servers (library calls, their
  results are parameters), logging, panic hooks that only log, generated Cap'n Proto code,
  examples and tests: they have no state of their own beyond calls of libraries. Timers are modelled
  by the times of the turns. A caller of the DHT receiver that gives up waiting is not modelled, nor is
  the panic of a sort of scores that are not numbers.
\<close>

section \<open>From the front-end through the writer and back\<close>

text \<open>
  The two programs share the Cap'n Proto schemas: what one writes the other reads. A transaction
  reply reads back with its iri and block number.
\<close>

definition schema_ok :: "capnp_lib \<Rightarrow> w_capnp_lib \<Rightarrow> bool" where
  "schema_ok F W \<longleftrightarrow>
     (\<forall>t p. w_read_plexo W (write_plexo F t p) = Some (t, Some p))
   \<and> (\<forall>u r m. \<exists>rr mm. w_read_podping W (write_podping F u r m) = Some (u, rr, mm) \<and> w_reason_ok W rr \<and> w_medium_ok W mm)
   \<and> (\<forall>t p. read_plexo F (w_write_plexo W t p) = Some (t, Some p))
   \<and> (\<forall>r. read_hive_tx F (w_write_tx W r)
        = Some \<lparr>tx_podpings = Some [Some [Some (zr_iri r)]], tx_id_reads = True, tx_block_num = zr_block_num r\<rparr>)"

lemma parse_encoded_ping:
  assumes "schema_ok F W"
  obtains q where "parse_zmq_message W (encode_ping F p) = Ok (Some q)" "pp_iri q = ping_url p"
    "w_medium_ok W (pp_medium_raw q)" "w_reason_ok W (pp_reason_raw q)"
proof -
  obtain rr mm where "w_read_podping W (write_podping F (ping_url p) (pp_reason (ping_reason p)) (pp_medium (ping_medium p)))
      = Some (ping_url p, rr, mm)" "w_reason_ok W rr" "w_medium_ok W mm"
    using assms unfolding schema_ok_def by blast
  then show thesis using assms that
    by (simp add: parse_zmq_message_def encode_ping_def schema_ok_def PODPING_WRITE_TYPE_def WRITE_TYPE_def)
qed

lemma status_deleted:
  "can_open e \<Longrightarrow> stmt_ok e \<Longrightarrow> status (fst (delete_ping_from_queue e u d)) u = Absent"
  by (auto simp: fst_delete_ping_from_queue execute_queue_def sql_delete_ping_def status_def row_of_delete
      split: option.split)

text \<open>C9. The acknowledgement path closes: a ping that the front-end encodes and the writer takes up and
  flushes is answered with a reply, and when the front-end receives that reply the url leaves its
  queue.\<close>

theorem flushed_ping_is_acknowledged:
  assumes "schema_ok F W"
    and "\<forall>q \<in> set (w_pending s). w_medium_ok W (pp_medium_raw q) \<and> w_reason_ok W (pp_reason_raw q)"
    and "we_rx_alive E" and "\<And>i. we_reply_ok E i" and "\<And>i. we_clock E i \<noteq> 0" and "\<And>gs. set (we_order E gs) = set gs"
    and "can_open (X k)" and "stmt_ok (X k)"
  shows "\<exists>s' m. zmq_turn L W cfg E False (Some (encode_ping F p)) True s = Ret (s', True)
    \<and> m \<in> set (w_replies s') \<and> w_pending s' = []
    \<and> status (fst (receive_messages F X k (Some m) d)) (ping_url p) = Absent"
proof -
  obtain q where q: "parse_zmq_message W (encode_ping F p) = Ok (Some q)" "pp_iri q = ping_url p"
    "w_medium_ok W (pp_medium_raw q)" "w_reason_ok W (pp_reason_raw q)"
    using parse_encoded_ping [OF assms(1)] .
  let ?s = "s\<lparr>w_pending := w_pending s @ [q]\<rparr>"
  obtain s' ns i where f: "flush_batch L W cfg E ?s = Ret (s', ns)"
    "w_replies s' = w_replies s @ map (\<lambda>q. zmq_reply_bytes W (reply_for (we_clock E i) (we_nanos E) q)) (w_pending s @ [q])"
    using flush_replies [of ?s E W L cfg] assms(2-6) q(3,4) by auto
  let ?m = "zmq_reply_bytes W (reply_for (we_clock E i) (we_nanos E) q)"
  have "fst (receive_messages F X k (Some ?m) d) = fst (delete_ping_from_queue (X k) (ping_url p) d)"
    using assms(1,5) q(2)
    by (simp add: receive_messages_def zmq_reply_bytes_def schema_ok_def reply_for_def tx_iris_def HIVE_TX_TYPE_def WRITE_ERROR_TYPE_def)
  then have "status (fst (receive_messages F X k (Some ?m) d)) (ping_url p) = Absent"
    using status_deleted assms(7,8) by simp
  moreover have "zmq_turn L W cfg E False (Some (encode_ping F p)) True s = Ret (s', True)"
    using q(1) f(1) by (simp add: zmq_turn_def zmq_received_def)
  moreover have "w_pending s' = []" using flush_batch_spec [OF f(1)] by metis
  ultimately show ?thesis using f(2) by auto
qed

text \<open>Encodings of both sides for the witness: any countable value as a string of its number.\<close>

definition demo_enc :: "'a::countable \<Rightarrow> string" where
  "demo_enc x = replicate (to_nat x) (CHR ''x'')"

definition demo_dec :: "string \<Rightarrow> 'a::countable" where
  "demo_dec s = from_nat (length s)"

lemma demo_dec_enc [simp]: "demo_dec (demo_enc x) = x"
  by (simp add: demo_dec_def demo_enc_def)

definition demo_f_schema :: capnp_lib where
  "demo_f_schema = \<lparr>read_plexo = (\<lambda>s. case demo_dec s of (t, p) \<Rightarrow> Some (t, Some p)), read_write_error = (\<lambda>_. None),
     read_hive_tx = (\<lambda>s. case demo_dec s of (u, b) \<Rightarrow>
        Some \<lparr>tx_podpings = Some [Some [Some u]], tx_id_reads = True, tx_block_num = of_nat b\<rparr>),
     write_podping = (\<lambda>u r m. demo_enc u), write_plexo = (\<lambda>t p. demo_enc (t, p))\<rparr>"

definition demo_w_schema :: w_capnp_lib where
  "demo_w_schema = \<lparr>w_read_plexo = (\<lambda>s. case demo_dec s of (t, p) \<Rightarrow> Some (t, Some p)),
     w_read_podping = (\<lambda>s. Some (demo_dec s, 0, 1)), w_medium_ok = (\<lambda>m. m < 19), w_reason_ok = (\<lambda>r. r < 3),
     w_write_tx = (\<lambda>r. demo_enc (zr_iri r, unat (zr_block_num r))), w_write_plexo = (\<lambda>t p. demo_enc (t, p))\<rparr>"

lemma demo_schema_ok: "schema_ok demo_f_schema demo_w_schema"
  by (simp add: schema_ok_def demo_f_schema_def demo_w_schema_def)

definition demo_ping :: ping where
  "demo_ping = \<lparr>ping_url = ''http://b'', ping_time = 0, ping_reason = reason.Update, ping_medium = medium.Podcast\<rparr>"

theorem flushed_ping_is_acknowledged_witness:
  "\<exists>s' m. zmq_turn demo_wlib demo_w_schema demo_wcfg demo_wenv False (Some (encode_ping demo_f_schema demo_ping)) True
       (demo_wstate []) = Ret (s', True)
     \<and> m \<in> set (w_replies s')
     \<and> status (fst (receive_messages demo_f_schema (\<lambda>_. demo_env) 0 (Some m) demo_dbs)) ''http://b'' = Absent"
proof -
  have "\<forall>q \<in> set (w_pending (demo_wstate [])). w_medium_ok demo_w_schema (pp_medium_raw q) \<and> w_reason_ok demo_w_schema (pp_reason_raw q)"
    by (simp add: demo_wstate_def demo_pending_def demo_w_schema_def)
  moreover have "we_rx_alive demo_wenv" "we_reply_ok demo_wenv i" "we_clock demo_wenv i \<noteq> 0" "set (we_order demo_wenv gs) = set gs" for i gs
    by (simp_all add: demo_wenv_def)
  moreover have "can_open demo_env" "stmt_ok demo_env" by (simp_all add: demo_env_def)
  ultimately show ?thesis
    using flushed_ping_is_acknowledged [OF demo_schema_ok, of "demo_wstate []" demo_wenv "\<lambda>_. demo_env" 0 demo_wlib demo_wcfg demo_ping demo_dbs]
    by (simp add: demo_ping_def) blast
qed

section \<open>From the writer to the listeners\<close>

lemma tagged_mem: "(i, m, r) \<in> set (tagged ns) \<longleftrightarrow> (\<exists>n \<in> set ns. i \<in> set (n_iris n) \<and> n_medium n = m \<and> n_reason n = r)"
  by (auto simp: tagged_def)

lemma flush_carries:
  assumes "mset (we_order E (group_pending (w_pending s))) = mset (group_pending (w_pending s))"
    and "flush_batch L W cfg E s = Ret (s', ns)" and "q \<in> set (w_pending s)"
  obtains n where "n \<in> set ns" "pp_iri q \<in> set (n_iris n)" "n_medium n = pp_medium_str q" "n_reason n = pp_reason_str q"
    "n_sender n = wc_pubkey_hex cfg"
proof -
  from assms(2) obtain s1 ok where g: "send_groups L cfg E (we_order E (group_pending (w_pending s))) s = (s1, ns, ok)"
    by (rule flush_batch_spec)
  have "mset (tagged ns) = mset (map (\<lambda>p. (pp_iri p, pp_medium_str p, pp_reason_str p)) (w_pending s))"
    using send_groups_spec [OF g] mset_group_tagged [OF assms(1)] mset_group_pending [of "w_pending s"] by simp
  then have "set (tagged ns) = (\<lambda>p. (pp_iri p, pp_medium_str p, pp_reason_str p)) ` set (w_pending s)"
    by (metis list.set_map set_mset_mset)
  with assms(3) have "(pp_iri q, pp_medium_str q, pp_reason_str q) \<in> set (tagged ns)" by simp
  then obtain n where n: "n \<in> set ns" "pp_iri q \<in> set (n_iris n)" "n_medium n = pp_medium_str q" "n_reason n = pp_reason_str q"
    unfolding tagged_mem by blast
  moreover have "n_sender n = wc_pubkey_hex cfg"
    using send_groups_spec [OF g] n(1) by (auto simp: list_all_iff built_def notification_new_def notification_sign_def Let_def)
  ultimately show thesis by (rule that)
qed

text \<open>A ping reaches the listeners: every ping that a flush of the writer takes up is carried by a signed
  notification with its medium and reason, and a listener that trusts the writer's key and receives
  that notification publishes it to its subscribers and archives it.\<close>

theorem flushed_ping_reaches_listener:
  assumes "mset (we_order E (group_pending (w_pending s))) = mset (group_pending (w_pending s))"
    and "flush_batch L W cfg E s = Ret (s', ns)" and "q \<in> set (w_pending s)"
    and "\<forall>n \<in> set ns. parse_notification (rf_lib C) (notif_payload L n) = Some n
       \<and> parse_suggest (rf_lib C) (notif_payload L n) = None \<and> parse_announce (rf_lib C) (notif_payload L n) = None"
    and "wc_pubkey_hex cfg \<in> r_trusted t" and "ascii_str (wc_pubkey_hex cfg)"
    and "r_status t = Running" and "c_generation (r_ctl t) = rf_generation C"
    and "\<not> r_trusted_poisoned t" and "\<not> l_names_poisoned t" and "\<not> l_seq_poisoned t" and "\<not> l_db_poisoned t"
    and "l_db t = Some a" and "l_sse t = Some log" and "ae_clock (li_arch X) = Some now" and "ae_messages_ok (li_arch X)"
  shows "\<exists>n \<in> set ns. pp_iri q \<in> set (n_iris n) \<and> n_medium n = pp_medium_str q \<and> n_reason n = pp_reason_str q
    \<and> (\<exists>d a'. let t' = l_receive_turn C (X, Msg (notif_payload L n) from_peer) t in
         l_sse t' = Some (log @ [print_notification (rf_lib C) n d])
         \<and> l_db t' = Some a' \<and> li_hash X (notif_payload L n) \<in> mr_hash ` set (messages a'))"
proof -
  obtain n where n: "n \<in> set ns" "pp_iri q \<in> set (n_iris n)" "n_medium n = pp_medium_str q" "n_reason n = pp_reason_str q"
    "n_sender n = wc_pubkey_hex cfg" using assms(1-3) by (rule flush_carries)
  have "\<exists>d a'. let t' = l_receive_turn C (X, Msg (notif_payload L n) from_peer) t in
      r_status t' = Running \<and> l_sse t' = Some (log @ [print_notification (rf_lib C) n d])
      \<and> l_db t' = Some a' \<and> li_hash X (notif_payload L n) \<in> mr_hash ` set (messages a')"
    using assms n(1,5) by (intro l_turn_accepts) auto
  with n show ?thesis unfolding Let_def by blast
qed

text \<open>One pending ping, and a listener that reads the notification made of it.\<close>

definition demo_one :: writer_state where
  "demo_one = (demo_wstate [])\<lparr>w_pending := take 1 demo_pending\<rparr>"

definition demo_sent :: gossip_notification where
  "demo_sent = fst (notification_sign demo_wlib (wc_key demo_wcfg)
     (notification_new 7 (wc_pubkey_hex demo_wcfg) ''podcast'' ''update'' [''http://a''] (Some 5)))"

definition demo_reader :: "string recv_cfg" where
  "demo_reader = demo_lcfg\<lparr>rf_lib := demo_wlib\<lparr>parse_notification := (\<lambda>_. Some demo_sent)\<rparr>\<rparr>"

lemma demo_one_flush: "\<exists>s'. flush_batch demo_wlib demo_wcapnp demo_wcfg demo_wenv demo_one = Ret (s', [demo_sent])"
  by (simp add: flush_batch_def demo_one_def demo_wstate_def demo_pending_def group_pending_def demo_wenv_def split_iris_to_fit_def
      payload_len_def demo_wlib_def demo_wcapnp_def demo_wcfg_def MAX_GOSSIP_PAYLOAD_def send_chunk_def notification_sign_def
      notification_new_def demo_sent_def try_send_def Let_def)

theorem flushed_ping_reaches_listener_witness:
  "\<exists>log. l_sse (l_receive_turn demo_reader (demo_lenv, Msg (notif_payload demo_wlib demo_sent) ''q'')
      (demo_lrecv {wc_pubkey_hex demo_wcfg})) = Some log \<and> length log = 1"
proof -
  obtain s' where f: "flush_batch demo_wlib demo_wcapnp demo_wcfg demo_wenv demo_one = Ret (s', [demo_sent])"
    using demo_one_flush by blast
  have "ascii_str (wc_pubkey_hex demo_wcfg)" unfolding demo_wcfg_def by code_simp
  moreover have "\<forall>n \<in> set [demo_sent]. parse_notification (rf_lib demo_reader) (notif_payload demo_wlib n) = Some n
      \<and> parse_suggest (rf_lib demo_reader) (notif_payload demo_wlib n) = None
      \<and> parse_announce (rf_lib demo_reader) (notif_payload demo_wlib n) = None"
    by (simp add: demo_reader_def demo_wlib_def)
  moreover have "hd demo_pending \<in> set (w_pending demo_one)" by (simp add: demo_one_def demo_pending_def)
  moreover have "mset (we_order demo_wenv (group_pending (w_pending demo_one))) = mset (group_pending (w_pending demo_one))"
    by (simp add: demo_wenv_def)
  ultimately show ?thesis
    using flushed_ping_reaches_listener [of demo_wenv demo_one demo_wlib demo_wcapnp demo_wcfg s' "[demo_sent]" "hd demo_pending"
        demo_reader "demo_lrecv {wc_pubkey_hex demo_wcfg}" "\<lparr>messages = [], manifest = []\<rparr>" "[]" demo_lenv 9 "''q''"] f
    by (auto simp: demo_reader_def demo_listener_defs Let_def)
qed

section \<open>From the front-end to the subscribers\<close>

text \<open>C10. From the front-end to the subscribers, over the whole programs: a ping that the front-end sends to a
  running writer whose next flush is due and whose queues have room is, after that turn and as many
  successful broadcasts as the channel then holds, delivered in a notification that names its url; and
  when a listener that accepts the writer's key receives that notification, then in every later state
  of the listener, whatever its tasks do, the notification is archived, on the event stream and sent
  to each subscriber of that time whose filter selects it and who did not lag behind on that line.
  The parsers read back what was printed, and take no notification for a message of another kind.\<close>

theorem ping_reaches_subscribers:
  assumes "schema_ok F (wp_capnp K)" and "enums_ok (wp_capnp K)"
    and "writer_boot wid WV wfs WS bound = Ok w0" and "wri_run K Q w0 wes w"
    and "walks (wes @ [Zmq E (Some (encode_ping F p)) t1 t2])" and "unclogged w" and "wr_zmq w = Running"
    and "\<not> wr_exited w" and "zmq_due t1 w" and "w' = zmq_step K E (Some (encode_ping F p)) t1 t2 w" and "unclogged w'"
    and "length envs = length (w_tx (wr_batch w'))" and "\<forall>e \<in> set envs. be_result e = Sent"
    and "listener_boot addr_ok lid V fs S query_ok = Ret (Ok l0)" and "lis_run C l0 es0 l" and "r_status (ln_recv l) = Running"
    and "\<not> r_trusted_poisoned (ln_recv l)" and "\<not> l_names_poisoned (ln_recv l)" and "\<not> l_seq_poisoned (ln_recv l)"
    and "\<not> l_db_poisoned (ln_recv l)" and "l_db (ln_recv l) = Some a" and "l_sse (ln_recv l) = Some log"
    and "r_trusted (ln_recv l) = {} \<or> pubkey_hex (wlib K) (wp_key K) \<in> r_trusted (ln_recv l)"
    and "ascii_str (pubkey_hex (wlib K) (wp_key K))" and "ae_clock (li_arch X) = Some now" and "ae_messages_ok (li_arch X)"
    and "\<And>n. parse_notification (rf_lib (lc_recv C)) (notif_payload (wlib K) n) = Some n"
    and "\<And>n. parse_suggest (rf_lib (lc_recv C)) (notif_payload (wlib K) n) = None"
    and "\<And>n. parse_announce (rf_lib (lc_recv C)) (notif_payload (wlib K) n) = None"
    and "reads_printed parse (rf_lib (lc_recv C))"
  shows "\<exists>u n. wri_run K (\<lambda>_. True) w (Zmq E (Some (encode_ping F p)) t1 t2 # map Take envs) u
    \<and> ping_url p \<in> set (n_iris n) \<and> notif_payload (wlib K) n \<in> set (b_delivered (wr_bcast u))
    \<and> (\<forall>from_peer es v. lis_run C l (lis_event.Receive X (Msg (notif_payload (wlib K) n) from_peer) # es) v \<longrightarrow>
        (\<exists>d log' a'. l_sse (ln_recv v) = Some log' \<and> length log < length log'
          \<and> log' ! length log = print_notification (rf_lib (lc_recv C)) n d
          \<and> l_db (ln_recv v) = Some a' \<and> li_hash X (notif_payload (wlib K) n) \<in> mr_hash ` set (messages a')
          \<and> (\<forall>(f, k) \<in> set (ln_subscribers l). \<forall>lost. selects f n \<longrightarrow> \<not> lost (length log) \<longrightarrow>
               log' ! length log \<in> set (subscriber_view parse lost (f, k) log'))))"
proof -
  obtain q where q: "parse_zmq_message (wp_capnp K) (encode_ping F p) = Ok (Some q)" "pp_iri q = ping_url p"
    using parse_encoded_ping [OF assms(1)] by metis
  then have "q \<in> set (w_pending (wr_batch w)) \<union> set (received_pings (wp_capnp K) (Some (encode_ping F p)))"
    by (simp add: received_pings_def)
  then obtain u n where u: "wri_run K (\<lambda>_. True) w (Zmq E (Some (encode_ping F p)) t1 t2 # map Take envs) u"
    "pp_iri q \<in> set (n_iris n)" "n_sender n = pubkey_hex (wlib K) (wp_key K)"
    "notif_payload (wlib K) n \<in> set (b_delivered (wr_bcast u))"
    using due_pings_broadcast [OF assms(3-5,2,6-13)] by blast
  have "r_trusted (ln_recv l) = {} \<or> n_sender n \<in> r_trusted (ln_recv l)" "ascii_str (n_sender n)"
    using assms(23,24) u(3) by simp_all
  note l = received_for_good [OF assms(14-16) assms(28,29,27) assms(17-20) this assms(21,22,25,26) _ assms(30)]
  show ?thesis using u q(2) l by (intro exI [of _ u] exI [of _ n]) simp
qed

text \<open>Programs that print JSON and read notifications from it.\<close>

fun json_str :: "json \<Rightarrow> string" where
  "json_str (JStr s) = s"
| "json_str _ = []"

fun json_num :: "json \<Rightarrow> int" where
  "json_num (JInt i) = i"
| "json_num _ = 0"

fun json_strs :: "json \<Rightarrow> string list" where
  "json_strs (JArr js) = map json_str js"
| "json_strs _ = []"

fun read_notification :: "json \<Rightarrow> gossip_notification option" where
  "read_notification (JObj fs) =
     (let get = (\<lambda>k. case map_of fs k of Some v \<Rightarrow> v | None \<Rightarrow> JNull)
      in Some \<lparr>n_version = json_str (get ''version''), n_sender = json_str (get ''sender''),
           n_timestamp = of_int (json_num (get ''timestamp'')), n_medium = json_str (get ''medium''),
           n_reason = json_str (get ''reason''), n_iris = json_strs (get ''iris''),
           n_seq = map_option (\<lambda>j. of_int (json_num j)) (map_of fs ''seq''), n_signature = map_option json_str (map_of fs ''signature'')\<rparr>)"
| "read_notification _ = None"

lemma json_strs_JStrs [simp]: "json_strs (JStrs xs) = xs"
  by (simp add: JStrs_def comp_def)

lemma read_notification_json: "read_notification (notification_json n) = Some n"
  by (cases "n_seq n"; cases "n_signature n") (simp_all add: notification_json_def JU_def)

definition demo_net :: gossip_lib where
  "demo_net = demo_rlib\<lparr>to_vec := json_text (\<lambda>_. ''null''), parse_notification := (\<lambda>s. Option.bind (read_json s) read_notification),
     parse_announce := (\<lambda>_. None), parse_suggest := (\<lambda>_. None)\<rparr>"

lemma demo_net_payload [simp]: "parse_notification demo_net (notif_payload demo_net n) = Some n"
  by (simp add: demo_net_def notif_payload_def read_json_text read_notification_json)

definition demo_net_writer :: "(string, int) wri_cfg" where
  "demo_net_writer = demo_wri\<lparr>wp_recv := demo_rcfg\<lparr>rf_lib := demo_net\<rparr>, wp_capnp := demo_w_schema\<rparr>"

definition demo_net_listener :: "(string, int) lis_cfg" where
  "demo_net_listener = demo_lis\<lparr>lc_recv := demo_rcfg\<lparr>rf_lib := demo_net\<rparr>\<rparr>"

lemma demo_net_sel [simp]:
  "wp_capnp demo_net_writer = demo_w_schema" "rf_lib (wp_recv demo_net_writer) = demo_net"
  "rf_lib (lc_recv demo_net_listener) = demo_net" "wp_key demo_net_writer = ''k''"
  by (simp_all add: demo_net_writer_def demo_net_listener_def demo_wri_def)

text \<open>The writer takes the ping of \<open>demo_ping\<close> and flushes it in the same turn.\<close>

lemma demo_net_step:
  fixes s :: "string writer"
  assumes "wr_batch s = demo_batch" "b_alive (wr_bcast s)" "\<not> c_shutdown (wctl s)" "wr_last_flush s = 0"
  shows "length (w_tx (wr_batch (zmq_step demo_net_writer demo_wenv (Some (encode_ping demo_f_schema demo_ping)) (4 * 10 ^ 9) 0 s))) = 1"
proof -
  let ?L = "wlib demo_net_writer" and ?W = "wp_capnp demo_net_writer" and ?K = "batch_cfg demo_net_writer" and ?E = "demo_wenv\<lparr>we_rx_alive := True\<rparr>"
  obtain q where "parse_zmq_message ?W (encode_ping demo_f_schema demo_ping) = Ok (Some q)"
    "w_medium_ok ?W (pp_medium_raw q)" "w_reason_ok ?W (pp_reason_raw q)"
    unfolding demo_net_sel using parse_encoded_ping [OF demo_schema_ok] by metis
  then have r: "zmq_received ?W (Some (encode_ping demo_f_schema demo_ping)) demo_batch = demo_batch\<lparr>w_pending := [q]\<rparr>"
    "ping_ok ?W q"
    by (simp_all add: zmq_received_def demo_batch_def ping_ok_def)
  let ?b = "demo_batch\<lparr>w_pending := [q]\<rparr>"
  have E: "walks_all ?E" using demo_walks by (simp add: walks_all_def)
  moreover have "\<forall>p \<in> set (w_pending ?b). ping_ok ?W p" using r(2) by simp
  ultimately obtain b' ns where f: "flush_batch ?L ?W ?K ?E ?b = Ret (b', ns)" "entered ?L ?K (we_rx_alive ?E) ?b (w_pending ?b) ns b'"
    by (rule flush_enters)
  have "length ns = 1" by (rule flush_single [OF E _ f(1)]) simp
  then have "length (w_tx b') = 1" using f(2) by (simp add: entered_def room_def demo_batch_def CHANNEL_CAPACITY_def)
  moreover have "zmq_due (4 * 10 ^ 9) s" using assms(4) by (simp add: zmq_due_def BATCH_INTERVAL_def)
  ultimately show ?thesis using f(1) assms(1-3) r(1) by (simp add: zmq_step_def zmq_turn_def Let_def)
qed

theorem ping_reaches_subscribers_witness:
  "\<exists>(w :: string writer) (l :: string listener) u n.
     wri_run demo_net_writer (\<lambda>_. True) w
       (Zmq demo_wenv (Some (encode_ping demo_f_schema demo_ping)) (4 * 10 ^ 9) 0 # map Take [demo_benv Sent 0]) u
   \<and> ''http://b'' \<in> set (n_iris n)
   \<and> (\<forall>v. lis_run demo_net_listener l [lis_event.Receive demo_lenv (Msg (notif_payload demo_net n) ''q'')] v \<longrightarrow>
        (\<exists>log. l_sse (ln_recv v) = Some log \<and> log \<noteq> []))"
proof -
  obtain w :: "string writer" where w: "writer_boot Some Map.empty Map.empty demo_start_env True = Ok w" "wctl w = ctl_start 1000 0"
    "wr_batch w = demo_batch" "wr_zmq w = Running" "wr_last_flush w = 0" "b_alive (wr_bcast w)" "b_retry_queue (wr_bcast w) = []"
    "\<not> wr_exited w" by (rule demo_boot)
  obtain l :: "string listener" where l: "listener_boot (\<lambda>_. True) Some demo_lis_vars Map.empty demo_start_env True = Ret (Ok l)"
    "l_sse (ln_recv l) = Some []" "l_db (ln_recv l) = Some \<lparr>messages = [], manifest = []\<rparr>" "r_trusted (ln_recv l) = {}"
    "r_status (ln_recv l) = Running" "\<not> r_trusted_poisoned (ln_recv l)" "\<not> l_names_poisoned (ln_recv l)"
    "\<not> l_seq_poisoned (ln_recv l)" "\<not> l_db_poisoned (ln_recv l)" by (rule demo_lis_boot)
  let ?m = "Some (encode_ping demo_f_schema demo_ping)" and ?K = "demo_net_writer" and ?C = "demo_net_listener" and ?log = "[] :: string list"
  let ?t = "zmq_step ?K demo_wenv ?m (4 * 10 ^ 9) 0 w"
  have up: "\<not> c_shutdown (wctl w)" by (simp add: w(2) ctl_start_def)
  note one = demo_net_step [OF w(3,6) up w(5)]
  have room: "unclogged w" "unclogged ?t"
    using one w(3,6,7) up by (simp_all add: unclogged_def demo_batch_def CHANNEL_CAPACITY_def MAX_RETRY_QUEUE_def)
  have schema: "schema_ok demo_f_schema (wp_capnp ?K)" "enums_ok (wp_capnp ?K)"
    unfolding demo_net_sel by (rule demo_schema_ok) (simp add: enums_ok_def demo_w_schema_def)
  have walks: "walks ([] @ [Zmq demo_wenv ?m (4 * 10 ^ 9) 0])" using demo_walks by (simp add: walks_def)
  have due: "zmq_due (4 * 10 ^ 9) w" using w(5) by (simp add: zmq_due_def BATCH_INTERVAL_def)
  have len: "length [demo_benv Sent 0] = length (w_tx (wr_batch ?t))" using one by simp
  have sent: "\<forall>e \<in> set [demo_benv Sent 0]. be_result e = Sent" by (simp add: demo_benv_def)
  have trust: "r_trusted (ln_recv l) = {} \<or> pubkey_hex (wlib ?K) (wp_key ?K) \<in> r_trusted (ln_recv l)" using l(4) by simp
  have key: "ascii_str (pubkey_hex (wlib ?K) (wp_key ?K))"
    unfolding demo_net_sel by (simp add: pubkey_hex_def demo_net_def demo_rlib_def demo_key_ascii)
  have env: "ae_clock (li_arch demo_lenv) = Some 9" "ae_messages_ok (li_arch demo_lenv)" by (simp_all add: demo_lenv_def)
  have lib: "parse_notification (rf_lib (lc_recv ?C)) (notif_payload (wlib ?K) n) = Some n"
    "parse_suggest (rf_lib (lc_recv ?C)) (notif_payload (wlib ?K) n) = None"
    "parse_announce (rf_lib (lc_recv ?C)) (notif_payload (wlib ?K) n) = None" for n
    unfolding demo_net_sel demo_net_payload by (simp_all add: demo_net_def)
  have json: "reads_printed read_json (rf_lib (lc_recv ?C))"
    unfolding demo_net_sel by (rule reads_printed_json) (auto simp: prints_json_def demo_net_def)
  obtain u n where un: "wri_run ?K (\<lambda>_. True) w (Zmq demo_wenv ?m (4 * 10 ^ 9) 0 # map Take [demo_benv Sent 0]) u"
    "ping_url demo_ping \<in> set (n_iris n)"
    and reach: "\<forall>from_peer es v. lis_run ?C l (lis_event.Receive demo_lenv (Msg (notif_payload (wlib ?K) n) from_peer) # es) v \<longrightarrow>
        (\<exists>d log' a'. l_sse (ln_recv v) = Some log' \<and> length ?log < length log'
          \<and> log' ! length ?log = print_notification (rf_lib (lc_recv ?C)) n d
          \<and> l_db (ln_recv v) = Some a' \<and> li_hash demo_lenv (notif_payload (wlib ?K) n) \<in> mr_hash ` set (messages a')
          \<and> (\<forall>(f, k) \<in> set (ln_subscribers l). \<forall>lost. selects f n \<longrightarrow> \<not> lost (length ?log) \<longrightarrow>
               log' ! length ?log \<in> set (subscriber_view read_json lost (f, k) log')))"
    using ping_reaches_subscribers [OF schema w(1) wri_run.start walks room(1) w(4,8) due refl room(2) len sent
        l(1) lis_run.start l(5-9,3,2) trust key env lib json]
    by (elim exE conjE) (rule that)
  have "\<exists>log. l_sse (ln_recv v) = Some log \<and> log \<noteq> []"
    if "lis_run ?C l [lis_event.Receive demo_lenv (Msg (notif_payload demo_net n) ''q'')] v" for v
    using reach [unfolded demo_net_sel, rule_format, OF that] by auto
  with un show ?thesis by (intro exI [of _ w] exI [of _ l] exI [of _ u] exI [of _ n]) (simp add: demo_ping_def)
qed

section \<open>From the monitor to the writer\<close>

lemma build_suggest_fields [simp]:
  "s_msg_type (build_suggest L k ts g) = ''peer_suggest''" "s_sender (build_suggest L k ts g) = pubkey_hex L k"
  "s_suggested_peers (build_suggest L k ts g) = ps_suggested_peers g" "s_timestamp (build_suggest L k ts g) = ts"
  by (simp_all add: build_suggest_def pubkey_hex_def Let_def)

lemma suggest_turn_reaches:
  fixes ms :: "'f suggest_state"
  assumes "registry_snapshot lower (sg_snapshot_now M) (mg_registry ms) = (r, snap)"
    and "n \<in> set (active_ids snap)" and "length (neighbors_of (build_adj snap) n) < 2"
    and "\<not> recently (sg_instant M) (mg_last ms) n" and "\<And>j. sg_result M j = Sent"
  obtains g :: "'f peer_suggestion" and j where "suggestion_useful snap g" "ps_target_node_id g = n"
    "(sg_instant M, build_suggest L k (sg_clock M j) g) \<in> set (mg_sent (suggest_turn lower F L k M ms))"
proof -
  obtain ta where ta: "analyze_topology F (sg_analysis_now M) snap = Ret ta"
    "\<And>g. g \<in> set (ta_suggestions ta) \<Longrightarrow> suggestion_useful snap g" "n \<in> ps_target_node_id ` set (ta_suggestions ta)"
    using analyze_topology_useful [of F "sg_analysis_now M" snap] assms(2,3) by blast
  let ?s = "ms\<lparr>mg_registry := r, mg_analysis := Some ta\<rparr>"
  have "\<not> recently (sg_instant M) (mg_last ?s) n" using assms(4) by simp
  from suggest_all_reaches [OF assms(5) this ta(3), of L k lower 0] obtain g j where
    "g \<in> set (ta_suggestions ta)" "ps_target_node_id g = n"
    "(sg_instant M, build_suggest L k (sg_clock M j) g) \<in> set (mg_sent (suggest_all lower L k M 0 (ta_suggestions ta) ?s))"
    by blast
  moreover have "suggest_turn lower F L k M ms = suggest_all lower L k M 0 (ta_suggestions ta) ?s"
    using ta(1) assms(1) by (simp add: suggest_turn_def)
  ultimately show thesis using that [of g j] ta(2) by simp
qed

text \<open>C11. A badly connected writer is helped: if the monitor's snapshot has an active peer with fewer than two
  neighbours, was not suggested to recently and can broadcast, then its next turn sends that peer a
  suggestion, naming only other active peers that are not its neighbours, and the writer with that
  node id which trusts the monitor and receives the message within 300 seconds joins every peer of it
  that parses.\<close>

theorem isolated_writer_is_helped:
  fixes ms :: "'f suggest_state"
  assumes "registry_snapshot lower (sg_snapshot_now M) (mg_registry ms) = (r, snap)"
    and "n \<in> set (active_ids snap)" and "length (neighbors_of (build_adj snap) n) < 2"
    and "\<not> recently (sg_instant M) (mg_last ms) n" and "\<And>j. sg_result M j = Sent"
    and "crypto_ok (rf_lib C) k" and "pubkey_hex (rf_lib C) k \<in> rf_monitors C"
    and "slice_to (pubkey_hex (rf_lib C) k) 8 = Ret x" and "rf_show_id C (rf_me C) = n"
    and "\<And>m. parse_suggest (rf_lib C) (wire m) = Some m"
    and "r_status w = Running" and "c_generation (r_ctl w) = rf_generation C"
    and "\<And>j. saturating_sub (ri_now2 E) (sg_clock M j) < 300"
  shows "\<exists>m. (sg_instant M, m) \<in> set (mg_sent (suggest_turn lower F (rf_lib C) k M ms))
    \<and> set (s_suggested_peers m) \<subseteq> set (active_ids snap) - {n} - set (neighbors_of (build_adj snap) n)
    \<and> (let peers = List.map_filter (rf_parse_id C) (s_suggested_peers m); w' = w_receive_turn C (E, Msg (wire m) from_peer) w
       in r_status w' = Running \<and> r_joins w' = (if peers = [] then r_joins w else r_joins w @ [peers]))"
proof -
  obtain g :: "'f peer_suggestion" and j where g: "suggestion_useful snap g" "ps_target_node_id g = n"
    "(sg_instant M, build_suggest (rf_lib C) k (sg_clock M j) g) \<in> set (mg_sent (suggest_turn lower F (rf_lib C) k M ms))"
    by (rule suggest_turn_reaches [where L = "rf_lib C" and k = k and F = F, OF assms(1-5)])
  let ?m = "build_suggest (rf_lib C) k (sg_clock M j) g"
  let ?peers = "List.map_filter (rf_parse_id C) (s_suggested_peers ?m)"
  let ?c = "r_ctl w"
  let ?w = "w\<lparr>r_ctl := ?c\<lparr>c_last_notif := ri_now E, c_notifs := c_notifs ?c + 1, c_sources := insert from_peer (c_sources ?c)\<rparr>\<rparr>"
  have turn: "w_receive_turn C (E, Msg (wire ?m) from_peer) w = w_suggest C E ?m ?w"
    using assms(10-12) by (simp add: w_receive_turn_def w_message_def w_dispatch_def Let_def)
  have "suggest_verify_signature (rf_lib C) ?m = Ok True" by (rule build_suggest_verifies [OF assms(6)])
  then have "w_suggest C E ?m ?w = (if ?peers = [] then ?w else ?w\<lparr>r_joins := r_joins ?w @ [?peers]\<rparr>)"
    using assms(7-9,13) g(2) by (simp add: w_suggest_def Let_def)
  then have "r_status (w_receive_turn C (E, Msg (wire ?m) from_peer) w) = Running
      \<and> r_joins (w_receive_turn C (E, Msg (wire ?m) from_peer) w) = (if ?peers = [] then r_joins w else r_joins w @ [?peers])"
    using assms(11) by (simp add: turn)
  moreover have "set (s_suggested_peers ?m) \<subseteq> set (active_ids snap) - {n} - set (neighbors_of (build_adj snap) n)"
    using g(1,2) by (auto simp: suggestion_useful_def edges_def)
  ultimately show ?thesis using g(3) unfolding Let_def by blast
qed

text \<open>A writer with the node id of the monitor's example snapshot.\<close>

definition demo_monitor_lib :: gossip_lib where
  "demo_monitor_lib = \<lparr>to_vec = (\<lambda>_. ''x''), parse_notification = (\<lambda>_. None), parse_announce = (\<lambda>_. None),
     parse_suggest = (\<lambda>s. case demo_dec s of (ty, sn, tg, ps, why, ts, sg) \<Rightarrow>
        Some \<lparr>s_msg_type = ty, s_sender = sn, s_target_node_id = tg, s_suggested_peers = ps, s_reason = why,
              s_timestamp = of_nat ts, s_signature = sg\<rparr>),
     hex_encode = id, hex_decode = Some, ed_pubkey = (\<lambda>k. replicate 32 (CHR ''p'')), ed_key_ok = (\<lambda>_. True),
     ed_sign = (\<lambda>k m. replicate 64 (CHR ''s'')), ed_verify = (\<lambda>p m s. True)\<rparr>"

definition demo_wire :: "peer_suggest \<Rightarrow> string" where
  "demo_wire m = demo_enc (s_msg_type m, s_sender m, s_target_node_id m, s_suggested_peers m, s_reason m,
     unat (s_timestamp m), s_signature m)"

definition demo_helped :: "string recv_cfg" where
  "demo_helped = demo_rcfg\<lparr>rf_lib := demo_monitor_lib, rf_parse_id := Some, rf_show_id := id, rf_me := ''n1'',
     rf_monitors := {replicate 32 (CHR ''p'')}\<rparr>"

theorem isolated_writer_is_helped_witness:
  "\<exists>m. (0, m) \<in> set (mg_sent (suggest_turn (\<lambda>x. x) demo_f64 demo_monitor_lib ''k'' (demo_suggest_env 0) (suggest_start demo_registry)))"
proof -
  have snap: "registry_snapshot (\<lambda>x. x) (sg_snapshot_now (demo_suggest_env 0)) (mg_registry (suggest_start demo_registry))
      = (fst (registry_snapshot (\<lambda>x. x) 200 demo_registry), demo_snap)"
    by (simp add: demo_suggest_env_def suggest_start_def demo_snap_def prod_eq_iff)
  have "ascii_str (replicate 32 (CHR ''p''))" by code_simp
  then have "slice_to (pubkey_hex (rf_lib demo_helped) ''k'') 8 = Ret (replicate 8 (CHR ''p''))"
    by (simp add: slice_to_ascii pubkey_hex_def demo_helped_def demo_monitor_lib_def)
  moreover have "crypto_ok (rf_lib demo_helped) ''k''" by (simp add: crypto_ok_def demo_helped_def demo_monitor_lib_def)
  moreover have "pubkey_hex (rf_lib demo_helped) ''k'' \<in> rf_monitors demo_helped"
    by (simp add: pubkey_hex_def demo_helped_def demo_monitor_lib_def)
  moreover have "parse_suggest (rf_lib demo_helped) (demo_wire m) = Some m" for m
    by (simp add: demo_helped_def demo_monitor_lib_def demo_wire_def)
  moreover have "\<not> recently (sg_instant (demo_suggest_env 0)) (mg_last (suggest_start demo_registry)) ''n1''"
    by (simp add: recently_def suggest_start_def)
  moreover have "rf_show_id demo_helped (rf_me demo_helped) = ''n1''" by (simp add: demo_helped_def)
  moreover have "r_status demo_recv = Running" "c_generation (r_ctl demo_recv) = rf_generation demo_helped"
    by (simp_all add: demo_helped_def demo_recv_def demo_rcfg_def demo_ctl_def)
  moreover have "sg_result (demo_suggest_env 0) j = Sent"
    "saturating_sub (ri_now2 (demo_renv\<lparr>ri_now2 := 400\<rparr>)) (sg_clock (demo_suggest_env 0) j) < 300" for j
    by (simp_all add: demo_suggest_env_def demo_renv_def saturating_sub_def)
  moreover have "''n1'' \<in> set (active_ids demo_snap)" "length (neighbors_of (build_adj demo_snap) ''n1'') < 2"
    by (simp_all add: demo_snap_active demo_snap_adj)
  ultimately have "\<exists>m. (sg_instant (demo_suggest_env 0), m) \<in> set (mg_sent (suggest_turn (\<lambda>x. x) demo_f64 (rf_lib demo_helped) ''k''
      (demo_suggest_env 0) (suggest_start demo_registry)))"
    using isolated_writer_is_helped [OF snap, of "''n1''" demo_helped "''k''" _ demo_wire demo_recv
        "demo_renv\<lparr>ri_now2 := 400\<rparr>" demo_f64 "''q''"] by blast
  then show ?thesis by (simp add: demo_helped_def) (simp add: demo_suggest_env_def)
qed

end
